(* ===== verification/F2P_Prelude.thy ===== *)
theory F2P_Prelude
  imports Main "HOL-Library.Word"
begin

text \<open>
  Shared vocabulary of the f2p development: machine types (bytes, 16, 32 and 64 bit words),
  Go errors with their wrapping, the slice and index expressions that may panic, big-endian
  integer encodings (\<^verbatim>\<open>encoding/binary\<close> and the hand written shifts of the sources), the
  saturating subtraction of \<^verbatim>\<open>time.Time\<close>, decimal printing and the few functions of
  \<^verbatim>\<open>strings\<close> that the sources use. The named collections gather the rules that the component
  theories pass to the simplifier.
\<close>

unbundle bit_operations_syntax

named_theorems wire_simps "encoding and decoding rules for wire formats"
named_theorems go_simps "unfolding rules for modelled Go library functions"

section \<open>Machine types\<close>

type_synonym byte = "8 word"
type_synonym bytes = "byte list"
type_synonym uint16 = "16 word"
type_synonym uint32 = "32 word"
type_synonym uint64 = "64 word"

text \<open>Instants and durations are nanosecond counts, as in package \<^verbatim>\<open>time\<close>.\<close>

type_synonym time = int
type_synonym duration = int

abbreviation millisecond :: duration where "millisecond \<equiv> 1000000"
abbreviation second :: duration where "second \<equiv> 1000000000"

text \<open>\<^verbatim>\<open>t.Sub(u)\<close> saturates at the bounds of a 64 bit duration.\<close>

definition time_sub :: "time \<Rightarrow> time \<Rightarrow> duration" where
  "time_sub t u = max (- (2 ^ 63)) (min (2 ^ 63 - 1) (t - u))"

lemma time_sub_mono: "t \<le> t' \<Longrightarrow> u' \<le> u \<Longrightarrow> time_sub t u \<le> time_sub t' u'"
  by (simp add: time_sub_def)

lemma time_sub_exact: "\<bar>t - u\<bar> < 2 ^ 63 \<Longrightarrow> time_sub t u = t - u"
  by (simp add: time_sub_def)

lemma time_sub_gt_iff:
  "0 \<le> d \<Longrightarrow> d < 2 ^ 63 - 1 \<Longrightarrow> d < time_sub t u \<longleftrightarrow> d < t - u"
  by (auto simp: time_sub_def)

section \<open>Errors\<close>

text \<open>
  An error is one of the sentinel values the sources compare with, an error of the environment
  (a transport, the operating system), or one made by \<^verbatim>\<open>fmt.Errorf\<close>: its format string with the
  arguments. An argument printed with \<^verbatim>\<open>%w\<close> stays reachable for \<^verbatim>\<open>errors.Is\<close>, one printed with
  \<^verbatim>\<open>%v\<close> does not.
\<close>

datatype error =
    EOF
  | ErrUnexpectedEOF
  | ErrVarintOverflow
  | ErrShortWrite
  | ErrPasswordInterrupted
  | ContextDone
  | EnvError string
  | Errorf string "fmt_arg list"
and fmt_arg = FStr string | FInt int | FErr error | FWrap error

fun errors_is :: "error \<Rightarrow> error \<Rightarrow> bool" and args_is :: "fmt_arg list \<Rightarrow> error \<Rightarrow> bool"
where
  "errors_is (Errorf f as) t = (Errorf f as = t \<or> args_is as t)"
| "errors_is e t = (e = t)"
| "args_is [] t = False"
| "args_is (FWrap e # as) t = (errors_is e t \<or> args_is as t)"
| "args_is (_ # as) t = args_is as t"

section \<open>Slices\<close>

text \<open>
  \<^verbatim>\<open>xs[i:j]\<close> and \<^verbatim>\<open>xs[i]\<close>; \<open>None\<close> is the run-time panic. Go bounds a slice expression by the
  capacity; the model asks for the length, so a proof that no panic occurs also shows that no
  byte beyond the received data is read.
\<close>

definition slice :: "'a list \<Rightarrow> nat \<Rightarrow> nat \<Rightarrow> 'a list option" where
  "slice xs i j = (if i \<le> j \<and> j \<le> length xs then Some (take (j - i) (drop i xs)) else None)"

definition idx :: "'a list \<Rightarrow> nat \<Rightarrow> 'a option" where
  "idx xs i = (if i < length xs then Some (xs ! i) else None)"

lemma slice_Some [go_simps]:
  "i \<le> j \<Longrightarrow> j \<le> length xs \<Longrightarrow> slice xs i j = Some (take (j - i) (drop i xs))"
  by (simp add: slice_def)

lemma slice_length: "slice xs i j = Some ys \<Longrightarrow> length ys = j - i"
  by (auto simp: slice_def split: if_splits)

lemma idx_Some [go_simps]: "i < length xs \<Longrightarrow> idx xs i = Some (xs ! i)"
  by (simp add: idx_def)

lemma find_append: "List.find P (xs @ ys) = (case List.find P xs of Some x \<Rightarrow> Some x | None \<Rightarrow> List.find P ys)"
  by (induction xs) auto

section \<open>Big-endian integers\<close>

definition put_uint16 :: "uint16 \<Rightarrow> bytes" where
  "put_uint16 w = [ucast (drop_bit 8 w), ucast w]"

definition put_uint32 :: "uint32 \<Rightarrow> bytes" where
  "put_uint32 w =
     [ucast (drop_bit 24 w), ucast (drop_bit 16 w), ucast (drop_bit 8 w), ucast w]"

definition join_uint16 :: "byte \<Rightarrow> byte \<Rightarrow> uint16" where
  "join_uint16 a b = push_bit 8 (ucast a) OR ucast b"

definition join_uint32 :: "byte \<Rightarrow> byte \<Rightarrow> byte \<Rightarrow> byte \<Rightarrow> uint32" where
  "join_uint32 a b c d =
     push_bit 24 (ucast a) OR push_bit 16 (ucast b) OR push_bit 8 (ucast c) OR ucast d"

text \<open>\<^verbatim>\<open>binary.BigEndian.Uint16\<close> and \<^verbatim>\<open>Uint32\<close> panic on a slice that is too short.\<close>

fun get_uint16 :: "bytes \<Rightarrow> uint16 option" where
  "get_uint16 (a # b # _) = Some (join_uint16 a b)"
| "get_uint16 _ = None"

fun get_uint32 :: "bytes \<Rightarrow> uint32 option" where
  "get_uint32 (a # b # c # d # _) = Some (join_uint32 a b c d)"
| "get_uint32 _ = None"

lemma byte_bit_ge [simp]: "8 \<le> n \<Longrightarrow> \<not> bit (b :: byte) n"
  using bit_imp_le_length [of b n] by auto

lemma length_put_uint16 [simp]: "length (put_uint16 w) = 2"
  by (simp add: put_uint16_def)

lemma length_put_uint32 [simp]: "length (put_uint32 w) = 4"
  by (simp add: put_uint32_def)

lemma join_put_uint16 [wire_simps]:
  "join_uint16 (ucast (drop_bit 8 w)) (ucast w) = w"
  unfolding join_uint16_def
proof (rule bit_word_eqI)
  fix n :: nat
  assume "n < LENGTH(16)"
  then consider "n < 8" | "8 \<le> n" "n < 16" by fastforce
  then show "bit (push_bit 8 (ucast (ucast (drop_bit 8 w) :: byte)) OR
      ucast (ucast w :: byte) :: uint16) n = bit w n"
    by cases (auto simp: bit_simps)
qed

lemma join_put_uint32 [wire_simps]:
  "join_uint32 (ucast (drop_bit 24 w)) (ucast (drop_bit 16 w)) (ucast (drop_bit 8 w)) (ucast w) = w"
  unfolding join_uint32_def
proof (rule bit_word_eqI)
  fix n :: nat
  assume "n < LENGTH(32)"
  then consider "n < 8" | "8 \<le> n" "n < 16" | "16 \<le> n" "n < 24" | "24 \<le> n" "n < 32"
    by fastforce
  then show "bit (push_bit 24 (ucast (ucast (drop_bit 24 w) :: byte)) OR
      push_bit 16 (ucast (ucast (drop_bit 16 w) :: byte)) OR
      push_bit 8 (ucast (ucast (drop_bit 8 w) :: byte)) OR
      ucast (ucast w :: byte) :: uint32) n = bit w n"
    by cases (auto simp: bit_simps)
qed

lemma put_join_uint16 [wire_simps]: "put_uint16 (join_uint16 a b) = [a, b]"
  unfolding put_uint16_def join_uint16_def
  by (auto intro!: bit_word_eqI simp: bit_simps)

lemma put_join_uint32 [wire_simps]: "put_uint32 (join_uint32 a b c d) = [a, b, c, d]"
  unfolding put_uint32_def join_uint32_def
  by (auto intro!: bit_word_eqI simp: bit_simps)

lemma get_put_uint16 [wire_simps]: "get_uint16 (put_uint16 w @ rest) = Some w"
  by (simp add: put_uint16_def wire_simps)

lemma get_put_uint32 [wire_simps]: "get_uint32 (put_uint32 w @ rest) = Some w"
  by (simp add: put_uint32_def wire_simps)

lemma get_uint16_total: "2 \<le> length bs \<Longrightarrow> \<exists>w. get_uint16 bs = Some w"
  by (cases bs rule: get_uint16.cases) auto

lemma get_uint32_total: "4 \<le> length bs \<Longrightarrow> \<exists>w. get_uint32 bs = Some w"
  by (cases bs rule: get_uint32.cases) auto

section \<open>Decimal printing\<close>

text \<open>\<^verbatim>\<open>%d\<close> and \<^verbatim>\<open>strconv\<close>: the decimal digits of a natural number.\<close>

definition digit_char :: "nat \<Rightarrow> char" where
  "digit_char d = char_of (48 + d)"

fun itoa :: "nat \<Rightarrow> string" where
  "itoa n = (if n < 10 then [digit_char n] else itoa (n div 10) @ [digit_char (n mod 10)])"

declare itoa.simps [simp del]

section \<open>Package strings\<close>

definition HasPrefix :: "string \<Rightarrow> string \<Rightarrow> bool" where
  "HasPrefix s p \<longleftrightarrow> take (length p) s = p"

definition HasSuffix :: "string \<Rightarrow> string \<Rightarrow> bool" where
  "HasSuffix s p \<longleftrightarrow> length p \<le> length s \<and> drop (length s - length p) s = p"

text \<open>\<^verbatim>\<open>strings.TrimRight(s, cut)\<close> with a one character cut set.\<close>

definition TrimRight :: "string \<Rightarrow> char \<Rightarrow> string" where
  "TrimRight s c = rev (dropWhile (\<lambda>x. x = c) (rev s))"

definition is_space :: "char \<Rightarrow> bool" where
  "is_space c \<longleftrightarrow> of_char c \<in> {9, 10, 11, 12, 13, 32 :: nat}"

definition TrimSpace :: "string \<Rightarrow> string" where
  "TrimSpace s = rev (dropWhile is_space (rev (dropWhile is_space s)))"

text \<open>\<^verbatim>\<open>strings.ToLower\<close> on the ASCII range.\<close>

definition to_lower :: "char \<Rightarrow> char" where
  "to_lower c =
     (let n = of_char c :: nat in if 65 \<le> n \<and> n \<le> 90 then char_of (n + 32) else c)"

definition ToLower :: "string \<Rightarrow> string" where
  "ToLower s = map to_lower s"

text \<open>\<^verbatim>\<open>strings.EqualFold\<close> on the ASCII range.\<close>

definition EqualFold :: "string \<Rightarrow> string \<Rightarrow> bool" where
  "EqualFold s t \<longleftrightarrow> ToLower s = ToLower t"

lemma HasSuffix_append [simp]: "HasSuffix (s @ p) p"
  by (simp add: HasSuffix_def)

lemma HasPrefix_append [simp]: "HasPrefix (p @ s) p"
  by (simp add: HasPrefix_def)

lemma HasPrefix_Cons [simp]: "HasPrefix (c # s) [d] \<longleftrightarrow> c = d"
  by (simp add: HasPrefix_def)

lemma HasPrefix_Nil [simp]: "HasPrefix [] [d] \<longleftrightarrow> False"
  by (simp add: HasPrefix_def)

lemma TrimRight_no_suffix: "TrimRight s c = [] \<or> last (TrimRight s c) \<noteq> c"
proof (cases "dropWhile (\<lambda>x. x = c) (rev s)")
  case Nil
  then show ?thesis by (simp add: TrimRight_def)
next
  case (Cons a l)
  moreover from this have "a \<noteq> c"
    using hd_dropWhile [of "\<lambda>x. x = c" "rev s"] by simp
  ultimately show ?thesis by (simp add: TrimRight_def)
qed

lemma TrimRight_id: "s = [] \<or> last s \<noteq> c \<Longrightarrow> TrimRight s c = s"
  by (cases s rule: rev_cases) (auto simp: TrimRight_def)

lemma TrimRight_prefix: "\<exists>k. s = TrimRight s c @ replicate k c"
proof -
  have "rev s = takeWhile (\<lambda>x. x = c) (rev s) @ dropWhile (\<lambda>x. x = c) (rev s)" by simp
  moreover have "takeWhile (\<lambda>x. x = c) (rev s) =
      replicate (length (takeWhile (\<lambda>x. x = c) (rev s))) c"
    by (rule replicate_eqI) (auto dest: set_takeWhileD)
  ultimately have "rev s = replicate (length (takeWhile (\<lambda>x. x = c) (rev s))) c
      @ dropWhile (\<lambda>x. x = c) (rev s)" by metis
  then have "s = rev (dropWhile (\<lambda>x. x = c) (rev s)) @
      replicate (length (takeWhile (\<lambda>x. x = c) (rev s))) c"
    by (metis rev_append rev_replicate rev_rev_ident)
  then show ?thesis by (auto simp: TrimRight_def)
qed

end
