(* ===== verification/F2P_IO.thy ===== *)
theory F2P_IO
  imports F2P_Prelude "HOL-Library.Monad_Syntax"
begin

text \<open>
  The byte stream interfaces the components share. \<^verbatim>\<open>io.Reader\<close> and \<^verbatim>\<open>io.Writer\<close> are functions on
  an explicit state; \<open>None\<close> stands for a call that never returns. Two locales state the contracts
  the program relies on: \<open>byte_source\<close> (a read delivers a non-empty piece of the pending bytes,
  or the terminal error once there are none) and \<open>byte_sink\<close> (a write accepts a prefix and reports
  an error when it is a proper one); \<open>short_sink\<close> is the weaker contract that \<^verbatim>\<open>writeFull\<close> needs.
  \<^verbatim>\<open>io.ReadFull\<close> and \<^verbatim>\<open>writeFull\<close> are loops over the interfaces, shown to return under the
  contracts. A transport stream (libp2p or QUIC) is the record \<open>conn\<close>, whose reads fragment the
  data arbitrarily and whose writes may fail after any number of bytes.
\<close>

type_synonym 's reader = "'s \<Rightarrow> nat \<Rightarrow> ((bytes \<times> error option) \<times> 's) option"
type_synonym 's writer = "'s \<Rightarrow> bytes \<Rightarrow> ((nat \<times> error option) \<times> 's) option"

text \<open>What a reader will deliver: the bytes still to come and the error that follows them.\<close>

type_synonym stream_view = "bytes \<times> error"

section \<open>io.ReadFull\<close>

partial_function (option) ReadFull_loop ::
  "'s reader \<Rightarrow> nat \<Rightarrow> 's \<Rightarrow> bytes \<Rightarrow> ((bytes \<times> error option) \<times> 's) option"
where
  "ReadFull_loop rd m s acc =
     (if m \<le> length acc then Some ((acc, None), s)
      else do {
        r \<leftarrow> rd s (m - length acc);
        case r of ((bs, eo), s') \<Rightarrow>
          (case eo of
             None \<Rightarrow> ReadFull_loop rd m s' (acc @ bs)
           | Some e \<Rightarrow>
               Some ((acc @ bs,
                      if m \<le> length (acc @ bs) then None
                      else if acc @ bs \<noteq> [] \<and> e = EOF then Some ErrUnexpectedEOF
                      else Some e), s'))
      })"

definition ReadFull :: "'s reader \<Rightarrow> 's \<Rightarrow> nat \<Rightarrow> ((bytes \<times> error option) \<times> 's) option" where
  "ReadFull rd s n = ReadFull_loop rd n s []"

section \<open>writeFull\<close>

text \<open>
  \<^verbatim>\<open>internal/message/message.go\<close>: the argument is the part \<^verbatim>\<open>p[off:]\<close> that is still to be
  written.
\<close>

partial_function (option) writeFull ::
  "'s writer \<Rightarrow> 's \<Rightarrow> bytes \<Rightarrow> (error option \<times> 's) option"
where
  "writeFull wr s p =
     (if p = [] then Some (None, s)
      else do {
        r \<leftarrow> wr s p;
        case r of ((n, eo), s') \<Rightarrow>
          (case eo of
             Some e \<Rightarrow> Some (Some e, s')
           | None \<Rightarrow> writeFull wr s' (drop n p))
      })"

section \<open>Invariants of a stream state\<close>

text \<open>An operation keeps \<open>I\<close> when the state it returns satisfies it; the loops keep what a single
  read or write keeps.\<close>

definition keeps :: "('s \<Rightarrow> bool) \<Rightarrow> ('r \<times> 's) option \<Rightarrow> bool" where
  "keeps I r \<longleftrightarrow> (\<forall>x s. r = Some (x, s) \<longrightarrow> I s)"

lemma keeps_bind:
  "keeps I m \<Longrightarrow> (\<And>x s. I s \<Longrightarrow> keeps J (f (x, s))) \<Longrightarrow> keeps J (m \<bind> f)"
  by (auto simp: keeps_def bind_eq_Some_conv)

lemma keeps_Some [simp]: "keeps I (Some (x, s)) \<longleftrightarrow> I s"
  by (auto simp: keeps_def)

lemma ReadFull_keeps:
  assumes rd: "\<And>s n. I s \<Longrightarrow> keeps I (rd s n)" and "I s"
  shows "keeps I (ReadFull rd s n)"
proof -
  have "ReadFull_loop rd n s acc = Some y \<Longrightarrow> (\<forall>s n. I s \<longrightarrow> keeps I (rd s n)) \<longrightarrow> I s \<longrightarrow> I (snd y)" for n s acc y
  proof (erule ReadFull_loop.raw_induct [where P =
      "\<lambda>rd m s acc y. (\<forall>s n. I s \<longrightarrow> keeps I (rd s n)) \<longrightarrow> I s \<longrightarrow> I (snd y)", rotated], goal_cases)
    case (1 f rd m s acc y)
    show ?case
    proof (intro impI)
      assume k: "\<forall>s n. I s \<longrightarrow> keeps I (rd s n)" and s: "I s"
      show "I (snd y)"
      proof (cases "m \<le> length acc")
        case False
        with 1(2) obtain bs eo s1 where r: "rd s (m - length acc) = Some ((bs, eo), s1)"
          by (auto simp: bind_eq_Some_conv)
        with k s have "I s1" unfolding keeps_def by blast
        with 1 False r k show ?thesis by (cases eo) auto
      qed (use 1 s in auto)
    qed
  qed
  with assms show ?thesis unfolding ReadFull_def keeps_def [of I "ReadFull_loop rd n s []"] by fastforce
qed

lemma writeFull_keeps:
  assumes wr: "\<And>s p. I s \<Longrightarrow> keeps I (wr s p)" and "I s"
  shows "keeps I (writeFull wr s p)"
proof -
  have "writeFull wr s p = Some y \<Longrightarrow> (\<forall>s p. I s \<longrightarrow> keeps I (wr s p)) \<longrightarrow> I s \<longrightarrow> I (snd y)" for s p y
  proof (erule writeFull.raw_induct [where P =
      "\<lambda>wr s p y. (\<forall>s p. I s \<longrightarrow> keeps I (wr s p)) \<longrightarrow> I s \<longrightarrow> I (snd y)", rotated], goal_cases)
    case (1 f wr s p y)
    show ?case
    proof (intro impI)
      assume k: "\<forall>s p. I s \<longrightarrow> keeps I (wr s p)" and s: "I s"
      show "I (snd y)"
      proof (cases "p = []")
        case False
        with 1(2) obtain n eo s1 where r: "wr s p = Some ((n, eo), s1)"
          by (auto simp: bind_eq_Some_conv)
        with k s have "I s1" unfolding keeps_def by blast
        with 1 False r k show ?thesis by (cases eo) auto
      qed (use 1 s in auto)
    qed
  qed
  with assms show ?thesis unfolding keeps_def [of I "writeFull wr s p"] by fastforce
qed

section \<open>The reader contract\<close>

definition short_read_error :: "bytes \<Rightarrow> error \<Rightarrow> error" where
  "short_read_error p e = (if p \<noteq> [] \<and> e = EOF then ErrUnexpectedEOF else e)"

locale byte_source =
  fixes rd :: "'s reader"
    and view :: "'s \<Rightarrow> stream_view"
    and inv :: "'s \<Rightarrow> bool"
  assumes rd_data: "inv s \<Longrightarrow> view s = (p, e) \<Longrightarrow> p \<noteq> [] \<Longrightarrow> 0 < n \<Longrightarrow>
      \<exists>k s'. rd s n = Some ((take k p, None), s') \<and> 0 < k \<and> k \<le> n \<and> k \<le> length p \<and>
             view s' = (drop k p, e) \<and> inv s'"
    and rd_end: "inv s \<Longrightarrow> view s = ([], e) \<Longrightarrow> 0 < n \<Longrightarrow>
      \<exists>s'. rd s n = Some (([], Some e), s')"
begin

lemma ReadFull_loop_ok:
  assumes "inv s" and "view s = (p, e)" and "length acc \<le> m" and "m \<le> length acc + length p"
  shows "\<exists>s'. ReadFull_loop rd m s acc = Some ((acc @ take (m - length acc) p, None), s') \<and>
              view s' = (drop (m - length acc) p, e) \<and> inv s'"
  using assms
proof (induction "m - length acc" arbitrary: s acc p rule: less_induct)
  case less
  show ?case
  proof (cases "m \<le> length acc")
    case True
    with less.prems show ?thesis by (auto simp: ReadFull_loop.simps [of rd m s acc])
  next
    case False
    define n where "n = m - length acc"
    have "0 < n" and "p \<noteq> []" using False less.prems by (auto simp: n_def)
    with less.prems obtain k s' where rd: "rd s n = Some ((take k p, None), s')"
      and k: "0 < k" "k \<le> n" "k \<le> length p" and v: "view s' = (drop k p, e)" "inv s'"
      using rd_data by blast
    have step: "ReadFull_loop rd m s acc = ReadFull_loop rd m s' (acc @ take k p)"
      using False rd by (simp add: ReadFull_loop.simps [of rd m s acc] n_def [symmetric])
    have "m - length (acc @ take k p) < m - length acc"
      and "length (acc @ take k p) \<le> m" and "m \<le> length (acc @ take k p) + length (drop k p)"
      using k False less.prems by (auto simp: n_def)
    from less.hyps [OF this(1) v(2,1) this(2,3)] obtain s'' where
      r: "ReadFull_loop rd m s' (acc @ take k p) =
          Some (((acc @ take k p) @ take (m - length (acc @ take k p)) (drop k p), None), s'')"
      and w: "view s'' = (drop (m - length (acc @ take k p)) (drop k p), e)" "inv s''" by blast
    have "m - length (acc @ take k p) = n - k" using k by (auto simp: n_def)
    moreover have "take k p @ take (n - k) (drop k p) = take n p"
      using k by (metis le_add_diff_inverse take_add)
    moreover have "drop (n - k) (drop k p) = drop n p" using k by simp
    ultimately show ?thesis using step r w by (auto simp: n_def)
  qed
qed

lemma ReadFull_loop_short:
  assumes "inv s" and "view s = (p, e)" and "length acc + length p < m"
  shows "\<exists>s'. ReadFull_loop rd m s acc =
              Some ((acc @ p, Some (short_read_error (acc @ p) e)), s')"
  using assms
proof (induction "length p" arbitrary: s acc p rule: less_induct)
  case less
  have pos: "\<not> m \<le> length acc" "0 < m - length acc" using less.prems by auto
  show ?case
  proof (cases "p = []")
    case True
    with less.prems pos obtain s' where "rd s (m - length acc) = Some (([], Some e), s')"
      using rd_end by blast
    with pos True show ?thesis
      by (auto simp: ReadFull_loop.simps [of rd m s acc] short_read_error_def)
  next
    case False
    with less.prems pos obtain k s' where
      rd: "rd s (m - length acc) = Some ((take k p, None), s')"
      and k: "0 < k" "k \<le> length p" and v: "view s' = (drop k p, e)" "inv s'"
      using rd_data by blast
    have "length (drop k p) < length p" and "length (acc @ take k p) + length (drop k p) < m"
      using k less.prems by auto
    from less.hyps [OF this(1) v(2,1) this(2)] show ?thesis
      using pos rd by (auto simp: ReadFull_loop.simps [of rd m s acc])
  qed
qed

lemma ReadFull_ok:
  assumes "inv s" and "view s = (p, e)" and "n \<le> length p"
  obtains s' where "ReadFull rd s n = Some ((take n p, None), s')"
    and "view s' = (drop n p, e)" and "inv s'"
  using ReadFull_loop_ok [of s p e "[]" n] assms by (auto simp: ReadFull_def)

text \<open>What a single read does to the data that the source still promises.\<close>

lemma read_pending:
  assumes "inv s" "0 < n" "rd s n = Some ((p, rerr), s')"
  shows "(if rerr = None then p @ fst (view s') else p) = fst (view s)"
proof (cases "view s")
  case (Pair q e)
  show ?thesis
  proof (cases "q = []")
    case True
    then show ?thesis using rd_end [OF assms(1) _ assms(2), of e] Pair assms(3) by auto
  next
    case False
    then show ?thesis using rd_data [OF assms(1) Pair False assms(2)] Pair assms(3) by auto
  qed
qed

lemma ReadFull_short:
  assumes "inv s" and "view s = (p, e)" and "length p < n"
  obtains s' where "ReadFull rd s n = Some ((p, Some (short_read_error p e)), s')"
  using ReadFull_loop_short [of s p e "[]" n] assms by (auto simp: ReadFull_def)

end

section \<open>The writer contracts\<close>

text \<open>
  \<open>sent\<close> is what has been delivered. A write without an error delivers as much as it reports; one
  that fails delivers at least as much, and nothing is promised about later writes.
\<close>

locale short_sink =
  fixes wr :: "'s writer"
    and sent :: "'s \<Rightarrow> bytes"
    and ready :: "'s \<Rightarrow> bool"
  assumes wr_short: "ready s \<Longrightarrow> p \<noteq> [] \<Longrightarrow>
      \<exists>n eo s' k. wr s p = Some ((n, eo), s') \<and> n \<le> k \<and> k \<le> length p \<and>
                  sent s' = sent s @ take k p \<and> (eo = None \<longrightarrow> 0 < n \<and> n = k \<and> ready s')"
begin

lemma writeFull_spec:
  assumes "ready s"
  shows "\<exists>eo s' k. writeFull wr s p = Some (eo, s') \<and> k \<le> length p \<and>
                   sent s' = sent s @ take k p \<and> (eo = None \<longrightarrow> k = length p \<and> ready s')"
  using assms
proof (induction "length p" arbitrary: s p rule: less_induct)
  case less
  show ?case
  proof (cases "p = []")
    case True
    with less.prems show ?thesis by (simp add: writeFull.simps [of wr s "[]"])
  next
    case False
    with less.prems obtain n eo s' k where
      wr: "wr s p = Some ((n, eo), s')" and k: "n \<le> k" "k \<le> length p"
      and out: "sent s' = sent s @ take k p"
      and ok: "eo = None \<longrightarrow> 0 < n \<and> n = k \<and> ready s'" using wr_short by blast
    show ?thesis
    proof (cases eo)
      case (Some e)
      with wr k out False show ?thesis by (auto simp: writeFull.simps [of wr s p])
    next
      case None
      with ok have "length (drop n p) < length p" and "ready s'" using False by auto
      from less.hyps [OF this] obtain eo' s'' j where
        r: "writeFull wr s' (drop n p) = Some (eo', s'')" "j \<le> length (drop n p)"
          "sent s'' = sent s' @ take j (drop n p)"
          "eo' = None \<longrightarrow> j = length (drop n p) \<and> ready s''" by blast
      have "writeFull wr s p = Some (eo', s'')"
        using wr None False r by (simp add: writeFull.simps [of wr s p])
      moreover have "sent s'' = sent s @ take (n + j) p"
        using r(3) out ok None by (simp add: take_add)
      ultimately show ?thesis using r k ok None
        by (intro exI [of _ eo'] exI [of _ s''] exI [of _ "n + j"]) auto
    qed
  qed
qed

lemma writeFull_cases:
  assumes "ready s"
  obtains (ok) s' where "writeFull wr s p = Some (None, s')" and "sent s' = sent s @ p" and "ready s'"
  | (failed) e s' k where "writeFull wr s p = Some (Some e, s')" and "k \<le> length p"
      and "sent s' = sent s @ take k p"
  using writeFull_spec [OF assms, of p] by (metis append_eq_append_conv not_None_eq take_all_iff order_refl)

end

locale byte_sink =
  fixes wr :: "'s writer"
    and sent :: "'s \<Rightarrow> bytes"
    and ready :: "'s \<Rightarrow> bool"
  assumes wr_spec: "ready s \<Longrightarrow>
      \<exists>n eo s' k. wr s p = Some ((n, eo), s') \<and> n \<le> k \<and> k \<le> length p \<and>
                  sent s' = sent s @ take k p \<and> (eo = None \<longrightarrow> n = length p \<and> ready s')"
begin

lemma wr_cases:
  assumes "ready s"
  obtains (ok) s' where "wr s p = Some ((length p, None), s')" and "sent s' = sent s @ p" and "ready s'"
  | (failed) n e s' k where "wr s p = Some ((n, Some e), s')" and "k \<le> length p"
      and "sent s' = sent s @ take k p"
  using wr_spec [OF assms, of p] by (metis not_None_eq take_all_iff order_antisym)

end

text \<open>A transport on which writes do not fail while it is in order.\<close>

locale reliable_sink = byte_sink +
  assumes wr_succeeds: "ready s \<Longrightarrow> \<exists>s'. wr s p = Some ((length p, None), s')"

sublocale byte_sink \<subseteq> short_sink wr sent ready
proof unfold_locales
  fix s p
  assume "ready s" and "p \<noteq> ([] :: bytes)"
  with wr_spec [of s p] show "\<exists>n eo s' k. wr s p = Some ((n, eo), s') \<and> n \<le> k \<and> k \<le> length p \<and>
      sent s' = sent s @ take k p \<and> (eo = None \<longrightarrow> 0 < n \<and> n = k \<and> ready s')"
    by (metis length_greater_0_conv order_antisym)
qed

context reliable_sink
begin

lemma writeFull_succeeds:
  assumes "ready s"
  obtains s' where "writeFull wr s p = Some (None, s')" and "sent s' = sent s @ p" and "ready s'"
proof -
  obtain s1 where w: "wr s p = Some ((length p, None), s1)" using wr_succeeds [OF assms] by blast
  then have "writeFull wr s p = Some (None, if p = [] then s else s1)"
    by (simp add: writeFull.simps [of wr s p] writeFull.simps [of wr s1 "[]"])
  with that show ?thesis
    by (cases rule: writeFull_cases [OF assms, of p]) auto
qed

end

section \<open>Transport streams\<close>

text \<open>
  The environment's side of a libp2p or QUIC stream: the segments in which the inbound bytes
  arrive and the error that ends them, the bytes written so far, how many more the transport
  accepts (\<open>None\<close>: no limit) and the error it reports after that.
\<close>

record conn =
  in_segs :: "bytes list"
  in_err :: error
  out_bytes :: bytes
  out_room :: "nat option"
  out_err :: error
  is_closed :: bool

definition conn_read :: "conn reader" where
  "conn_read c n =
     (case dropWhile (\<lambda>s. s = []) (in_segs c) of
        [] \<Rightarrow> Some (([], Some (in_err c)), c\<lparr>in_segs := []\<rparr>)
      | s # ss \<Rightarrow> Some ((take n s, None), c\<lparr>in_segs := drop n s # ss\<rparr>))"

definition conn_write :: "conn writer" where
  "conn_write c p =
     (if is_closed c then Some ((0, Some (out_err c)), c)
      else case out_room c of
        None \<Rightarrow> Some ((length p, None), c\<lparr>out_bytes := out_bytes c @ p\<rparr>)
      | Some r \<Rightarrow>
          if length p \<le> r
          then Some ((length p, None), c\<lparr>out_bytes := out_bytes c @ p, out_room := Some (r - length p)\<rparr>)
          else Some ((r, Some (out_err c)), c\<lparr>out_bytes := out_bytes c @ take r p, out_room := Some 0\<rparr>))"

definition conn_close :: "conn \<Rightarrow> error option \<times> conn" where
  "conn_close c = (None, c\<lparr>is_closed := True\<rparr>)"

definition conn_view :: "conn \<Rightarrow> stream_view" where
  "conn_view c = (concat (in_segs c), in_err c)"

lemma concat_dropWhile_Nil: "concat (dropWhile (\<lambda>s. s = []) ss) = concat ss"
  by (induction ss) auto

interpretation cs: byte_source conn_read conn_view "\<lambda>_. True"
proof unfold_locales
  fix s :: conn and p e and n :: nat
  assume v: "conn_view s = (p, e)" and "p \<noteq> []" and n: "0 < n"
  then obtain x xs where ss: "dropWhile (\<lambda>s. s = []) (in_segs s) = x # xs"
    using concat_dropWhile_Nil [of "in_segs s"]
    by (cases "dropWhile (\<lambda>s. s = []) (in_segs s)") (auto simp: conn_view_def)
  then have "x \<noteq> []" using hd_dropWhile [of "\<lambda>s. s = []" "in_segs s"] by auto
  moreover have p: "p = x @ concat xs"
    using v ss concat_dropWhile_Nil [of "in_segs s"] by (simp add: conn_view_def)
  ultimately show "\<exists>k s'. conn_read s n = Some ((take k p, None), s') \<and> 0 < k \<and> k \<le> n \<and>
      k \<le> length p \<and> conn_view s' = (drop k p, e) \<and> True"
    using v n ss by (intro exI [of _ "min n (length x)"]) (auto simp: conn_read_def conn_view_def min_def)
next
  fix s :: conn and e and n :: nat
  assume v: "conn_view s = ([], e)"
  then have "dropWhile (\<lambda>s. s = []) (in_segs s) = []"
    by (auto simp: conn_view_def)
  then show "\<exists>s'. conn_read s n = Some (([], Some e), s')"
    using v by (auto simp: conn_read_def conn_view_def simp del: dropWhile_eq_Nil_conv)
qed

interpretation ck: byte_sink conn_write out_bytes "\<lambda>_. True"
  by unfold_locales (auto simp: conn_write_def split: option.split)

definition conn_healthy :: "conn \<Rightarrow> bool" where
  "conn_healthy c \<longleftrightarrow> \<not> is_closed c \<and> out_room c = None"

interpretation hk: reliable_sink conn_write out_bytes conn_healthy
  by unfold_locales (auto simp: conn_write_def conn_healthy_def split: option.split)

text \<open>A stream on which nothing has happened yet.\<close>

definition fresh_conn :: conn where
  "fresh_conn = \<lparr>in_segs = [], in_err = EOF, out_bytes = [], out_room = None,
                 out_err = EnvError ''reset'', is_closed = False\<rparr>"

end
