(* ===== verification/F2P_Compress.thy ===== *)
theory F2P_Compress
  imports F2P_IO
begin

text \<open>
  Package \<^verbatim>\<open>internal/compress\<close>: the framed zstd duplex. A frame is a flag byte, the length of the
  payload as an unsigned varint and the payload, which is either the chunk itself or its zstd
  compression. The zstd library (\<^verbatim>\<open>github.com/DataDog/zstd\<close>) is a parameter, the record
  \<open>zstd_lib\<close>; the one law used of it, \<open>zstd_lossless\<close>, is that decompression undoes compression.
  The lemmas show that the reader delivers exactly the decoding of the frames on the underlying
  stream (it satisfies the \<open>byte_source\<close> contract), that the writer satisfies the \<open>byte_sink\<close>
  contract, and that the two are inverse to each other.
\<close>

section \<open>Parameters\<close>

text \<open>The package variables \<^verbatim>\<open>zstdLevel\<close>, \<^verbatim>\<open>zstdMinSizeB\<close> and \<^verbatim>\<open>zstdChunkSizeB\<close>.\<close>

record zstd_params =
  zstdLevel :: int
  zstdMinSizeB :: int
  zstdChunkSizeB :: int

definition default_zstd_params :: zstd_params where
  "default_zstd_params = \<lparr>zstdLevel = 20, zstdMinSizeB = 256, zstdChunkSizeB = 32 * 1024\<rparr>"

definition ConfigureZstdParams :: "int \<Rightarrow> int \<Rightarrow> int \<Rightarrow> zstd_params" where
  "ConfigureZstdParams level minSizeB chunkSizeB =
     (let curChunk = (if chunkSizeB \<le> 0 then 32 * 1024 else chunkSizeB);
          curMin0 = (if minSizeB \<le> 0 then 256 else minSizeB);
          curMin = (if curMin0 \<ge> curChunk
                    then (let m = curChunk - 1 in if m < 32 then 32 else m)
                    else curMin0)
      in \<lparr>zstdLevel = level, zstdMinSizeB = curMin, zstdChunkSizeB = curChunk\<rparr>)"

lemma ConfigureZstdParams_chunk_pos: "0 < zstdChunkSizeB (ConfigureZstdParams l m c)"
  by (simp add: ConfigureZstdParams_def Let_def)

section \<open>Unsigned varints\<close>

definition flagCompressed :: byte where "flagCompressed = 0x01"

text \<open>\<^verbatim>\<open>binary.PutUvarint\<close>\<close>

function PutUvarint :: "uint64 \<Rightarrow> bytes" where
  "PutUvarint v =
     (if v \<ge> 0x80 then (ucast v OR 0x80) # PutUvarint (drop_bit 7 v) else [ucast v])"
  by pat_completeness auto

lemma unat_drop_bit_7: "unat (drop_bit 7 (v :: uint64)) = unat v div 128"
  by (simp add: drop_bit_eq_div unat_div)

termination PutUvarint
proof (relation "measure unat")
  fix v :: uint64
  assume "v \<ge> 0x80"
  then have "128 \<le> unat v" by (simp add: word_le_nat_alt)
  then show "(drop_bit 7 v, v) \<in> measure unat" by (simp add: unat_drop_bit_7)
qed simp

declare PutUvarint.simps [simp del]

function uvarintLen_loop :: "uint64 \<Rightarrow> nat \<Rightarrow> nat" where
  "uvarintLen_loop v l = (if v \<ge> 0x80 then uvarintLen_loop (drop_bit 7 v) (l + 1) else l)"
  by pat_completeness auto
termination
proof (relation "measure (\<lambda>(v, l). unat v)")
  fix v :: uint64 and l :: nat
  assume "v \<ge> 0x80"
  then have "128 \<le> unat v" by (simp add: word_le_nat_alt)
  then show "((drop_bit 7 v, l + 1), v, l) \<in> measure (\<lambda>(v, l). unat v)"
    by (simp add: unat_drop_bit_7)
qed simp

declare uvarintLen_loop.simps [simp del]

definition uvarintLen :: "uint64 \<Rightarrow> nat" where
  "uvarintLen v = uvarintLen_loop v 1"

text \<open>
  \<^verbatim>\<open>binary.ReadUvarint\<close> over \<^verbatim>\<open>byteReader\<close>: at most ten bytes, the first argument counts those
  that may still follow.
\<close>

fun ReadUvarint_loop ::
  "'s reader \<Rightarrow> nat \<Rightarrow> uint64 \<Rightarrow> nat \<Rightarrow> 's \<Rightarrow> ((error + uint64) \<times> 's) option"
where
  "ReadUvarint_loop rd 0 x sh s = Some (Inl ErrVarintOverflow, s)"
| "ReadUvarint_loop rd (Suc k) x sh s = do {
     r \<leftarrow> ReadFull rd s 1;
     case r of ((bs, eo), s') \<Rightarrow>
       (case eo of
          Some e \<Rightarrow> Some (Inl (if k < 9 \<and> e = EOF then ErrUnexpectedEOF else e), s')
        | None \<Rightarrow>
            (let b = hd bs in
             if b < 0x80 then
               (if k = 0 \<and> b > 1 then Some (Inl ErrVarintOverflow, s')
                else Some (Inr (x OR push_bit sh (ucast b)), s'))
             else ReadUvarint_loop rd k (x OR push_bit sh (ucast (b AND 0x7f))) (sh + 7) s'))
   }"

definition readUvarint :: "'s reader \<Rightarrow> 's \<Rightarrow> ((error + uint64) \<times> 's) option" where
  "readUvarint rd s = ReadUvarint_loop rd 10 0 0 s"

definition writeUvarint :: "'s writer \<Rightarrow> 's \<Rightarrow> uint64 \<Rightarrow> (error option \<times> 's) option" where
  "writeUvarint wr s v = do {
     r \<leftarrow> wr s (PutUvarint v);
     case r of ((n, eo), s') \<Rightarrow> Some (eo, s')
   }"

section \<open>The duplex\<close>

record zstd_lib =
  CompressLevel :: "bytes \<Rightarrow> int \<Rightarrow> error + bytes"
  Decompress :: "bytes \<Rightarrow> error + bytes"
  CompressBound :: "nat \<Rightarrow> nat"

definition zstd_lossless :: "zstd_lib \<Rightarrow> bool" where
  "zstd_lossless L \<longleftrightarrow>
     (\<forall>c l d. CompressLevel L c l = Inr d \<longrightarrow> Decompress L d = Inr c)"

text \<open>The counters are 64 bit integers and wrap around.\<close>

record 's ZstdDuplex =
  base :: 's
  readBuf :: bytes
  wrFrames :: uint64
  wrCompressed :: uint64
  wrOrigBytes :: uint64
  wrStoredBytes :: uint64
  rdFrames :: uint64
  rdCompressed :: uint64
  rdOrigBytes :: uint64
  rdStoredBytes :: uint64
  closeDone :: bool
  closeErr :: "error option"
  metaSide :: string
  metaService :: string
  metaPeer :: string
  metaProtocol :: string

definition NewZstdDuplex :: "'s \<Rightarrow> 's ZstdDuplex" where
  "NewZstdDuplex b =
     \<lparr>base = b, readBuf = [], wrFrames = 0, wrCompressed = 0, wrOrigBytes = 0,
      wrStoredBytes = 0, rdFrames = 0, rdCompressed = 0, rdOrigBytes = 0, rdStoredBytes = 0,
      closeDone = False, closeErr = None, metaSide = [], metaService = [], metaPeer = [],
      metaProtocol = []\<rparr>"

definition SetInfo ::
  "'s ZstdDuplex \<Rightarrow> string \<Rightarrow> string \<Rightarrow> string \<Rightarrow> string \<Rightarrow> 's ZstdDuplex" where
  "SetInfo z side service peer protocol =
     (let z1 = (if side \<noteq> [] then z\<lparr>metaSide := side\<rparr> else z);
          z2 = (if service \<noteq> [] then z1\<lparr>metaService := service\<rparr> else z1);
          z3 = (if peer \<noteq> [] then z2\<lparr>metaPeer := peer\<rparr> else z2)
      in if protocol \<noteq> [] then z3\<lparr>metaProtocol := protocol\<rparr> else z3)"

text \<open>\<^verbatim>\<open>closeOnce.Do\<close>: only the first call closes the base stream; its error is kept.\<close>

definition zstd_Close ::
  "('s \<Rightarrow> error option \<times> 's) \<Rightarrow> 's ZstdDuplex \<Rightarrow> error option \<times> 's ZstdDuplex" where
  "zstd_Close close z =
     (if closeDone z then (closeErr z, z)
      else let (e, b) = close (base z)
           in (e, z\<lparr>closeDone := True, closeErr := e, base := b\<rparr>))"

text \<open>\<^verbatim>\<open>bytes.Buffer.Read\<close> on the read buffer: an empty buffer reports \<^verbatim>\<open>io.EOF\<close>.\<close>

definition readBuf_Read :: "'s ZstdDuplex \<Rightarrow> nat \<Rightarrow> (bytes \<times> error option) \<times> 's ZstdDuplex" where
  "readBuf_Read z n =
     (if readBuf z = [] then (([], if n = 0 then None else Some EOF), z)
      else ((take n (readBuf z), None), z\<lparr>readBuf := drop n (readBuf z)\<rparr>))"

definition zstd_Read :: "zstd_lib \<Rightarrow> 's reader \<Rightarrow> 's ZstdDuplex reader" where
  "zstd_Read L rd z n =
     (if readBuf z \<noteq> [] then Some (readBuf_Read z n)
      else do {
        r1 \<leftarrow> ReadFull rd (base z) 1;
        case r1 of ((flag, e1), b1) \<Rightarrow>
        (case e1 of Some e \<Rightarrow> Some (([], Some e), z\<lparr>base := b1\<rparr>) | None \<Rightarrow> do {
          r2 \<leftarrow> readUvarint rd b1;
          case r2 of (Inl e, b2) \<Rightarrow> Some (([], Some e), z\<lparr>base := b2\<rparr>)
          | (Inr storedLen, b2) \<Rightarrow>
            if storedLen > 2 ^ 30 then Some (([], Some ErrUnexpectedEOF), z\<lparr>base := b2\<rparr>)
            else do {
              r3 \<leftarrow> ReadFull rd b2 (unat storedLen);
              case r3 of ((payload, e3), b3) \<Rightarrow>
              (case e3 of Some e \<Rightarrow> Some (([], Some e), z\<lparr>base := b3\<rparr>) | None \<Rightarrow>
                (let compressed = (hd flag AND flagCompressed \<noteq> 0) in
                 case (if compressed then Decompress L payload else Inr payload) of
                   Inl e \<Rightarrow> Some (([], Some e), z\<lparr>base := b3\<rparr>)
                 | Inr out \<Rightarrow>
                     Some (readBuf_Read
                       (z\<lparr>base := b3, readBuf := out,
                          rdCompressed := rdCompressed z + (if compressed then 1 else 0),
                          rdFrames := rdFrames z + 1,
                          rdOrigBytes := rdOrigBytes z + of_nat (length out),
                          rdStoredBytes := rdStoredBytes z + storedLen\<rparr>) n)))
            }
        })
      })"

text \<open>
  The choice between the compressed and the plain form of a chunk. The comparison of the source
  is made on \<^verbatim>\<open>float64\<close> values with the factor 1.0, which is exact on lengths below \<open>2 ^ 53\<close>.
\<close>

definition frame_payload :: "zstd_params \<Rightarrow> zstd_lib \<Rightarrow> bytes \<Rightarrow> byte \<times> bytes" where
  "frame_payload P L chunk =
     (if int (length chunk) \<ge> zstdMinSizeB P \<and> length chunk < CompressBound L (length chunk)
      then (case CompressLevel L chunk (zstdLevel P) of
              Inl _ \<Rightarrow> (0, chunk)
            | Inr compBytes \<Rightarrow>
                (if length compBytes + (1 + uvarintLen (of_nat (length compBytes))) < length chunk
                 then (flagCompressed, compBytes) else (0, chunk)))
      else (0, chunk))"

text \<open>
  The write loop; \<open>p\<close> is the part \<^verbatim>\<open>p[off:]\<close>. With a chunk size that is not positive the loop of
  the source does not return.
\<close>

partial_function (option) zstd_Write_loop ::
  "zstd_params \<Rightarrow> zstd_lib \<Rightarrow> 's writer \<Rightarrow> 's ZstdDuplex \<Rightarrow> bytes \<Rightarrow> nat \<Rightarrow>
   ((nat \<times> error option) \<times> 's ZstdDuplex) option"
where
  "zstd_Write_loop P L wr z p writtenIn =
     (if p = [] then Some ((writtenIn, None), z)
      else
        let chunk = take (nat (zstdChunkSizeB P)) p;
            (flag, payload) = frame_payload P L chunk;
            z1 = (if flag = flagCompressed then z\<lparr>wrCompressed := wrCompressed z + 1\<rparr> else z)
        in do {
          r1 \<leftarrow> wr (base z1) [flag];
          case r1 of ((_, e1), b1) \<Rightarrow>
          (case e1 of Some e \<Rightarrow> Some ((writtenIn, Some e), z1\<lparr>base := b1\<rparr>) | None \<Rightarrow> do {
            r2 \<leftarrow> writeUvarint wr b1 (of_nat (length payload));
            case r2 of (e2, b2) \<Rightarrow>
            (case e2 of Some e \<Rightarrow> Some ((writtenIn, Some e), z1\<lparr>base := b2\<rparr>) | None \<Rightarrow> do {
              r3 \<leftarrow> wr b2 payload;
              case r3 of ((_, e3), b3) \<Rightarrow>
              (case e3 of Some e \<Rightarrow> Some ((writtenIn, Some e), z1\<lparr>base := b3\<rparr>) | None \<Rightarrow>
                zstd_Write_loop P L wr
                  (z1\<lparr>base := b3, wrFrames := wrFrames z1 + 1,
                      wrOrigBytes := wrOrigBytes z1 + of_nat (length chunk),
                      wrStoredBytes := wrStoredBytes z1 + of_nat (length payload)\<rparr>)
                  (drop (nat (zstdChunkSizeB P)) p) (writtenIn + length chunk))
            })
          })
        })"

definition zstd_Write :: "zstd_params \<Rightarrow> zstd_lib \<Rightarrow> 's writer \<Rightarrow> 's ZstdDuplex writer" where
  "zstd_Write P L wr z p = zstd_Write_loop P L wr z p 0"


section \<open>Varint lemmas\<close>

text \<open>The pure counterpart of \<open>ReadUvarint_loop\<close> on the pending bytes.\<close>

fun spec_uvarint :: "nat \<Rightarrow> uint64 \<Rightarrow> nat \<Rightarrow> bytes \<Rightarrow> error \<Rightarrow> error + (uint64 \<times> bytes)" where
  "spec_uvarint 0 x sh p e = Inl ErrVarintOverflow"
| "spec_uvarint (Suc k) x sh [] e = Inl (if k < 9 \<and> e = EOF then ErrUnexpectedEOF else e)"
| "spec_uvarint (Suc k) x sh (b # p) e =
     (if b < 0x80 then
        (if k = 0 \<and> b > 1 then Inl ErrVarintOverflow
         else Inr (x OR push_bit sh (ucast b), p))
      else spec_uvarint k (x OR push_bit sh (ucast (b AND 0x7f))) (sh + 7) p e)"

lemma spec_uvarint_rest:
  "spec_uvarint k x sh p e = Inr (v, rest) \<Longrightarrow> length rest < length p"
proof (induction k x sh p e rule: spec_uvarint.induct)
  case (3 k x sh b p e)
  then show ?case by (auto split: if_splits)
qed auto

lemma mask7_byte: "(0x7f :: byte) = mask 7"
  by (simp add: mask_eq_exp_minus_1)

lemma bit_0x80: "bit (0x80 :: 'a::len word) n \<longleftrightarrow> n = 7 \<and> 7 < LENGTH('a)"
  using bit_exp_iff [where 'a = "'a word", of 7 n] by auto

lemma byte_lt_128: "b < 0x80 \<longleftrightarrow> \<not> bit (b :: byte) 7"
proof -
  have "unat b < 256" using unsigned_less [of b] by simp
  moreover have "bit b 7 \<longleftrightarrow> odd (unat b div 2 ^ 7)"
    using bit_iff_odd [of "unat b" 7] by (simp add: bit_simps)
  moreover have "unat b < 128 \<or> unat b div 128 = 1" using \<open>unat b < 256\<close> by auto
  ultimately show ?thesis by (auto simp: word_less_nat_alt) 
qed

lemma uvarint_cont_byte:
  fixes v :: uint64
  shows "\<not> (ucast v OR 0x80 :: byte) < 0x80"
    and "(ucast v OR 0x80 :: byte) AND 0x7f = ucast v AND 0x7f"
proof -
  show "\<not> (ucast v OR 0x80 :: byte) < 0x80" by (simp add: byte_lt_128 bit_simps bit_0x80)
next
  show "(ucast v OR 0x80 :: byte) AND 0x7f = ucast v AND 0x7f"
    by (simp add: bit.conj_disj_distrib2)
qed

lemma uvarint_split:
  fixes v x :: uint64
  shows "(x OR push_bit sh (ucast (ucast v AND 0x7f :: byte))) OR push_bit (sh + 7) (drop_bit 7 v)
       = x OR push_bit sh v"
  unfolding mask7_byte
proof (rule bit_word_eqI)
  fix n
  show "bit ((x OR push_bit sh (ucast (ucast v AND mask 7 :: byte))) OR
      push_bit (sh + 7) (drop_bit 7 v)) n = bit (x OR push_bit sh v) n"
    by (cases "n < sh + 7") (auto simp: bit_simps)
qed

lemma ucast_small: 
  fixes v :: uint64
  assumes "\<not> v \<ge> 0x80"
  shows "(ucast (ucast v :: byte) :: uint64) = v" "(ucast v :: byte) < 0x80" "unat (ucast v :: byte) = unat v"
proof -
  have v: "unat v < 128" using assms by (simp add: word_le_nat_alt)
  then show u: "unat (ucast v :: byte) = unat v"
    by (simp add: unsigned_ucast_eq take_bit_nat_eq_self)
  show "(ucast v :: byte) < 0x80" using u v by (simp add: word_less_nat_alt)
  show "(ucast (ucast v :: byte) :: uint64) = v"
  proof (rule unsigned_word_eqI [where 'a = nat])
    show "unat (ucast (ucast v :: byte) :: uint64) = unat v"
      using v by (simp add: unsigned_ucast_eq unsigned_take_bit_eq take_bit_nat_eq_self)
  qed
qed

lemma spec_uvarint_Put:
  assumes "0 < k" and "k \<le> 10" and "sh = 7 * (10 - k)" and "unat v < 2 ^ (64 - sh)"
  shows "spec_uvarint k x sh (PutUvarint v @ rest) e = Inr (x OR push_bit sh v, rest)"
  using assms
proof (induction v arbitrary: k x sh rule: PutUvarint.induct)
  case (1 v)
  obtain k' where k: "k = Suc k'" using "1.prems"(1) by (cases k) auto
  show ?case
  proof (cases "v \<ge> 0x80")
    case True
    then have v: "128 \<le> unat v" by (simp add: word_le_nat_alt)
    have "k' \<noteq> 0"
    proof
      assume "k' = 0"
      then have "unat v < 2" using "1.prems" k by simp
      with v show False by simp
    qed
    moreover have "unat (drop_bit 7 v) < 2 ^ (64 - (sh + 7))"
    proof -
      have "64 - sh = (64 - (sh + 7)) + 7" using \<open>k' \<noteq> 0\<close> "1.prems" k by auto
      then have "(2 :: nat) ^ (64 - sh) = 2 ^ (64 - (sh + 7)) * 2 ^ 7" by (metis power_add)
      then have "unat v < 2 ^ (64 - (sh + 7)) * 128" using "1.prems"(4) by simp
      then show ?thesis by (simp add: unat_drop_bit_7 less_mult_imp_div_less)
    qed
    moreover have "sh + 7 = 7 * (10 - k')" and "k' \<le> 10" using "1.prems" k by auto
    ultimately have "spec_uvarint k' (x OR push_bit sh (ucast (ucast v AND 0x7f :: byte))) (sh + 7)
        (PutUvarint (drop_bit 7 v) @ rest) e = Inr (x OR push_bit sh v, rest)"
      using "1.IH" [OF True, of k' "sh + 7"] uvarint_split [of x sh v] by simp
    then show ?thesis
      using k True by (simp add: PutUvarint.simps [of v] uvarint_cont_byte)
  next
    case False
    have "k' = 0 \<Longrightarrow> \<not> (ucast v :: byte) > 1"
      using "1.prems" k ucast_small(3) [OF False] by (simp add: word_less_nat_alt)
    then show ?thesis using False k
      by (auto simp: PutUvarint.simps [of v] ucast_small)
  qed
qed

lemma spec_uvarint_PutUvarint [wire_simps]:
  "spec_uvarint 10 0 0 (PutUvarint v @ rest) e = Inr (v, rest)"
proof -
  have "unat v < 2 ^ (64 - 0)" using unsigned_less [of v] by simp
  then show ?thesis using spec_uvarint_Put [of 10 0 v 0 rest e] by simp
qed

lemma spec_uvarint_truncated:
  "j < length (PutUvarint v) \<Longrightarrow> \<exists>er. spec_uvarint k x sh (take j (PutUvarint v)) e = Inl er"
proof (induction v arbitrary: j k x sh rule: PutUvarint.induct)
  case (1 v)
  show ?case
  proof (cases "v \<ge> 0x80 \<and> k \<noteq> 0 \<and> j \<noteq> 0")
    case True
    then obtain k' j' where kj: "k = Suc k'" "j = Suc j'" by (metis not0_implies_Suc)
    then show ?thesis
      using True "1.IH" "1.prems" uvarint_cont_byte
      by (simp add: PutUvarint.simps [of v])
  next
    case False
    then show ?thesis using "1.prems"
      by (cases k; cases j) (auto simp: PutUvarint.simps [of v] split: if_splits)
  qed
qed

lemma length_PutUvarint_loop: "uvarintLen_loop v l = length (PutUvarint v) + l - 1"
proof (induction v l rule: uvarintLen_loop.induct)
  case (1 v l)
  have "0 < length (PutUvarint (drop_bit 7 v))" by (subst PutUvarint.simps) simp
  with 1 show ?case
    by (auto simp: uvarintLen_loop.simps [of v l] PutUvarint.simps [of v])
qed

lemma uvarintLen_eq: "uvarintLen v = length (PutUvarint v)"
  by (simp add: uvarintLen_def length_PutUvarint_loop)

lemma PutUvarint_length:
  "unat v < 2 ^ (7 * k) \<Longrightarrow> 0 < k \<Longrightarrow> length (PutUvarint v) \<le> k"
proof (induction v arbitrary: k rule: PutUvarint.induct)
  case (1 v)
  show ?case
  proof (cases "v \<ge> 0x80")
    case True
    then have v: "128 \<le> unat v" by (simp add: word_le_nat_alt)
    obtain k' where k: "k = Suc k'" using "1.prems"(2) by (cases k) auto
    have "0 < k'" using v "1.prems"(1) k by (cases k') auto
    moreover have "unat (drop_bit 7 v) < 2 ^ (7 * k')"
      using "1.prems"(1) k by (simp add: unat_drop_bit_7 power_add less_mult_imp_div_less)
    ultimately show ?thesis using "1.IH" [OF True] True k by (simp add: PutUvarint.simps [of v])
  next
    case False
    then show ?thesis using "1.prems" by (simp add: PutUvarint.simps [of v])
  qed
qed

section \<open>The reader\<close>

text \<open>
  The decoding of one frame and of all frames of a byte sequence that ends with a given error. A
  frame with an empty content ends the decoded stream with \<^verbatim>\<open>io.EOF\<close>, as the empty read buffer
  does.
\<close>

definition decode_frame :: "zstd_lib \<Rightarrow> bytes \<Rightarrow> error \<Rightarrow> error + (bytes \<times> bytes)" where
  "decode_frame L p e =
     (case p of [] \<Rightarrow> Inl e
      | flag # p1 \<Rightarrow>
          (case spec_uvarint 10 0 0 p1 e of Inl er \<Rightarrow> Inl er
           | Inr (n, p2) \<Rightarrow>
               if n > 2 ^ 30 then Inl ErrUnexpectedEOF
               else if length p2 < unat n then Inl (short_read_error p2 e)
               else (case (if flag AND flagCompressed \<noteq> 0 then Decompress L (take (unat n) p2)
                           else Inr (take (unat n) p2)) of
                       Inl er \<Rightarrow> Inl er
                     | Inr out \<Rightarrow> Inr (out, drop (unat n) p2))))"

lemma decode_frame_rest: "decode_frame L p e = Inr (out, rest) \<Longrightarrow> length rest < length p"
  by (auto simp: decode_frame_def split: list.splits sum.splits if_splits
      dest!: spec_uvarint_rest)

function decode :: "zstd_lib \<Rightarrow> bytes \<Rightarrow> error \<Rightarrow> stream_view" where
  "decode L p e =
     (case decode_frame L p e of
        Inl er \<Rightarrow> ([], er)
      | Inr (out, rest) \<Rightarrow>
          if out = [] then ([], EOF)
          else (case decode L rest e of (d, er) \<Rightarrow> (out @ d, er)))"
  by pat_completeness auto
termination
  by (relation "measure (\<lambda>(L, p, e). length p)") (auto dest: decode_frame_rest)

declare decode.simps [simp del]

definition zstd_view :: "zstd_lib \<Rightarrow> ('s \<Rightarrow> stream_view) \<Rightarrow> 's ZstdDuplex \<Rightarrow> stream_view" where
  "zstd_view L view z =
     (case view (base z) of (p, e) \<Rightarrow>
        (case decode L p e of (d, er) \<Rightarrow> (readBuf z @ d, er)))"

context byte_source
begin

lemma ReadUvarint_loop_spec:
  assumes "inv s" and "view s = (p, e)"
  shows "case spec_uvarint k x sh p e of
           Inl er \<Rightarrow> \<exists>s'. ReadUvarint_loop rd k x sh s = Some (Inl er, s')
         | Inr (v, rest) \<Rightarrow> \<exists>s'. ReadUvarint_loop rd k x sh s = Some (Inr v, s') \<and>
                                view s' = (rest, e) \<and> inv s'"
  using assms
proof (induction k x sh p e arbitrary: s rule: spec_uvarint.induct)
  case (2 k x sh e)
  then obtain s' where "ReadFull rd s 1 = Some (([], Some (short_read_error [] e)), s')"
    by (rule ReadFull_short [where n = 1]) auto
  then show ?case by (simp add: short_read_error_def)
next
  case (3 k x sh b p e)
  from 3(2,3) obtain s' where "ReadFull rd s 1 = Some ((take 1 (b # p), None), s')"
    and "view s' = (drop 1 (b # p), e)" and "inv s'" by (rule ReadFull_ok [where n = 1]) auto
  then show ?case using 3(1) [of s'] by (auto simp: Let_def split: sum.splits)
qed simp

lemma readUvarint_spec:
  assumes "inv s" and "view s = (p, e)"
  shows "case spec_uvarint 10 0 0 p e of
           Inl er \<Rightarrow> \<exists>s'. readUvarint rd s = Some (Inl er, s')
         | Inr (v, rest) \<Rightarrow> \<exists>s'. readUvarint rd s = Some (Inr v, s') \<and>
                                view s' = (rest, e) \<and> inv s'"
  unfolding readUvarint_def by (rule ReadUvarint_loop_spec [OF assms])

text \<open>One call of \<open>zstd_Read\<close> on an empty buffer fetches and decodes exactly one frame.\<close>

lemma zstd_Read_frame:
  assumes i: "inv (base z)" and v: "view (base z) = (p, e)" and buf: "readBuf z = []"
  shows "case decode_frame L p e of
           Inl er \<Rightarrow> \<exists>z'. zstd_Read L rd z n = Some (([], Some er), z')
         | Inr (out, rest) \<Rightarrow>
             \<exists>z'. zstd_Read L rd z n = Some (readBuf_Read z' n) \<and> readBuf z' = out \<and>
                  view (base z') = (rest, e) \<and> inv (base z') \<and>
                  rdFrames z' = rdFrames z + 1 \<and>
                  rdOrigBytes z' = rdOrigBytes z + of_nat (length out)"
proof (cases p)
  case Nil
  obtain b1 where "ReadFull rd (base z) 1 = Some (([], Some (short_read_error [] e)), b1)"
    using ReadFull_short [OF i, of "[]" e 1] v Nil by auto
  then show ?thesis using Nil buf
    by (simp add: zstd_Read_def decode_frame_def short_read_error_def)
next
  case (Cons flag p1)
  obtain b1 where r1: "ReadFull rd (base z) 1 = Some ((take 1 p, None), b1)"
    and v1: "view b1 = (p1, e)" and i1: "inv b1"
    using ReadFull_ok [OF i v, of 1] Cons by auto
  note uv = readUvarint_spec [OF i1 v1]
  show ?thesis
  proof (cases "spec_uvarint 10 0 0 p1 e")
    case (Inl er)
    with uv r1 Cons buf show ?thesis by (auto simp: zstd_Read_def decode_frame_def)
  next
    case (Inr vr)
    obtain k p2 where vr: "vr = (k, p2)" by force
    with uv Inr obtain b2 where r2: "readUvarint rd b1 = Some (Inr k, b2)"
      and v2: "view b2 = (p2, e)" and i2: "inv b2" by auto
    consider "k > 2 ^ 30" | "\<not> k > 2 ^ 30" "length p2 < unat k"
      | "\<not> k > 2 ^ 30" "unat k \<le> length p2" by fastforce
    then show ?thesis
    proof cases
      case 1
      then show ?thesis using r1 r2 Cons Inr vr buf
        by (simp add: zstd_Read_def decode_frame_def)
    next
      case 2
      obtain b3 where "ReadFull rd b2 (unat k) = Some ((p2, Some (short_read_error p2 e)), b3)"
        using ReadFull_short [OF i2 v2 2(2)] by auto
      then show ?thesis using 2 r1 r2 Cons Inr vr buf
        by (simp add: zstd_Read_def decode_frame_def)
    next
      case 3
      obtain b3 where "ReadFull rd b2 (unat k) = Some ((take (unat k) p2, None), b3)"
        and "view b3 = (drop (unat k) p2, e)" and "inv b3"
        using ReadFull_ok [OF i2 v2 3(2)] by auto
      then show ?thesis using 3 r1 r2 Cons Inr vr buf
        by (auto simp: zstd_Read_def decode_frame_def Let_def split: sum.split)
    qed
  qed
qed

lemma zstd_source: "byte_source (zstd_Read L rd) (zstd_view L view) (\<lambda>z. inv (base z))"
proof
  fix z :: "'s ZstdDuplex" and d er and n :: nat
  assume i: "inv (base z)" and zv: "zstd_view L view z = (d, er)" and d: "d \<noteq> []" and n: "0 < n"
  obtain p e where v: "view (base z) = (p, e)" by force
  show "\<exists>k z'. zstd_Read L rd z n = Some ((take k d, None), z') \<and> 0 < k \<and> k \<le> n \<and>
      k \<le> length d \<and> zstd_view L view z' = (drop k d, er) \<and> inv (base z')"
  proof (cases "readBuf z = []")
    case False
    then show ?thesis using i zv v n
      by (intro exI [of _ "min n (length (readBuf z))"] exI [of _ "z\<lparr>readBuf := drop n (readBuf z)\<rparr>"])
        (auto simp: zstd_Read_def readBuf_Read_def zstd_view_def min_def split: prod.splits)
  next
    case True
    then obtain out rest where df: "decode_frame L p e = Inr (out, rest)" and out: "out \<noteq> []"
      and dd: "d = out @ fst (decode L rest e)" "er = snd (decode L rest e)"
      using zv v d by (auto simp: zstd_view_def decode.simps [of L p e]
          split: sum.splits if_splits prod.splits)
    obtain z' where r: "zstd_Read L rd z n = Some (readBuf_Read z' n)" "readBuf z' = out"
      and v': "view (base z') = (rest, e)" and i': "inv (base z')"
      using zstd_Read_frame [OF i v True, of L n] df by auto
    then show ?thesis using n out dd
      by (intro exI [of _ "min n (length out)"] exI [of _ "z'\<lparr>readBuf := drop n out\<rparr>"])
        (auto simp: readBuf_Read_def zstd_view_def min_def split: prod.splits)
  qed
next
  fix z :: "'s ZstdDuplex" and er and n :: nat
  assume i: "inv (base z)" and zv: "zstd_view L view z = ([], er)" and n: "0 < n"
  obtain p e where v: "view (base z) = (p, e)" by force
  have buf: "readBuf z = []" using zv v by (auto simp: zstd_view_def split: prod.splits)
  show "\<exists>z'. zstd_Read L rd z n = Some (([], Some er), z')"
    using zstd_Read_frame [OF i v buf, of L n] zv v buf n
    by (auto simp: zstd_view_def decode.simps [of L p e] readBuf_Read_def
        split: sum.splits if_splits prod.splits)
qed

end

text \<open>The duplex on a transport stream.\<close>

interpretation zs: byte_source "zstd_Read L conn_read" "zstd_view L conn_view" "\<lambda>z. True"
  for L :: zstd_lib
  by (rule cs.zstd_source)

section \<open>The writer\<close>

definition encode_frame :: "zstd_params \<Rightarrow> zstd_lib \<Rightarrow> bytes \<Rightarrow> bytes" where
  "encode_frame P L chunk =
     (case frame_payload P L chunk of (flag, payload) \<Rightarrow>
        flag # PutUvarint (of_nat (length payload)) @ payload)"

lemma frame_payload_cases:
  obtains (plain) "frame_payload P L chunk = (0, chunk)"
  | (compressed) c where "frame_payload P L chunk = (flagCompressed, c)"
      and "CompressLevel L chunk (zstdLevel P) = Inr c"
      and "length c + (1 + uvarintLen (of_nat (length c))) < length chunk"
proof -
  have "frame_payload P L chunk = (0, chunk) \<or>
      (\<exists>c. frame_payload P L chunk = (flagCompressed, c) \<and>
           CompressLevel L chunk (zstdLevel P) = Inr c \<and>
           length c + (1 + uvarintLen (of_nat (length c))) < length chunk)"
    by (auto simp: frame_payload_def split: sum.split)
  then show ?thesis using that by blast
qed

lemma frame_payload_length: "length (snd (frame_payload P L chunk)) \<le> length chunk"
  by (cases rule: frame_payload_cases [of P L chunk]) auto

lemma unat_of_nat_len: "n \<le> 2 ^ 30 \<Longrightarrow> unat (of_nat n :: uint64) = n"
  by (simp add: unsigned_of_nat take_bit_nat_eq_self)

lemma decode_frame_encode [wire_simps]:
  assumes "zstd_lossless L" and "length chunk \<le> 2 ^ 30"
  shows "decode_frame L (encode_frame P L chunk @ rest) e = Inr (chunk, rest)"
proof -
  obtain flag payload where fp: "frame_payload P L chunk = (flag, payload)" by force
  then have len: "length payload \<le> 2 ^ 30"
    using frame_payload_length [of P L chunk] assms(2) by simp
  then have small: "\<not> (of_nat (length payload) :: uint64) > 2 ^ 30"
    by (simp add: word_less_nat_alt unat_of_nat_len)
  have "(if flag AND flagCompressed \<noteq> 0 then Decompress L payload else Inr payload) = Inr chunk"
    using assms(1) fp
    by (cases rule: frame_payload_cases [of P L chunk])
      (auto simp: flagCompressed_def zstd_lossless_def)
  then show ?thesis
    using fp small len
    by (cases "flag AND flagCompressed = 0")
      (simp_all add: encode_frame_def decode_frame_def wire_simps unat_of_nat_len)
qed

lemma decode_frame_truncated:
  assumes "length chunk \<le> 2 ^ 30" and "j < length (encode_frame P L chunk)"
  shows "\<exists>er. decode_frame L (take j (encode_frame P L chunk)) e = Inl er"
proof (cases j)
  case 0
  then show ?thesis by (simp add: decode_frame_def)
next
  case (Suc i)
  obtain flag payload where fp: "frame_payload P L chunk = (flag, payload)" by force
  define uv where "uv = PutUvarint (of_nat (length payload) :: uint64)"
  have enc: "encode_frame P L chunk = flag # uv @ payload"
    using fp by (simp add: encode_frame_def uv_def)
  have len: "length payload \<le> 2 ^ 30"
    using frame_payload_length [of P L chunk] fp assms(1) by simp
  show ?thesis
  proof (cases "i < length uv")
    case True
    then show ?thesis
      using spec_uvarint_truncated [of i "of_nat (length payload)" 10 0 0 e] Suc enc
      by (auto simp: decode_frame_def uv_def)
  next
    case False
    then have "take j (encode_frame P L chunk) = flag # uv @ take (i - length uv) payload"
      using Suc enc by simp
    moreover have "i - length uv < length payload" using assms(2) enc Suc False by simp
    ultimately show ?thesis
      using len by (simp add: decode_frame_def uv_def wire_simps unat_of_nat_len)
  qed
qed

text \<open>
  \<open>aligned L bs d\<close>: the bytes \<open>bs\<close> are whole frames with the content \<open>d\<close>, whatever follows.
\<close>

definition aligned :: "zstd_lib \<Rightarrow> bytes \<Rightarrow> bytes \<Rightarrow> bool" where
  "aligned L bs d \<longleftrightarrow>
     (\<forall>rest e. decode L (bs @ rest) e = (d @ fst (decode L rest e), snd (decode L rest e)))"

lemma decode_Nil [simp]: "decode L [] e = ([], e)"
  by (subst decode.simps) (simp add: decode_frame_def)

lemma aligned_Nil: "aligned L [] []"
  by (simp add: aligned_def)

lemma aligned_append: "aligned L bs d \<Longrightarrow> aligned L bs' d' \<Longrightarrow> aligned L (bs @ bs') (d @ d')"
  by (simp add: aligned_def)

lemma aligned_encode_frame:
  assumes "zstd_lossless L" and "length chunk \<le> 2 ^ 30" and "chunk \<noteq> []"
  shows "aligned L (encode_frame P L chunk) chunk"
  unfolding aligned_def
proof (intro allI)
  fix rest e
  show "decode L (encode_frame P L chunk @ rest) e =
      (chunk @ fst (decode L rest e), snd (decode L rest e))"
    using assms by (subst decode.simps) (simp add: wire_simps split: prod.split)
qed

lemma decode_aligned_truncated:
  assumes "zstd_lossless L" and "length chunk \<le> 2 ^ 30" and "chunk \<noteq> []"
    and "j \<le> length (encode_frame P L chunk)"
  shows "fst (decode L (take j (encode_frame P L chunk)) EOF) =
         (if j = length (encode_frame P L chunk) then chunk else [])"
proof (cases "j = length (encode_frame P L chunk)")
  case True
  then show ?thesis
    using aligned_encode_frame [OF assms(1-3), of P] True
    by (auto simp: aligned_def dest: spec [of _ "[]"])
next
  case False
  with assms(4) obtain er where "decode_frame L (take j (encode_frame P L chunk)) EOF = Inl er"
    using decode_frame_truncated [OF assms(2)] by (metis le_neq_implies_less)
  with False show ?thesis by (subst decode.simps) simp
qed

definition zstd_sent :: "zstd_lib \<Rightarrow> nat \<Rightarrow> ('s \<Rightarrow> bytes) \<Rightarrow> 's ZstdDuplex \<Rightarrow> bytes" where
  "zstd_sent L start sent z = fst (decode L (drop start (sent (base z))) EOF)"

definition zstd_ready ::
  "zstd_lib \<Rightarrow> nat \<Rightarrow> ('s \<Rightarrow> bytes) \<Rightarrow> ('s \<Rightarrow> bool) \<Rightarrow> 's ZstdDuplex \<Rightarrow> bool" where
  "zstd_ready L start sent ready z \<longleftrightarrow> ready (base z) \<and> start \<le> length (sent (base z)) \<and>
     aligned L (drop start (sent (base z))) (zstd_sent L start sent z)"

text \<open>The chunk sizes for which the reader accepts every frame of the writer.\<close>

definition chunk_ok :: "zstd_params \<Rightarrow> bool" where
  "chunk_ok P \<longleftrightarrow> 0 < zstdChunkSizeB P \<and> zstdChunkSizeB P \<le> 2 ^ 30"

text \<open>
  The outcome of a write of \<open>p\<close> that reported \<open>n\<close> bytes: whole frames \<open>fr\<close> with the content
  \<open>take n p\<close> went out, then, only when there was an error, a part \<open>tail\<close> of one more frame.
\<close>

definition write_outcome ::
  "zstd_lib \<Rightarrow> ('s \<Rightarrow> bytes) \<Rightarrow> ('s \<Rightarrow> bool) \<Rightarrow> 's ZstdDuplex \<Rightarrow> bytes \<Rightarrow> nat \<Rightarrow> error option \<Rightarrow>
   's ZstdDuplex \<Rightarrow> bytes \<Rightarrow> bytes \<Rightarrow> bool"
where
  "write_outcome L sent ready z p n eo z' fr tail \<longleftrightarrow>
     sent (base z') = sent (base z) @ fr @ tail \<and> n \<le> length p \<and> aligned L fr (take n p) \<and>
     (\<exists>j \<le> length p - n. fst (decode L tail EOF) = take j (drop n p)) \<and>
     (eo = None \<longrightarrow> n = length p \<and> tail = [] \<and> ready (base z') \<and>
        wrOrigBytes z' = wrOrigBytes z + of_nat (length p))"

lemma write_outcome_fail:
  assumes "zstd_lossless L" and "length (take C p) \<le> 2 ^ 30" and "take C p \<noteq> []"
    and "j \<le> length (encode_frame P L (take C p))"
    and "sent (base z') = sent (base z) @ take j (encode_frame P L (take C p))"
  shows "write_outcome L sent ready z p 0 (Some e) z' [] (take j (encode_frame P L (take C p)))"
proof -
  have "\<exists>i \<le> length p. take C p = take i p"
    by (rule exI [of _ "min C (length p)"]) (simp add: min_def)
  then have "\<exists>i \<le> length p. fst (decode L (take j (encode_frame P L (take C p))) EOF) = take i p"
    using decode_aligned_truncated [OF assms(1-4)]
    by (cases "j = length (encode_frame P L (take C p))") (auto intro: exI [of _ 0])
  then show ?thesis using assms(5) by (simp add: write_outcome_def aligned_Nil)
qed

lemma write_outcome_step:
  assumes "sent (base z1) = sent (base z) @ enc" and "aligned L enc (take C p)"
    and cnt: "wrOrigBytes z1 = wrOrigBytes z + of_nat (length (take C p))"
    and o: "write_outcome L sent ready z1 (drop C p) n eo z' fr tail"
  shows "write_outcome L sent ready z p (length (take C p) + n) eo z' (enc @ fr) tail"
proof -
  define c where "c = take C p"
  have n: "n \<le> length (drop C p)" using o by (simp add: write_outcome_def)
  have split: "take (length c + n) p = c @ take n (drop C p)"
    using n by (cases "C \<le> length p") (auto simp: c_def take_add)
  have dsplit: "drop (length c + n) p = drop n (drop C p)"
    using n by (cases "C \<le> length p") (auto simp: c_def add.commute)
  have len: "length p = length c + length (drop C p)" by (simp add: c_def)
  have "aligned L (enc @ fr) (take (length c + n) p)"
    unfolding split using assms(2) o by (auto simp: c_def write_outcome_def intro: aligned_append)
  moreover have "wrOrigBytes z' = wrOrigBytes z + of_nat (length p)" if "eo = None"
  proof -
    have "of_nat (length p) = of_nat (length c) + (of_nat (length (drop C p)) :: uint64)"
      by (metis len of_nat_add)
    then show ?thesis
      using that o cnt by (simp add: write_outcome_def c_def [symmetric] add.assoc)
  qed
  moreover have "length p - (length c + n) = length (drop C p) - n" using len by linarith
  moreover have "length c + n \<le> length p" and "n = length (drop C p) \<Longrightarrow> length c + n = length p"
    using len n by linarith+
  ultimately show ?thesis
    using assms(1) o unfolding write_outcome_def c_def [symmetric] dsplit by simp
qed

context byte_sink
begin

lemma zstd_Write_step:
  assumes "ready (base z)" and "p \<noteq> []" and "C = nat (zstdChunkSizeB P)"
  shows "(\<exists>e z' j. zstd_Write_loop P L wr z p w = Some ((w, Some e), z') \<and>
                   (\<exists>b q n b'. ready b \<and> wr b q = Some ((n, Some e), b')) \<and>
                   j \<le> length (encode_frame P L (take C p)) \<and>
                   sent (base z') = sent (base z) @ take j (encode_frame P L (take C p))) \<or>
         (\<exists>z'. zstd_Write_loop P L wr z p w =
                 zstd_Write_loop P L wr z' (drop C p) (w + length (take C p)) \<and>
               sent (base z') = sent (base z) @ encode_frame P L (take C p) \<and> ready (base z') \<and>
               wrFrames z' = wrFrames z + 1 \<and>
               wrOrigBytes z' = wrOrigBytes z + of_nat (length (take C p)))"
    (is "?fail \<or> ?step")
proof -
  obtain flag payload where fp: "frame_payload P L (take C p) = (flag, payload)" by force
  define uv where "uv = PutUvarint (of_nat (length payload) :: uint64)"
  have enc: "encode_frame P L (take C p) = [flag] @ uv @ payload"
    using fp by (simp add: encode_frame_def uv_def)
  define z1 where "z1 = (if flag = flagCompressed then z\<lparr>wrCompressed := wrCompressed z + 1\<rparr> else z)"
  have z1: "base z1 = base z" "wrFrames z1 = wrFrames z" "wrOrigBytes z1 = wrOrigBytes z"
    by (simp_all add: z1_def)
  note unf = zstd_Write_loop.simps [of P L wr z p w] assms(2) assms(3)[symmetric] fp
    z1_def [symmetric] z1 writeUvarint_def uv_def [symmetric] Let_def
  show ?thesis
  proof (cases rule: wr_cases [OF assms(1), of "[flag]", case_names ok1 failed1])
    case (failed1 n e b k)
    then have ?fail using assms(1)
      by (intro exI [of _ e] exI [of _ "z1\<lparr>base := b\<rparr>"] exI [of _ k]) (auto simp: unf enc take_Cons')
    then show ?thesis ..
  next
    case (ok1 b1)
    show ?thesis
    proof (cases rule: wr_cases [OF ok1(3), of uv, case_names ok2 failed2])
      case (failed2 n e b k)
      with ok1 have ?fail
        by (intro exI [of _ e] exI [of _ "z1\<lparr>base := b\<rparr>"] exI [of _ "1 + k"]) (auto simp: unf enc)
      then show ?thesis ..
    next
      case (ok2 b2)
      show ?thesis
      proof (cases rule: wr_cases [OF ok2(3), of payload, case_names ok3 failed3])
        case (failed3 n e b k)
        with ok1 ok2 have ?fail
          by (intro exI [of _ e] exI [of _ "z1\<lparr>base := b\<rparr>"] exI [of _ "1 + length uv + k"])
            (auto simp: unf enc)
        then show ?thesis ..
      next
        case (ok3 b3)
        with ok1 ok2 have ?step
          by (intro exI [of _ "z1\<lparr>base := b3, wrFrames := wrFrames z1 + 1,
              wrOrigBytes := wrOrigBytes z1 + of_nat (length (take C p)),
              wrStoredBytes := wrStoredBytes z1 + of_nat (length payload)\<rparr>"])
            (simp add: unf enc)
        then show ?thesis ..
      qed
    qed
  qed
qed

lemma zstd_Write_loop_spec:
  assumes "zstd_lossless L" and "chunk_ok P" and "ready (base z)"
  shows "\<exists>n eo z' fr tail. zstd_Write_loop P L wr z p w = Some ((w + n, eo), z') \<and>
           write_outcome L sent ready z p n eo z' fr tail \<and>
           (\<forall>e. eo = Some e \<longrightarrow> (\<exists>b q m b'. ready b \<and> wr b q = Some ((m, Some e), b')))"
  using assms(3)
proof (induction "length p" arbitrary: z p w rule: less_induct)
  case less
  define C where "C = nat (zstdChunkSizeB P)"
  have C: "0 < C" "C \<le> 2 ^ 30" using assms(2) by (auto simp: C_def chunk_ok_def nat_le_iff)
  show ?case
  proof (cases "p = []")
    case True
    then show ?thesis using less.prems
      by (simp add: zstd_Write_loop.simps [of P L wr z "[]" w] write_outcome_def aligned_Nil
          exI [of _ "[]"])
  next
    case False
    have c: "take C p \<noteq> []" "length (take C p) \<le> 2 ^ 30" using C False by auto
    from zstd_Write_step [OF less.prems False C_def, of L w] show ?thesis
    proof (elim disjE exE conjE)
      fix e z' j b q n b'
      assume "zstd_Write_loop P L wr z p w = Some ((w, Some e), z')"
        and "ready b" and "wr b q = Some ((n, Some e), b')"
        and "j \<le> length (encode_frame P L (take C p))"
        and "sent (base z') = sent (base z) @ take j (encode_frame P L (take C p))"
      then show ?thesis
        using write_outcome_fail [OF assms(1) c(2,1)] by (metis add_0_right option.inject)
    next
      fix z1
      assume r: "zstd_Write_loop P L wr z p w =
          zstd_Write_loop P L wr z1 (drop C p) (w + length (take C p))"
        and s: "sent (base z1) = sent (base z) @ encode_frame P L (take C p)"
        and rdy: "ready (base z1)"
        and cnt: "wrOrigBytes z1 = wrOrigBytes z + of_nat (length (take C p))"
      have "length (drop C p) < length p" using C False by simp
      from less.hyps [OF this rdy, of "w + length (take C p)"] obtain n eo z' fr tail where
        r': "zstd_Write_loop P L wr z1 (drop C p) (w + length (take C p)) =
            Some ((w + length (take C p) + n, eo), z')"
        and o: "write_outcome L sent ready z1 (drop C p) n eo z' fr tail"
        and err: "\<forall>e. eo = Some e \<longrightarrow> (\<exists>b q m b'. ready b \<and> wr b q = Some ((m, Some e), b'))"
        by blast
      have "zstd_Write_loop P L wr z p w = Some ((w + (length (take C p) + n), eo), z')"
        unfolding r r' by (simp only: add.assoc)
      moreover have "write_outcome L sent ready z p (length (take C p) + n) eo z'
          (encode_frame P L (take C p) @ fr) tail"
        by (rule write_outcome_step [OF s aligned_encode_frame [OF assms(1) c(2,1)] cnt o])
      ultimately show ?thesis using err by blast
    qed
  qed
qed

lemma zstd_sink:
  assumes "zstd_lossless L" and "chunk_ok P"
  shows "byte_sink (zstd_Write P L wr) (zstd_sent L start sent) (zstd_ready L start sent ready)"
proof
  fix z :: "'s ZstdDuplex" and p
  assume z: "zstd_ready L start sent ready z"
  define d where "d = zstd_sent L start sent z"
  from z have rdy: "ready (base z)" and st: "start \<le> length (sent (base z))"
    and al: "aligned L (drop start (sent (base z))) d" by (simp_all add: zstd_ready_def d_def)
  obtain n eo z' fr tail j where
    w: "zstd_Write P L wr z p = Some ((n, eo), z')" "sent (base z') = sent (base z) @ fr @ tail"
    and n: "n \<le> length p" and fr: "aligned L fr (take n p)"
    and j: "j \<le> length p - n" "fst (decode L tail EOF) = take j (drop n p)"
    and ok: "eo = None \<longrightarrow> n = length p \<and> tail = [] \<and> ready (base z')"
    unfolding zstd_Write_def
    using zstd_Write_loop_spec [OF assms rdy, of p 0]
    by (simp only: add_0 write_outcome_def) blast
  have dr: "drop start (sent (base z')) = (drop start (sent (base z)) @ fr) @ tail"
    using w(2) st by simp
  have al': "aligned L (drop start (sent (base z)) @ fr) (d @ take n p)"
    by (rule aligned_append [OF al fr])
  then have s': "zstd_sent L start sent z' = d @ take (n + j) p"
    using j by (simp add: zstd_sent_def dr aligned_def take_add)
  have "zstd_ready L start sent ready z'" if "eo = None"
    using that ok w(2) st al' s' dr by (simp add: zstd_ready_def)
  then show "\<exists>n eo z' k. zstd_Write P L wr z p = Some ((n, eo), z') \<and> n \<le> k \<and> k \<le> length p \<and>
      zstd_sent L start sent z' = zstd_sent L start sent z @ take k p \<and>
      (eo = None \<longrightarrow> n = length p \<and> zstd_ready L start sent ready z')"
    using w n j ok s'
    by (intro exI [of _ n] exI [of _ eo] exI [of _ z'] exI [of _ "n + j"]) (auto simp: d_def)
qed

end

context reliable_sink
begin

lemma zstd_reliable:
  assumes "zstd_lossless L" and "chunk_ok P"
  shows "reliable_sink (zstd_Write P L wr) (zstd_sent L start sent) (zstd_ready L start sent ready)"
proof (intro reliable_sink.intro reliable_sink_axioms.intro)
  show "byte_sink (zstd_Write P L wr) (zstd_sent L start sent) (zstd_ready L start sent ready)"
    by (rule zstd_sink [OF assms])
next
  fix z p
  assume "zstd_ready L start sent ready z"
  then have "ready (base z)" by (simp add: zstd_ready_def)
  from zstd_Write_loop_spec [OF assms this, of p 0] obtain n eo z' fr tail where
    w: "zstd_Write P L wr z p = Some ((n, eo), z')"
    and o: "write_outcome L sent ready z p n eo z' fr tail"
    and err: "\<forall>e. eo = Some e \<longrightarrow> (\<exists>b q m b'. ready b \<and> wr b q = Some ((m, Some e), b'))"
    by (auto simp: zstd_Write_def)
  have "eo = None"
  proof (rule ccontr)
    assume "eo \<noteq> None"
    then obtain e where "eo = Some e" by blast
    with err obtain b q m b' where "ready b" "wr b q = Some ((m, Some e), b')" by blast
    with wr_succeeds [of b q] show False by auto
  qed
  with w o show "\<exists>z'. zstd_Write P L wr z p = Some ((length p, None), z')"
    by (auto simp: write_outcome_def)
qed

end

section \<open>Invariants of the stream below\<close>

text \<open>Reading and writing through the duplex keeps what single reads and writes keep of the stream
  below; a write does not touch the read buffer.\<close>

lemma ReadUvarint_loop_keeps:
  assumes "\<And>s n. I s \<Longrightarrow> keeps I (rd s n)" and "I s"
  shows "keeps I (ReadUvarint_loop rd k x sh s)"
  using assms(2)
proof (induction k arbitrary: x sh s)
  case (Suc k)
  show ?case unfolding ReadUvarint_loop.simps
    by (rule keeps_bind [OF ReadFull_keeps [of I rd, OF assms(1) Suc.prems]])
      (auto simp: Let_def Suc.IH split: option.splits)
qed simp

lemma zstd_Read_keeps:
  assumes rd: "\<And>s n. I s \<Longrightarrow> keeps I (rd s n)" and "I (base z)"
  shows "keeps (\<lambda>z. I (base z)) (zstd_Read L rd z n)"
proof (cases "readBuf z = []")
  case True
  have fin: "keeps (\<lambda>z. I (base z)) (Some (readBuf_Read z' n))" if "I (base z')" for z'
    using that by (simp add: readBuf_Read_def)
  show ?thesis unfolding zstd_Read_def readUvarint_def
    apply (simp only: True not_True_eq_False simp_thms if_False)
    apply (rule keeps_bind [OF ReadFull_keeps [of I rd, OF rd assms(2)]])
    apply (auto simp: split: option.splits)
    apply (rule keeps_bind [OF ReadUvarint_loop_keeps [of I rd, OF rd]], simp, simp)
    apply (auto simp: split: sum.splits)
    apply (rule keeps_bind [OF ReadFull_keeps [of I rd, OF rd]], simp, simp)
    apply (auto simp: Let_def fin split: option.splits sum.splits)
    done
next
  case False
  then show ?thesis using assms(2) by (simp add: zstd_Read_def readBuf_Read_def)
qed

lemma zstd_Write_loop_keeps:
  assumes wr: "\<And>s p. I s \<Longrightarrow> keeps I (wr s p)" and "0 < zstdChunkSizeB P" and "I (base z)"
  shows "keeps (\<lambda>z'. I (base z') \<and> readBuf z' = readBuf z) (zstd_Write_loop P L wr z p w)"
  using assms(3)
proof (induction p arbitrary: z w rule: length_induct)
  case (1 p)
  show ?case
  proof (cases "p = []")
    case False
    obtain flag payload where fp: "frame_payload P L (take (nat (zstdChunkSizeB P)) p) = (flag, payload)" by fastforce
    define z1 where "z1 = (if flag = flagCompressed then z\<lparr>wrCompressed := wrCompressed z + 1\<rparr> else z)"
    have z1: "base z1 = base z" "readBuf z1 = readBuf z" by (simp_all add: z1_def)
    have shorter: "length (drop (nat (zstdChunkSizeB P)) p) < length p" using False assms(2) by (cases p) simp_all
    have rec: "keeps (\<lambda>z'. I (base z') \<and> readBuf z' = readBuf z) (zstd_Write_loop P L wr z2 (drop (nat (zstdChunkSizeB P)) p) v)"
      if "I (base z2)" "readBuf z2 = readBuf z" for z2 v
      using "1.IH" [rule_format, OF shorter that(1)] that(2) by simp
    show ?thesis
      apply (subst zstd_Write_loop.simps)
      apply (simp only: False fp Let_def prod.case if_False z1_def [symmetric])
      apply (rule keeps_bind [OF wr])
       apply (simp add: z1 "1.prems")
      apply (auto simp: z1 split: option.splits)
      apply (rule keeps_bind [where I = I])
       apply (simp add: writeUvarint_def)
       apply (rule keeps_bind [OF wr], assumption, auto)
      apply (auto simp: z1 split: option.splits)
      apply (rule keeps_bind [OF wr], assumption)
      apply (auto simp: z1 split: option.splits)
      apply (rule rec; simp add: z1)
      done
  qed (subst zstd_Write_loop.simps, simp add: 1)
qed

lemma zstd_Write_keeps:
  assumes "\<And>s p. I s \<Longrightarrow> keeps I (wr s p)" and "chunk_ok P" and "I (base z)"
  shows "keeps (\<lambda>z'. I (base z') \<and> readBuf z' = readBuf z) (zstd_Write P L wr z p)"
  unfolding zstd_Write_def using assms(2)
  by (intro zstd_Write_loop_keeps [of I wr, OF assms(1) _ assms(3)]) (simp_all add: chunk_ok_def)

section \<open>Properties\<close>

text \<open>
  C12: what the zstd duplex writes is what it reads. If a write of \<open>p\<close> on a fresh duplex over a
  transport stream succeeds, then it reports \<open>length p\<close>, and a fresh duplex over any stream that
  delivers the bytes written, in whatever fragments and with whatever error after them, gives
  back exactly \<open>p\<close> to \<^verbatim>\<open>io.ReadFull\<close>.
\<close>

theorem zstd_roundtrip:
  assumes "zstd_lossless L" and "chunk_ok P" and "out_bytes c = []"
    and w: "zstd_Write P L conn_write (NewZstdDuplex c) p = Some ((n, None), z')"
    and r: "concat (in_segs r) = out_bytes (base z')"
  shows "n = length p \<and>
         (\<exists>z''. ReadFull (zstd_Read L conn_read) (NewZstdDuplex r) (length p) = Some ((p, None), z''))"
proof -
  obtain eo' m z1 fr tail where "zstd_Write P L conn_write (NewZstdDuplex c) p = Some ((m, eo'), z1)"
    and "write_outcome L out_bytes (\<lambda>_. True) (NewZstdDuplex c) p m eo' z1 fr tail"
    using ck.zstd_Write_loop_spec [OF assms(1,2), of "NewZstdDuplex c" p 0]
    by (auto simp: zstd_Write_def)
  with w assms(3) have "n = length p" and al: "aligned L (out_bytes (base z')) p"
    by (auto simp: write_outcome_def NewZstdDuplex_def)
  have "zstd_view L conn_view (NewZstdDuplex r) = (p, in_err r)"
    using al [unfolded aligned_def, THEN spec, THEN spec, of "[]" "in_err r"] r
    by (simp add: zstd_view_def conn_view_def NewZstdDuplex_def)
  then obtain z'' where
    "ReadFull (zstd_Read L conn_read) (NewZstdDuplex r) (length p) = Some ((p, None), z'')"
    using zs.ReadFull_ok [of L "NewZstdDuplex r" p "in_err r" "length p"] by auto
  with \<open>n = length p\<close> show ?thesis by blast
qed

text \<open>
  A small instance of the library parameter: one run of bytes compresses, everything else is
  stored behind a marker byte.
\<close>

definition example_zstd :: zstd_lib where
  "example_zstd =
     \<lparr>CompressLevel = (\<lambda>c l. Inr (if c = replicate 16 7 then [1] else 0 # c)),
      Decompress = (\<lambda>d. Inr (if d = [1] then replicate 16 7 else tl d)),
      CompressBound = (\<lambda>n. n + 64)\<rparr>"

lemma example_zstd_lossless: "zstd_lossless example_zstd"
  by (auto simp: zstd_lossless_def example_zstd_def)

theorem zstd_roundtrip_witness:
  "\<exists>z' z''. zstd_Write \<lparr>zstdLevel = 20, zstdMinSizeB = 4, zstdChunkSizeB = 16\<rparr> example_zstd
      conn_write (NewZstdDuplex fresh_conn) (replicate 20 7) = Some ((20, None), z') \<and>
    ReadFull (zstd_Read example_zstd conn_read)
      (NewZstdDuplex (fresh_conn\<lparr>in_segs := [out_bytes (base z')]\<rparr>)) 20 =
      Some ((replicate 20 7, None), z'')"
proof -
  let ?P = "\<lparr>zstdLevel = 20, zstdMinSizeB = 4, zstdChunkSizeB = 16\<rparr>"
  have ok: "chunk_ok ?P" by (simp add: chunk_ok_def)
  have "zstd_ready example_zstd 0 out_bytes conn_healthy (NewZstdDuplex fresh_conn)"
    by (simp add: zstd_ready_def zstd_sent_def NewZstdDuplex_def fresh_conn_def conn_healthy_def
        aligned_Nil)
  then obtain z' where w: "zstd_Write ?P example_zstd conn_write (NewZstdDuplex fresh_conn)
      (replicate 20 7) = Some ((length (replicate 20 (7 :: byte)), None), z')"
    using reliable_sink.wr_succeeds [OF hk.zstd_reliable [OF example_zstd_lossless ok]] by blast
  have "out_bytes fresh_conn = []" by (simp add: fresh_conn_def)
  from zstd_roundtrip [OF example_zstd_lossless ok this w,
      of "fresh_conn\<lparr>in_segs := [out_bytes (base z')]\<rparr>"] w
  show ?thesis by auto
qed

text \<open>
  A frame is sent compressed only when that makes it shorter on the wire than the chunk it
  carries, header included; otherwise the frame is the chunk and its header of at most six
  bytes.
\<close>

theorem encode_frame_size:
  assumes "length chunk \<le> 2 ^ 30"
  shows "length (encode_frame P L chunk) < length chunk \<and>
           fst (frame_payload P L chunk) = flagCompressed \<or>
         length (encode_frame P L chunk) \<le> 6 + length chunk \<and>
           encode_frame P L chunk = 0 # PutUvarint (of_nat (length chunk)) @ chunk"
proof (cases rule: frame_payload_cases [of P L chunk])
  case plain
  have "unat (of_nat (length chunk) :: uint64) < 2 ^ (7 * 5)"
    using assms by (simp add: unat_of_nat_len)
  then have "length (PutUvarint (of_nat (length chunk))) \<le> 5"
    by (rule PutUvarint_length) simp
  with plain show ?thesis by (simp add: encode_frame_def)
next
  case (compressed c)
  then show ?thesis by (simp add: encode_frame_def uvarintLen_eq)
qed

theorem encode_frame_size_witness:
  "length (replicate 16 (7 :: byte)) \<le> 2 ^ 30 \<and>
   length (encode_frame default_zstd_params example_zstd (replicate 16 7)) \<le> 22"
  using encode_frame_size [of "replicate 16 7" default_zstd_params example_zstd] by auto

end
