(* ===== verification/F2P_Message.thy ===== *)
theory F2P_Message
  imports F2P_IO
begin

text \<open>
  Packages \<^verbatim>\<open>proto\<close> and \<^verbatim>\<open>internal/message\<close> (\<^verbatim>\<open>message.go\<close>, \<^verbatim>\<open>message_api.go\<close>): the unified message,
  the length-prefixed framing of control messages and the sending interface with its time to
  live. The protobuf runtime is a parameter, the record \<open>proto_lib\<close>, with the law \<open>proto_lossless\<close>.
  Read and write deadlines are not modelled: a missed deadline is one of the errors a stream may
  end with. The lemmas show that the framing is lossless over every conforming stream, that a
  declared length above the limit is refused before the body is read, and that every message
  accepted for sending carries a time to live between one second and one minute.
\<close>

section \<open>Messages\<close>

text \<open>
  The enumerations are open in proto3: a number outside the declared range is kept, here by the
  last constructor.
\<close>

datatype MessageType =
    PASSWORD_REQUIRED | AUTH_REQUEST | AUTH_RESPONSE | SERVICE_REQUEST | SERVICE_RESPONSE
  | SERVER_SHUTDOWN | CLIENT_SHUTDOWN | HEARTBEAT | MessageType_other int

datatype ErrorCode =
    NO_ERROR | SERVICE_NOT_FOUND | PROTOCOL_NOT_SUPPORTED | SERVICE_DISABLED
  | INVALID_PASSWORD | PASSWORD_REQUIRED_ERROR | AUTH_FAILED | ErrorCode_other int

record UnifiedMessage =
  m_Type :: MessageType
  m_Password :: string
  m_Success :: bool
  m_RequirePassword :: bool
  m_ServiceName :: string
  m_Protocol :: string
  m_ServicePassword :: string
  m_Message :: string
  m_ErrorCode :: ErrorCode
  m_Data :: "string \<rightharpoonup> string"
  m_TtlMs :: uint32

text \<open>The zero value \<^verbatim>\<open>&pb.UnifiedMessage{}\<close>.\<close>

definition zero_message :: UnifiedMessage where
  "zero_message =
     \<lparr>m_Type = PASSWORD_REQUIRED, m_Password = [], m_Success = False, m_RequirePassword = False,
      m_ServiceName = [], m_Protocol = [], m_ServicePassword = [], m_Message = [],
      m_ErrorCode = NO_ERROR, m_Data = Map.empty, m_TtlMs = 0\<rparr>"

text \<open>\<open>None\<close> is the nil pointer.\<close>

definition IsShutdownMessage :: "UnifiedMessage option \<Rightarrow> bool" where
  "IsShutdownMessage mo =
     (case mo of None \<Rightarrow> False
      | Some m \<Rightarrow> m_Type m = SERVER_SHUTDOWN \<or> m_Type m = CLIENT_SHUTDOWN)"

record proto_lib =
  Marshal :: "UnifiedMessage \<Rightarrow> error + bytes"
  Unmarshal :: "bytes \<Rightarrow> error + UnifiedMessage"

text \<open>
  What the program relies on: decoding undoes encoding, and the empty input decodes to the zero
  value.
\<close>

definition proto_lossless :: "proto_lib \<Rightarrow> bool" where
  "proto_lossless Q \<longleftrightarrow>
     (\<forall>m d. Marshal Q m = Inr d \<longrightarrow> Unmarshal Q d = Inr m) \<and> Unmarshal Q [] = Inr zero_message"

section \<open>Framing\<close>

definition maxProtoMsgSize :: nat where "maxProtoMsgSize = 4 * 2 ^ 20"

definition sendMessage ::
  "proto_lib \<Rightarrow> 's writer \<Rightarrow> 's \<Rightarrow> UnifiedMessage \<Rightarrow> (error option \<times> 's) option" where
  "sendMessage Q wr s msg =
     (case Marshal Q msg of
        Inl e \<Rightarrow> Some (Some e, s)
      | Inr data \<Rightarrow>
          if length data > maxProtoMsgSize
          then Some (Some (Errorf ''message too large: %d > %d''
                 [FInt (int (length data)), FInt (int maxProtoMsgSize)]), s)
          else
            let msgLen = (of_nat (length data) :: uint32);
                lenBytes = [ucast (drop_bit 24 msgLen), ucast (drop_bit 16 msgLen),
                            ucast (drop_bit 8 msgLen), ucast msgLen]
            in do {
              r \<leftarrow> writeFull wr s lenBytes;
              case r of (eo, s') \<Rightarrow>
                (case eo of Some e \<Rightarrow> Some (Some e, s') | None \<Rightarrow> writeFull wr s' data)
            })"

definition receiveMessage ::
  "proto_lib \<Rightarrow> 's reader \<Rightarrow> 's \<Rightarrow> ((error + UnifiedMessage) \<times> 's) option" where
  "receiveMessage Q rd s = do {
     r \<leftarrow> ReadFull rd s 4;
     case r of ((lenBytes, eo), s1) \<Rightarrow>
     (case eo of Some e \<Rightarrow> Some (Inl e, s1) | None \<Rightarrow>
       (let msgLen = join_uint32 (lenBytes ! 0) (lenBytes ! 1) (lenBytes ! 2) (lenBytes ! 3) in
        if msgLen > of_nat maxProtoMsgSize
        then Some (Inl (Errorf ''invalid message size: %d'' [FInt (uint msgLen)]), s1)
        else if msgLen = 0 then Some (Inr zero_message, s1)
        else do {
          r2 \<leftarrow> ReadFull rd s1 (unat msgLen);
          case r2 of ((data, eo2), s2) \<Rightarrow>
          (case eo2 of Some e \<Rightarrow> Some (Inl e, s2) | None \<Rightarrow>
            (case Unmarshal Q data of
               Inl e \<Rightarrow> Some (Inl e, s2)
             | Inr msg \<Rightarrow> Some (Inr msg, s2)))
        }))
   }"

text \<open>\<^verbatim>\<open>ReceiveOne\<close> differs from \<^verbatim>\<open>receiveMessage\<close> by its deadline only.\<close>

definition ReceiveOne ::
  "proto_lib \<Rightarrow> 's reader \<Rightarrow> 's \<Rightarrow> ((error + UnifiedMessage) \<times> 's) option" where
  "ReceiveOne Q rd s = receiveMessage Q rd s"

section \<open>Sending with a time to live\<close>

definition defaultControlTTL :: duration where "defaultControlTTL = 30 * second"

text \<open>The effective time to live of \<^verbatim>\<open>SendWithTTL\<close>, in milliseconds, or its error.\<close>

definition ttl_of :: "duration \<Rightarrow> error + uint32" where
  "ttl_of ttl0 =
     (let defaultTTL = 30 * second; maxTTL = 60 * second; minTTL = 1 * second;
          ttl1 = (if ttl0 \<le> 0 then defaultTTL else ttl0);
          ttl2 = (if ttl1 < minTTL then minTTL else ttl1)
      in if ttl2 > maxTTL then Inl (Errorf ''ttl exceeds max 60s: %v'' [FInt ttl2])
         else let t = (of_int (ttl2 div millisecond) :: uint32)
              in Inr (if t = 0 then of_int (defaultTTL div millisecond) else t))"

definition SendWithTTL ::
  "proto_lib \<Rightarrow> 's writer \<Rightarrow> 's \<Rightarrow> UnifiedMessage \<Rightarrow> duration \<Rightarrow> (error option \<times> 's) option" where
  "SendWithTTL Q wr s msg ttl =
     (case ttl_of ttl of
        Inl e \<Rightarrow> Some (Some e, s)
      | Inr t \<Rightarrow> sendMessage Q wr s (msg\<lparr>m_TtlMs := t\<rparr>))"

definition SendServerShutdownNotification where
  "SendServerShutdownNotification Q wr s =
     SendWithTTL Q wr s (zero_message\<lparr>m_Type := SERVER_SHUTDOWN,
       m_Message := ''Server is shutting down gracefully''\<rparr>) defaultControlTTL"

definition SendClientShutdownNotification where
  "SendClientShutdownNotification Q wr s =
     SendWithTTL Q wr s (zero_message\<lparr>m_Type := CLIENT_SHUTDOWN,
       m_Message := ''Client is shutting down gracefully''\<rparr>) defaultControlTTL"

definition SendHeartbeat where
  "SendHeartbeat Q wr s =
     SendWithTTL Q wr s (zero_message\<lparr>m_Type := HEARTBEAT, m_Message := ''ping''\<rparr>) (10 * second)"

definition SendHeartbeatAck where
  "SendHeartbeatAck Q wr s =
     SendWithTTL Q wr s (zero_message\<lparr>m_Type := HEARTBEAT, m_Message := ''pong''\<rparr>) (10 * second)"

definition SendServiceRequest where
  "SendServiceRequest Q wr s name protocol pwd =
     SendWithTTL Q wr s (zero_message\<lparr>m_Type := SERVICE_REQUEST, m_ServiceName := name,
       m_Protocol := protocol, m_ServicePassword := pwd\<rparr>) defaultControlTTL"

definition SendServiceResponse where
  "SendServiceResponse Q wr s success code msg data =
     SendWithTTL Q wr s (zero_message\<lparr>m_Type := SERVICE_RESPONSE, m_Success := success,
       m_ErrorCode := code, m_Message := msg, m_Data := data\<rparr>) defaultControlTTL"

definition SendPasswordRequired where
  "SendPasswordRequired Q wr s require =
     SendWithTTL Q wr s (zero_message\<lparr>m_Type := PASSWORD_REQUIRED,
       m_RequirePassword := require\<rparr>) defaultControlTTL"

definition SendAuthRequest where
  "SendAuthRequest Q wr s password =
     SendWithTTL Q wr s (zero_message\<lparr>m_Type := AUTH_REQUEST, m_Password := password\<rparr>)
       defaultControlTTL"

definition SendAuthResponse where
  "SendAuthResponse Q wr s success msg =
     SendWithTTL Q wr s (zero_message\<lparr>m_Type := AUTH_RESPONSE, m_Success := success,
       m_Message := msg\<rparr>) defaultControlTTL"

section \<open>Lemmas\<close>

definition message_frame :: "bytes \<Rightarrow> bytes" where
  "message_frame data = put_uint32 (of_nat (length data)) @ data"

lemma unat_of_nat_msg: "n \<le> maxProtoMsgSize \<Longrightarrow> unat (of_nat n :: uint32) = n"
  by (simp add: maxProtoMsgSize_def unsigned_of_nat take_bit_nat_eq_self)

context short_sink
begin

lemma sendMessage_spec:
  assumes "ready s" and "Marshal Q m = Inr d" and "length d \<le> maxProtoMsgSize"
  obtains (ok) s' where "sendMessage Q wr s m = Some (None, s')"
      and "sent s' = sent s @ message_frame d" and "ready s'"
  | (failed) e s' k where "sendMessage Q wr s m = Some (Some e, s')"
      and "k \<le> length (message_frame d)" and "sent s' = sent s @ take k (message_frame d)"
proof -
  let ?h = "put_uint32 (of_nat (length d))"
  have unf: "sendMessage Q wr s m = do {
      r \<leftarrow> writeFull wr s ?h;
      case r of (eo, s') \<Rightarrow>
        (case eo of Some e \<Rightarrow> Some (Some e, s') | None \<Rightarrow> writeFull wr s' d)}"
    using assms(2,3) by (simp add: sendMessage_def Let_def put_uint32_def)
  show thesis
  proof (cases rule: writeFull_cases [OF assms(1), of ?h, case_names ok1 failed1])
    case (failed1 e s' k)
    then show thesis using unf failed [of e s' k] by (simp add: message_frame_def)
  next
    case (ok1 s1)
    show thesis
    proof (cases rule: writeFull_cases [OF ok1(3), of d, case_names ok2 failed2])
      case (failed2 e s' k)
      then show thesis using unf ok1 failed [of e s' "4 + k"] by (simp add: message_frame_def)
    next
      case (ok2 s2)
      then show thesis using unf ok1 ok by (simp add: message_frame_def)
    qed
  qed
qed

end

context byte_source
begin

lemma receiveMessage_frame:
  assumes "inv s" and "view s = (message_frame d @ rest, e)"
    and "length d \<le> maxProtoMsgSize" and "d \<noteq> []"
  obtains s' where "receiveMessage Q rd s = Some (Unmarshal Q d, s')"
    and "view s' = (rest, e)" and "inv s'"
proof -
  let ?n = "of_nat (length d) :: uint32"
  have n: "unat ?n = length d" by (rule unat_of_nat_msg [OF assms(3)])
  have lim: "\<not> ?n > of_nat maxProtoMsgSize" and nz: "?n \<noteq> 0"
    using assms(3,4) n by (auto simp: word_less_nat_alt unat_of_nat_msg) (metis length_0_conv n unsigned_0)
  obtain s1 where r1: "ReadFull rd s 4 = Some ((put_uint32 ?n, None), s1)"
    and v1: "view s1 = (d @ rest, e)" "inv s1"
    using ReadFull_ok [OF assms(1,2), of 4] by (auto simp: message_frame_def)
  obtain s2 where r2: "ReadFull rd s1 (unat ?n) = Some ((d, None), s2)"
    and v2: "view s2 = (rest, e)" "inv s2"
    using ReadFull_ok [OF v1(2,1), of "length d"] n by auto
  have "receiveMessage Q rd s = Some (Unmarshal Q d, s2)"
    using r1 r2 lim nz
    by (simp add: receiveMessage_def put_uint32_def wire_simps Let_def split: sum.split)
  with v2 that show thesis by blast
qed

lemma receiveMessage_empty:
  assumes "inv s" and "view s = (message_frame [] @ rest, e)"
  obtains s' where "receiveMessage Q rd s = Some (Inr zero_message, s')"
    and "view s' = (rest, e)" and "inv s'"
proof -
  obtain s1 where "ReadFull rd s 4 = Some ((put_uint32 0, None), s1)"
    and "view s1 = (rest, e)" "inv s1"
    using ReadFull_ok [OF assms, of 4] by (auto simp: message_frame_def)
  then show thesis using that
    by (simp add: receiveMessage_def put_uint32_def join_uint32_def Let_def)
qed

lemma receiveMessage_oversize:
  assumes "inv s" and "view s = (put_uint32 n @ rest, e)" and "unat n > maxProtoMsgSize"
  obtains s' where "receiveMessage Q rd s =
      Some (Inl (Errorf ''invalid message size: %d'' [FInt (uint n)]), s')"
    and "view s' = (rest, e)"
proof -
  obtain s1 where "ReadFull rd s 4 = Some ((put_uint32 n, None), s1)"
    and "view s1 = (rest, e)"
    using ReadFull_ok [OF assms(1,2), of 4] by auto
  moreover have "n > of_nat maxProtoMsgSize"
    using assms(3) by (simp add: word_less_nat_alt unat_of_nat_msg)
  ultimately show thesis using that
    by (simp add: receiveMessage_def put_uint32_def wire_simps Let_def)
qed

end

lemma ttl_of_range:
  assumes "ttl_of d = Inr t"
  shows "1000 \<le> unat t \<and> unat t \<le> 60000"
proof -
  define d2 where "d2 = (let d1 = (if d \<le> 0 then 30 * second else d)
      in if d1 < 1 * second then 1 * second else d1)"
  define k where "k = d2 div millisecond"
  have d2: "second \<le> d2" "d2 \<le> 60 * second"
    using assms by (auto simp: ttl_of_def d2_def Let_def split: if_splits)
  then have k: "1000 \<le> k" "k \<le> 60000" unfolding k_def by linarith+
  then have u: "unat (of_int k :: uint32) = nat k"
    by (simp add: unat_eq_nat_uint unsigned_of_int take_bit_int_eq_self)
  then have "(of_int k :: uint32) \<noteq> 0" using k by fastforce
  then have "t = of_int k"
    using assms by (auto simp: ttl_of_def d2_def k_def Let_def split: if_splits)
  with u k show ?thesis by (simp add: nat_le_iff le_nat_iff)
qed

lemma sendMessage_NoneD:
  assumes "sendMessage Q wr s m = Some (None, s')"
  obtains d where "Marshal Q m = Inr d" and "length d \<le> maxProtoMsgSize"
  using assms by (auto simp: sendMessage_def Let_def split: sum.splits if_splits)

context byte_source
begin

text \<open>A receiver reads back the message of a frame, the empty frame included.\<close>

lemma receiveMessage_lossless:
  assumes "proto_lossless Q" and "inv s" and "Marshal Q m = Inr d"
    and "length d \<le> maxProtoMsgSize" and "view s = (message_frame d @ rest, e)"
  obtains s' where "receiveMessage Q rd s = Some (Inr m, s')" and "view s' = (rest, e)" and "inv s'"
proof (cases "d = []")
  case True
  then have "m = zero_message" using assms(1,3) by (auto simp: proto_lossless_def)
  with True that show thesis using receiveMessage_empty [OF assms(2), of rest e Q] assms(5) by blast
next
  case False
  have "Unmarshal Q d = Inr m" using assms(1,3) by (simp add: proto_lossless_def)
  with that show thesis using receiveMessage_frame [OF assms(2,5,4) False, of Q] by metis
qed

end

section \<open>Properties\<close>

text \<open>
  C1: a control message that was sent without an error is received unchanged, whatever the
  fragmentation of the transport, and the receiver is left at the byte that follows it.
\<close>

theorem message_roundtrip:
  assumes "proto_lossless Q" and "sendMessage Q conn_write c m = Some (None, c')"
    and "concat (in_segs r) = drop (length (out_bytes c)) (out_bytes c') @ rest"
  shows "\<exists>r'. receiveMessage Q conn_read r = Some (Inr m, r') \<and> conn_view r' = (rest, in_err r)"
proof -
  obtain d where d: "Marshal Q m = Inr d" "length d \<le> maxProtoMsgSize"
    using sendMessage_NoneD [OF assms(2)] by blast
  have "out_bytes c' = out_bytes c @ message_frame d"
    using assms(2) by (cases rule: ck.sendMessage_spec [OF TrueI d, of c]) auto
  then have v: "conn_view r = (message_frame d @ rest, in_err r)"
    using assms(3) by (simp add: conn_view_def)
  show ?thesis using cs.receiveMessage_lossless [OF assms(1) TrueI d v] by blast
qed

text \<open>
  A frame that declares more than 4 MiB is refused as soon as its length is known: the error
  names the size and none of the bytes after the length has been consumed.
\<close>

theorem receiveMessage_refuses_oversize:
  assumes "concat (in_segs r) = put_uint32 n @ rest" and "unat n > maxProtoMsgSize"
  shows "\<exists>r'. receiveMessage Q conn_read r =
           Some (Inl (Errorf ''invalid message size: %d'' [FInt (uint n)]), r') \<and>
         conn_view r' = (rest, in_err r)"
  using cs.receiveMessage_oversize [of r n rest "in_err r" Q] assms
  by (auto simp: conn_view_def)

text \<open>
  Every message that \<^verbatim>\<open>SendWithTTL\<close> hands to the framing carries a time to live between 1000
  and 60000 milliseconds, whatever duration the caller asks for; a duration above one minute is
  an error and nothing is written.
\<close>

theorem SendWithTTL_ttl:
  "(\<exists>t. 1000 \<le> unat t \<and> unat t \<le> 60000 \<and>
        SendWithTTL Q wr s m ttl = sendMessage Q wr s (m\<lparr>m_TtlMs := t\<rparr>)) \<and> ttl \<le> 60 * second \<or>
   (\<exists>e. SendWithTTL Q wr s m ttl = Some (Some e, s)) \<and> ttl > 60 * second"
proof (cases "ttl_of ttl")
  case (Inl e)
  then have "ttl > 60 * second" by (auto simp: ttl_of_def Let_def split: if_splits)
  with Inl show ?thesis by (simp add: SendWithTTL_def)
next
  case (Inr t)
  then have "ttl \<le> 60 * second" by (auto simp: ttl_of_def Let_def split: if_splits)
  with Inr ttl_of_range [OF Inr] show ?thesis by (auto simp: SendWithTTL_def)
qed

section \<open>Witnesses\<close>

text \<open>An instance of the protobuf parameter that knows the heartbeat and the zero value.\<close>

definition ping_message :: UnifiedMessage where
  "ping_message = zero_message\<lparr>m_Type := HEARTBEAT, m_Message := ''ping'', m_TtlMs := 10000\<rparr>"

definition example_proto :: proto_lib where
  "example_proto =
     \<lparr>Marshal = (\<lambda>m. if m = zero_message then Inr [] else if m = ping_message then Inr [7, 42]
                     else Inl (EnvError ''unsupported'')),
      Unmarshal = (\<lambda>d. if d = [] then Inr zero_message else if d = [7, 42] then Inr ping_message
                       else Inl (EnvError ''malformed''))\<rparr>"

lemma example_proto_lossless: "proto_lossless example_proto"
  by (auto simp: proto_lossless_def example_proto_def split: if_splits)

lemma example_send:
  "sendMessage example_proto conn_write fresh_conn ping_message =
     Some (None, fresh_conn\<lparr>out_bytes := [0, 0, 0, 2, 7, 42]\<rparr>)"
  by (simp add: sendMessage_def example_proto_def ping_message_def zero_message_def
      maxProtoMsgSize_def writeFull.simps conn_write_def fresh_conn_def Let_def)

theorem message_roundtrip_witness:
  "\<exists>r'. receiveMessage example_proto conn_read
          (fresh_conn\<lparr>in_segs := [[0], [0, 0, 2, 7], [42, 9]]\<rparr>) = Some (Inr ping_message, r') \<and>
        conn_view r' = ([9], EOF)"
  using message_roundtrip [OF example_proto_lossless example_send,
      of "fresh_conn\<lparr>in_segs := [[0], [0, 0, 2, 7], [42, 9]]\<rparr>" "[9]"]
  by (simp add: fresh_conn_def)

theorem receiveMessage_refuses_oversize_witness:
  "\<exists>r'. receiveMessage example_proto conn_read
          (fresh_conn\<lparr>in_segs := [put_uint32 (2 ^ 24) @ [1, 2]]\<rparr>) =
        Some (Inl (Errorf ''invalid message size: %d'' [FInt (2 ^ 24)]), r') \<and>
        conn_view r' = ([1, 2], EOF)"
  using receiveMessage_refuses_oversize
    [of "fresh_conn\<lparr>in_segs := [put_uint32 (2 ^ 24) @ [1, 2]]\<rparr>" "2 ^ 24" "[1, 2]" example_proto]
  by (simp add: fresh_conn_def maxProtoMsgSize_def)

end
