(* ===== verification/F2P_Dispatcher.thy ===== *)
theory F2P_Dispatcher
  imports F2P_Message "HOL-Library.Sublist"
begin

text \<open>
  \<^verbatim>\<open>internal/message/dispatcher.go\<close>: one goroutine reads messages from the control stream into
  per-type queues, any number of callers wait for messages of given types. The critical sections
  (everything under \<^verbatim>\<open>d.mu\<close>) are functions on the record \<open>Dispatcher\<close>; the channel \<^verbatim>\<open>notify\<close> of
  capacity one is a flag. The interleavings of the reader, the waiting callers, \<^verbatim>\<open>Close\<close> and the
  clock are the relation \<open>dstep\<close>, in which unlocking and the broadcast that follows are separate
  steps. The lemmas show what the queues keep (bounded, ordered, one type each, nothing lost
  uncounted), that an expired message is never delivered, and exactly when a waiting caller is
  woken: always if it is the only one, not always if there are two.
\<close>

section \<open>State\<close>

record entry =
  e_msg :: UnifiedMessage
  enqueueAt :: time

record Dispatcher =
  queues :: "MessageType \<Rightarrow> entry list"
  closed :: bool
  err :: "error option"
  started :: bool
  droppedExpired :: "MessageType \<Rightarrow> uint64"
  droppedOverflow :: "MessageType \<Rightarrow> uint64"
  notify :: bool

definition perTypeLimit :: nat where "perTypeLimit = 10"

definition NewDispatcher :: Dispatcher where
  "NewDispatcher =
     \<lparr>queues = (\<lambda>_. []), closed = False, err = None, started = False,
      droppedExpired = (\<lambda>_. 0), droppedOverflow = (\<lambda>_. 0), notify = False\<rparr>"

section \<open>Operations\<close>

definition effective_ttl :: "entry \<Rightarrow> duration" where
  "effective_ttl e =
     (let ttl = int (unat (m_TtlMs (e_msg e))) * millisecond in if ttl < second then second else ttl)"

definition expired :: "time \<Rightarrow> entry \<Rightarrow> bool" where
  "expired now e \<longleftrightarrow> time_sub now (enqueueAt e) > effective_ttl e"

text \<open>The loop that drops expired entries at the head, with the number dropped.\<close>

fun prune :: "time \<Rightarrow> entry list \<Rightarrow> entry list \<times> nat" where
  "prune now [] = ([], 0)"
| "prune now (e # q) =
     (if expired now e then (case prune now q of (q', n) \<Rightarrow> (q', Suc n)) else (e # q, 0))"

definition enqueue :: "time \<Rightarrow> UnifiedMessage \<Rightarrow> Dispatcher \<Rightarrow> Dispatcher" where
  "enqueue now msg d =
     (let t = m_Type msg;
          (q1, nexp) = prune now (queues d t);
          full = (perTypeLimit > 0 \<and> length q1 \<ge> perTypeLimit);
          q2 = (if full then tl q1 else q1)
      in d\<lparr>queues := (queues d)(t := q2 @ [\<lparr>e_msg = msg, enqueueAt = now\<rparr>]),
           droppedExpired := (droppedExpired d)(t := droppedExpired d t + of_nat nexp),
           droppedOverflow := (droppedOverflow d)(t := droppedOverflow d t + (if full then 1 else 0))\<rparr>)"

definition record_error :: "error \<Rightarrow> Dispatcher \<Rightarrow> Dispatcher" where
  "record_error e d = (if \<not> closed d then d\<lparr>err := Some e\<rparr> else d)"

text \<open>The inner loop of \<^verbatim>\<open>WaitFor\<close> on one queue: skip expired entries, take the first live one.\<close>

fun take_live :: "time \<Rightarrow> entry list \<Rightarrow> entry option \<times> entry list \<times> nat" where
  "take_live now [] = (None, [], 0)"
| "take_live now (e # q) =
     (if expired now e then (case take_live now q of (r, q', n) \<Rightarrow> (r, q', Suc n))
      else (Some e, q, 0))"

fun scan :: "time \<Rightarrow> MessageType list \<Rightarrow> Dispatcher \<Rightarrow> entry option \<times> Dispatcher" where
  "scan now [] d = (None, d)"
| "scan now (t # ts) d =
     (case take_live now (queues d t) of (r, q, n) \<Rightarrow>
        let d' = d\<lparr>queues := (queues d)(t := q),
                   droppedExpired := (droppedExpired d)(t := droppedExpired d t + of_nat n)\<rparr>
        in (case r of Some e \<Rightarrow> (Some e, d') | None \<Rightarrow> scan now ts d'))"

datatype wait_result = Delivered UnifiedMessage | Failed error | MustWait

text \<open>One pass of the loop of \<^verbatim>\<open>WaitFor\<close>, up to the \<^verbatim>\<open>select\<close>.\<close>

definition wait_pass :: "time \<Rightarrow> MessageType list \<Rightarrow> Dispatcher \<Rightarrow> wait_result \<times> Dispatcher" where
  "wait_pass now ts d =
     (case scan now ts d of
        (Some e, d') \<Rightarrow> (Delivered (e_msg e), d')
      | (None, d') \<Rightarrow>
          (case err d' of
             Some e \<Rightarrow> (Failed e, d')
           | None \<Rightarrow> if closed d' then (Failed (Errorf ''dispatcher closed'' []), d')
                     else (MustWait, d')))"

definition set_closed :: "Dispatcher \<Rightarrow> Dispatcher" where
  "set_closed d = (if \<not> closed d then d\<lparr>closed := True\<rparr> else d)"

definition broadcast :: "Dispatcher \<Rightarrow> Dispatcher" where
  "broadcast d = d\<lparr>notify := True\<rparr>"

definition IsClosed :: "Dispatcher \<Rightarrow> bool" where
  "IsClosed d = closed d"

definition Dispatcher_Close :: "Dispatcher \<Rightarrow> Dispatcher" where
  "Dispatcher_Close d = broadcast (set_closed d)"

section \<open>Interleavings\<close>

text \<open>
  The reader goroutine of \<^verbatim>\<open>Start\<close>: before \<^verbatim>\<open>Start\<close>, at the top of its loop, blocked in
  \<^verbatim>\<open>receiveMessage\<close>, about to lock with the time it read, between unlock and broadcast (the flag tells whether it returns
  afterwards), returned.
\<close>

datatype reader_pc =
  R_Off | R_Top | R_Receive | R_Enqueue time UnifiedMessage | R_Broadcast bool | R_Returned

text \<open>A caller of \<^verbatim>\<open>WaitFor\<close>: about to lock and scan, blocked in the \<^verbatim>\<open>select\<close>, returned.\<close>

datatype waiter_pc = W_Scan "MessageType list" | W_Select "MessageType list" | W_Returned "error + UnifiedMessage"

text \<open>\<open>closers\<close> counts the calls of \<^verbatim>\<open>Close\<close> between unlock and broadcast; the last two fields are
  the history of messages received and delivered, per type.\<close>

record dsys =
  disp :: Dispatcher
  reader :: reader_pc
  waiters :: "nat \<Rightarrow> waiter_pc option"
  closers :: nat
  clock :: time
  received :: "MessageType \<Rightarrow> UnifiedMessage list"
  delivered :: "MessageType \<Rightarrow> UnifiedMessage list"

definition dsys_init :: dsys where
  "dsys_init =
     \<lparr>disp = NewDispatcher, reader = R_Off, waiters = (\<lambda>_. None), closers = 0, clock = 0,
      received = (\<lambda>_. []), delivered = (\<lambda>_. [])\<rparr>"

text \<open>\<open>W\<close> is the set of callers that may use the dispatcher.\<close>

inductive dstep :: "nat set \<Rightarrow> dsys \<Rightarrow> dsys \<Rightarrow> bool" for W where
  start: "\<not> started (disp s) \<Longrightarrow>
    dstep W s (s\<lparr>disp := (disp s)\<lparr>started := True\<rparr>, reader := R_Top\<rparr>)"
| rd_exit: "reader s = R_Top \<Longrightarrow> IsClosed (disp s) \<Longrightarrow> dstep W s (s\<lparr>reader := R_Returned\<rparr>)"
| rd_continue: "reader s = R_Top \<Longrightarrow> \<not> IsClosed (disp s) \<Longrightarrow> dstep W s (s\<lparr>reader := R_Receive\<rparr>)"
| rd_message: "reader s = R_Receive \<Longrightarrow> dstep W s (s\<lparr>reader := R_Enqueue (clock s) m\<rparr>)"
| rd_enqueue: "reader s = R_Enqueue now m \<Longrightarrow>
    dstep W s (s\<lparr>disp := enqueue now m (disp s), reader := R_Broadcast False,
      received := (received s)(m_Type m := received s (m_Type m) @ [m])\<rparr>)"
| rd_error: "reader s = R_Receive \<Longrightarrow>
    dstep W s (s\<lparr>disp := record_error e (disp s), reader := R_Broadcast True\<rparr>)"
| rd_broadcast: "reader s = R_Broadcast b \<Longrightarrow>
    dstep W s (s\<lparr>disp := broadcast (disp s), reader := (if b then R_Returned else R_Top)\<rparr>)"
| close: "dstep W s (s\<lparr>disp := set_closed (disp s), closers := closers s + 1\<rparr>)"
| close_broadcast: "closers s > 0 \<Longrightarrow>
    dstep W s (s\<lparr>disp := broadcast (disp s), closers := closers s - 1\<rparr>)"
| w_call: "i \<in> W \<Longrightarrow> waiters s i = None \<or> (\<exists>r. waiters s i = Some (W_Returned r)) \<Longrightarrow>
    dstep W s (s\<lparr>waiters := (waiters s)(i \<mapsto> W_Scan ts)\<rparr>)"
| w_deliver: "waiters s i = Some (W_Scan ts) \<Longrightarrow>
    wait_pass (clock s) ts (disp s) = (Delivered m, d) \<Longrightarrow>
    dstep W s (s\<lparr>disp := d, waiters := (waiters s)(i \<mapsto> W_Returned (Inr m)),
      delivered := (delivered s)(m_Type m := delivered s (m_Type m) @ [m])\<rparr>)"
| w_fail: "waiters s i = Some (W_Scan ts) \<Longrightarrow>
    wait_pass (clock s) ts (disp s) = (Failed e, d) \<Longrightarrow>
    dstep W s (s\<lparr>disp := d, waiters := (waiters s)(i \<mapsto> W_Returned (Inl e))\<rparr>)"
| w_block: "waiters s i = Some (W_Scan ts) \<Longrightarrow>
    wait_pass (clock s) ts (disp s) = (MustWait, d) \<Longrightarrow>
    dstep W s (s\<lparr>disp := d, waiters := (waiters s)(i \<mapsto> W_Select ts)\<rparr>)"
| w_wake: "waiters s i = Some (W_Select ts) \<Longrightarrow> notify (disp s) \<Longrightarrow>
    dstep W s (s\<lparr>disp := (disp s)\<lparr>notify := False\<rparr>, waiters := (waiters s)(i \<mapsto> W_Scan ts)\<rparr>)"
| w_context: "waiters s i = Some (W_Select ts) \<Longrightarrow>
    dstep W s (s\<lparr>waiters := (waiters s)(i \<mapsto> W_Returned (Inl ContextDone))\<rparr>)"
| tick: "clock s \<le> now \<Longrightarrow> dstep W s (s\<lparr>clock := now\<rparr>)"

definition dreach :: "nat set \<Rightarrow> dsys \<Rightarrow> bool" where
  "dreach W s \<longleftrightarrow> (dstep W)\<^sup>*\<^sup>* dsys_init s"

lemma dreach_init: "dreach W dsys_init"
  by (simp add: dreach_def)

lemma dreach_step: "dreach W s \<Longrightarrow> dstep W s t \<Longrightarrow> dreach W t"
  by (simp add: dreach_def)

lemma dreach_induct [consumes 1, case_names init step]:
  assumes "dreach W s" and "I dsys_init"
    and "\<And>s t. dreach W s \<Longrightarrow> I s \<Longrightarrow> dstep W s t \<Longrightarrow> I t"
  shows "I s"
  using assms(1) unfolding dreach_def
proof (induction rule: rtranclp_induct)
  case base
  show ?case by (rule assms(2))
next
  case (step s t)
  then show ?case using assms(3) by (auto simp: dreach_def)
qed

section \<open>Queue lemmas\<close>

lemma prune_eq: "prune now q = (dropWhile (expired now) q, length (takeWhile (expired now) q))"
  by (induction q) auto

lemma take_live_eq:
  "take_live now q =
     (case dropWhile (expired now) q of
        [] \<Rightarrow> (None, [], length q)
      | e # q' \<Rightarrow> (Some e, q', length (takeWhile (expired now) q)))"
  by (induction q) (auto split: list.splits simp del: dropWhile_eq_Nil_conv)

text \<open>Only expired entries at the heads of the queues have gone, and each was counted.\<close>

definition shrunk :: "time \<Rightarrow> Dispatcher \<Rightarrow> Dispatcher \<Rightarrow> bool" where
  "shrunk now d d' \<longleftrightarrow>
     closed d' = closed d \<and> err d' = err d \<and> started d' = started d \<and>
     droppedOverflow d' = droppedOverflow d \<and> notify d' = notify d \<and>
     (\<forall>t. \<exists>p. queues d t = p @ queues d' t \<and> (\<forall>e \<in> set p. expired now e) \<and>
              droppedExpired d' t = droppedExpired d t + of_nat (length p))"

lemma shrunk_refl: "shrunk now d d"
  by (auto simp: shrunk_def intro: exI [of _ "[]"])

lemma shrunk_trans:
  assumes "shrunk now d d1" and "shrunk now d1 d2"
  shows "shrunk now d d2"
  unfolding shrunk_def
proof (intro conjI allI)
  fix t
  obtain p q where "queues d t = p @ queues d1 t" "queues d1 t = q @ queues d2 t"
    "\<forall>e \<in> set p. expired now e" "\<forall>e \<in> set q. expired now e"
    "droppedExpired d1 t = droppedExpired d t + of_nat (length p)"
    "droppedExpired d2 t = droppedExpired d1 t + of_nat (length q)"
    using assms unfolding shrunk_def by meson
  then show "\<exists>p. queues d t = p @ queues d2 t \<and> (\<forall>e \<in> set p. expired now e) \<and>
      droppedExpired d2 t = droppedExpired d t + of_nat (length p)"
    by (intro exI [of _ "p @ q"]) auto
qed (use assms in \<open>auto simp: shrunk_def\<close>)

lemma shrunk_one:
  assumes "queues d t = p @ q" and "\<forall>e \<in> set p. expired now e"
  shows "shrunk now d (d\<lparr>queues := (queues d)(t := q),
           droppedExpired := (droppedExpired d)(t := droppedExpired d t + of_nat (length p))\<rparr>)"
  using assms by (auto simp: shrunk_def intro: exI [of _ "[]"])

lemma expired_takeWhile: "\<forall>e \<in> set (takeWhile (expired now) q). expired now e"
  by (auto dest: set_takeWhileD)

lemma scan_None:
  "scan now ts d = (None, d') \<Longrightarrow> shrunk now d d' \<and> (\<forall>t \<in> set ts. queues d' t = [])"
proof (induction ts arbitrary: d)
  case Nil
  then show ?case by (simp add: shrunk_refl)
next
  case (Cons t ts)
  define d1 where "d1 = d\<lparr>queues := (queues d)(t := []),
      droppedExpired := (droppedExpired d)(t := droppedExpired d t + of_nat (length (queues d t)))\<rparr>"
  have all: "\<forall>e \<in> set (queues d t). expired now e" and s: "scan now ts d1 = (None, d')"
    using Cons.prems by (auto simp: take_live_eq d1_def split: list.splits)
  have one: "shrunk now d d1"
    using shrunk_one [of d t "queues d t" "[]" now] all by (simp add: d1_def)
  have rest: "shrunk now d1 d'" "\<forall>t \<in> set ts. queues d' t = []" using Cons.IH [OF s] by auto
  have "queues d' t = []"
  proof -
    obtain p where "queues d1 t = p @ queues d' t" using rest(1) unfolding shrunk_def by meson
    then show ?thesis by (simp add: d1_def)
  qed
  then show ?case using rest shrunk_trans [OF one rest(1)] by simp
qed

lemma scan_Some:
  "scan now ts d = (Some e, d') \<Longrightarrow>
   \<exists>t d1 q. t \<in> set ts \<and> shrunk now d d1 \<and> queues d1 t = e # q \<and> \<not> expired now e \<and>
            d' = d1\<lparr>queues := (queues d1)(t := q)\<rparr>"
proof (induction ts arbitrary: d)
  case (Cons t ts)
  show ?case
  proof (cases "dropWhile (expired now) (queues d t)")
    case Nil
    define d1 where "d1 = d\<lparr>queues := (queues d)(t := []),
        droppedExpired := (droppedExpired d)(t := droppedExpired d t + of_nat (length (queues d t)))\<rparr>"
    have "scan now ts d1 = (Some e, d')"
      using Cons.prems Nil
      by (simp add: take_live_eq d1_def del: dropWhile_eq_Nil_conv)
    moreover have "shrunk now d d1"
      using shrunk_one [of d t "queues d t" "[]" now] Nil by (simp add: d1_def)
    ultimately show ?thesis using Cons.IH shrunk_trans by (metis list.set_intros(2))
  next
    case (Cons e' q)
    define p where "p = takeWhile (expired now) (queues d t)"
    define d1 where "d1 = d\<lparr>queues := (queues d)(t := e' # q),
        droppedExpired := (droppedExpired d)(t := droppedExpired d t + of_nat (length p))\<rparr>"
    have "\<not> expired now e'" using Cons hd_dropWhile [of "expired now" "queues d t"] by auto
    moreover have "queues d t = p @ e' # q" unfolding p_def using Cons by (metis takeWhile_dropWhile_id)
    then have "shrunk now d d1"
      unfolding d1_def by (rule shrunk_one) (simp add: p_def expired_takeWhile)
    moreover have "e' = e" and "d' = d1\<lparr>queues := (queues d1)(t := q)\<rparr>"
      using \<open>scan now (t # ts) d = (Some e, d')\<close> Cons
      by (auto simp: take_live_eq d1_def p_def simp del: fun_upd_apply)
    ultimately show ?thesis by (intro exI [of _ t] exI [of _ d1] exI [of _ q]) (simp add: d1_def fun_upd_same del: fun_upd_apply)
  qed
qed simp

lemma wait_pass_Delivered:
  assumes "wait_pass now ts d = (Delivered m, d')"
  obtains e t d1 q where "m = e_msg e" and "t \<in> set ts" and "shrunk now d d1"
    and "queues d1 t = e # q" and "\<not> expired now e" and "d' = d1\<lparr>queues := (queues d1)(t := q)\<rparr>"
proof -
  obtain e where "scan now ts d = (Some e, d')" and "m = e_msg e"
    using assms by (auto simp: wait_pass_def split: prod.splits option.splits if_splits)
  with scan_Some that show thesis by blast
qed

lemma wait_pass_Failed:
  assumes "wait_pass now ts d = (Failed e, d')"
  shows "shrunk now d d' \<and> (\<forall>t \<in> set ts. queues d' t = []) \<and>
         (err d' = Some e \<or> err d' = None \<and> closed d' \<and> e = Errorf ''dispatcher closed'' [])"
  using assms scan_None
  by (auto simp: wait_pass_def split: prod.splits option.splits if_splits)

lemma wait_pass_MustWait:
  assumes "wait_pass now ts d = (MustWait, d')"
  shows "shrunk now d d' \<and> (\<forall>t \<in> set ts. queues d' t = []) \<and> err d' = None \<and> \<not> closed d'"
  using assms scan_None
  by (auto simp: wait_pass_def split: prod.splits option.splits if_splits)

text \<open>What \<^verbatim>\<open>WaitFor\<close> should return: the first live message in the order of the types asked for, then
  of arrival; failing that the reader's error, then the closed state.\<close>

definition wait_spec :: "time \<Rightarrow> MessageType list \<Rightarrow> Dispatcher \<Rightarrow> wait_result" where
  "wait_spec now ts d =
     (case find (\<lambda>e. \<not> expired now e) (concat (map (queues d) ts)) of
        Some e \<Rightarrow> Delivered (e_msg e)
      | None \<Rightarrow>
          (case err d of
             Some e \<Rightarrow> Failed e
           | None \<Rightarrow> if closed d then Failed (Errorf ''dispatcher closed'' []) else MustWait))"

lemma find_live_dropWhile:
  "find (\<lambda>e. \<not> expired now e) q =
     (case dropWhile (expired now) q of [] \<Rightarrow> None | e # _ \<Rightarrow> Some e)"
  by (induction q) auto

lemma find_live_shrunk:
  "shrunk now d d' \<Longrightarrow>
   find (\<lambda>e. \<not> expired now e) (concat (map (queues d') ts)) =
   find (\<lambda>e. \<not> expired now e) (concat (map (queues d) ts))"
proof (induction ts)
  case (Cons t ts)
  obtain p where p: "queues d t = p @ queues d' t" "\<forall>e \<in> set p. expired now e"
    using Cons.prems unfolding shrunk_def by meson
  then have "find (\<lambda>e. \<not> expired now e) p = None" by (simp add: find_None_iff)
  with p Cons show ?case by (simp add: find_append split: option.split)
qed simp

lemma scan_first_live:
  "fst (scan now ts d) = find (\<lambda>e. \<not> expired now e) (concat (map (queues d) ts))"
proof (induction ts arbitrary: d)
  case (Cons t ts)
  show ?case
  proof (cases "dropWhile (expired now) (queues d t)")
    case Nil
    define d1 where "d1 = d\<lparr>queues := (queues d)(t := []),
        droppedExpired := (droppedExpired d)(t := droppedExpired d t + of_nat (length (queues d t)))\<rparr>"
    have "shrunk now d d1"
      using shrunk_one [of d t "queues d t" "[]" now] Nil by (simp add: d1_def)
    have "find (\<lambda>e. \<not> expired now e) (queues d t) = None"
      using Nil by (simp add: find_live_dropWhile del: dropWhile_eq_Nil_conv)
    moreover have "scan now (t # ts) d = scan now ts d1"
      using Nil by (simp add: take_live_eq d1_def del: dropWhile_eq_Nil_conv)
    ultimately show ?thesis
      using find_live_shrunk [OF \<open>shrunk now d d1\<close>, of ts] Cons.IH [of d1] by (simp add: find_append)
  next
    case (Cons e q)
    then have "find (\<lambda>e. \<not> expired now e) (queues d t) = Some e" by (simp add: find_live_dropWhile)
    with Cons show ?thesis by (simp add: take_live_eq find_append)
  qed
qed simp

lemma scan_err_closed:
  assumes "scan now ts d = (r, d')"
  shows "err d' = err d \<and> closed d' = closed d"
  using assms scan_None scan_Some by (cases r) (fastforce simp: shrunk_def)+

text \<open>C15: one pass of \<^verbatim>\<open>WaitFor\<close> (the nested loops over the types and over each queue, with the
  bookkeeping of expired entries) returns what the specification says: the first message that has
  not outlived its lifetime, among the queues in the order requested and each in order of arrival;
  with no such message the reader's error if there is one, otherwise the closed error if the
  dispatcher is closed, otherwise it goes to sleep.\<close>

theorem wait_pass_spec: "fst (wait_pass now ts d) = wait_spec now ts d"
  using scan_first_live [of now ts d] scan_err_closed [of now ts d]
  by (cases "scan now ts d") (auto simp: wait_pass_def wait_spec_def split: option.splits)

section \<open>The invariant of the queues\<close>

text \<open>For one message type: at most ten entries, all of the type, in order of arrival and not from
  the future; what was delivered followed by what is queued is a subsequence of what was received;
  and every message received is delivered, queued or counted by one of the two counters (which are
  64 bit and may wrap).\<close>

definition type_ok ::
    "time \<Rightarrow> MessageType \<Rightarrow> UnifiedMessage list \<Rightarrow> UnifiedMessage list \<Rightarrow> Dispatcher \<Rightarrow> bool" where
  "type_ok c t rcv del d \<longleftrightarrow>
     length (queues d t) \<le> perTypeLimit \<and>
     (\<forall>e \<in> set (queues d t). m_Type (e_msg e) = t \<and> enqueueAt e \<le> c) \<and>
     sorted (map enqueueAt (queues d t)) \<and>
     subseq (del @ map e_msg (queues d t)) rcv \<and>
     of_nat (length rcv) = of_nat (length del) + droppedExpired d t + droppedOverflow d t
                           + of_nat (length (queues d t))"

definition queues_ok :: "dsys \<Rightarrow> bool" where
  "queues_ok s \<longleftrightarrow>
     (\<forall>t. type_ok (clock s) t (received s t) (delivered s t) (disp s)) \<and>
     (\<forall>now m. reader s = R_Enqueue now m \<longrightarrow>
        now \<le> clock s \<and> (\<forall>t. \<forall>e \<in> set (queues (disp s) t). enqueueAt e \<le> now))"

lemma subseq_drop_middle: "subseq (a @ p @ q) r \<Longrightarrow> subseq (a @ q) r"
  by (meson subseq_order.order_trans list_emb_append_mono subseq_order.order_refl subseq_drop_many)

lemma type_ok_mono: "type_ok c t rcv del d \<Longrightarrow> c \<le> c' \<Longrightarrow> type_ok c' t rcv del d"
  by (force simp: type_ok_def)

lemma type_ok_cong:
  "queues d' t = queues d t \<Longrightarrow> droppedExpired d' t = droppedExpired d t \<Longrightarrow>
   droppedOverflow d' t = droppedOverflow d t \<Longrightarrow> type_ok c t rcv del d' = type_ok c t rcv del d"
  by (simp add: type_ok_def)

lemma type_ok_shrunk:
  assumes "type_ok c t rcv del d" and "shrunk now d d'"
  shows "type_ok c t rcv del d'"
proof -
  obtain p where "queues d t = p @ queues d' t"
    "droppedExpired d' t = droppedExpired d t + of_nat (length p)" "droppedOverflow d' = droppedOverflow d"
    using assms(2) unfolding shrunk_def by meson
  with assms(1) show ?thesis
    by (auto simp: type_ok_def sorted_append algebra_simps dest: subseq_drop_middle)
qed

lemma type_ok_pop:
  assumes "type_ok c t rcv del d" and "queues d t = e # q"
  shows "type_ok c t rcv (del @ [e_msg e]) (d\<lparr>queues := (queues d)(t := q)\<rparr>)"
  using assms by (auto simp: type_ok_def algebra_simps)

lemma subseq_append1: "subseq a r \<Longrightarrow> subseq (a @ [m]) (r @ [m])"
  by (simp add: list_emb_append_mono)

lemma type_ok_enqueue:
  assumes ok: "type_ok c (m_Type m) rcv del d" and now: "now \<le> c"
    and past: "\<forall>e \<in> set (queues d (m_Type m)). enqueueAt e \<le> now"
  shows "type_ok c (m_Type m) (rcv @ [m]) del (enqueue now m d)"
proof -
  define t where "t = m_Type m"
  define p where "p = takeWhile (expired now) (queues d t)"
  define q where "q = dropWhile (expired now) (queues d t)"
  have split: "queues d t = p @ q" by (simp add: p_def q_def)
  have q: "length q \<le> perTypeLimit" "\<forall>e \<in> set q. m_Type (e_msg e) = t \<and> enqueueAt e \<le> now"
    "sorted (map enqueueAt q)" "subseq (del @ map e_msg q) rcv"
    "of_nat (length rcv) = of_nat (length del) + (droppedExpired d t + of_nat (length p)) + droppedOverflow d t
                           + of_nat (length q)"
    using ok past split unfolding type_ok_def t_def [symmetric]
    by (auto simp: sorted_append algebra_simps dest: subseq_drop_middle)
  have tl_q: "subseq (del @ map e_msg (tl q)) rcv"
    using q(4) subseq_drop_middle [of del "[e_msg (hd q)]" "map e_msg (tl q)" rcv] by (cases q) auto
  have sub: "subseq (del @ map e_msg q @ [m]) (rcv @ [m])" "subseq (del @ map e_msg (tl q) @ [m]) (rcv @ [m])"
    using subseq_append1 [OF q(4), of m] subseq_append1 [OF tl_q, of m] by simp_all
  show ?thesis
    using q sub now
    by (cases q) (auto simp: enqueue_def Let_def prune_eq type_ok_def t_def [symmetric] p_def [symmetric]
          q_def [symmetric] sorted_append perTypeLimit_def algebra_simps)
qed

lemma enqueue_other:
  "t \<noteq> m_Type m \<Longrightarrow> queues (enqueue now m d) t = queues d t \<and>
     droppedExpired (enqueue now m d) t = droppedExpired d t \<and>
     droppedOverflow (enqueue now m d) t = droppedOverflow d t"
  by (simp add: enqueue_def Let_def split_beta)


lemma queues_ok_init: "queues_ok dsys_init"
  by (simp add: queues_ok_def type_ok_def dsys_init_def NewDispatcher_def)

lemma queues_ok_shrink:
  assumes "queues_ok s" and "shrunk now (disp s) d"
  shows "queues_ok (s\<lparr>disp := d, waiters := w\<rparr>)"
proof -
  have "set (queues d t) \<subseteq> set (queues (disp s) t)" for t
    using assms(2) unfolding shrunk_def by (metis set_append Un_upper2)
  with assms show ?thesis by (auto simp: queues_ok_def intro: type_ok_shrunk) (meson subsetD)
qed

lemma queues_ok_deliver:
  assumes "queues_ok s" and "wait_pass now ts (disp s) = (Delivered m, d)"
  shows "queues_ok (s\<lparr>disp := d, waiters := w,
           delivered := (delivered s)(m_Type m := delivered s (m_Type m) @ [m])\<rparr>)"
  using assms(2)
proof (cases rule: wait_pass_Delivered)
  case (1 e t d1 q)
  have ok: "queues_ok (s\<lparr>disp := d1, waiters := w\<rparr>)" by (rule queues_ok_shrink [OF assms(1) 1(3)])
  then have "m_Type m = t" using 1 by (auto simp: queues_ok_def type_ok_def)
  moreover have "type_ok (clock s) t (received s t) (delivered s t @ [m]) d"
    using ok 1 type_ok_pop [of "clock s" t "received s t" "delivered s t" d1 e q]
    by (simp add: queues_ok_def)
  moreover have "type_ok c t' r l d = type_ok c t' r l d1" if "t' \<noteq> t" for c t' r l
    using that 1(6) by (simp add: type_ok_def)
  moreover have "set (queues d t') \<subseteq> set (queues d1 t')" for t' using 1 by auto
  ultimately show ?thesis
    using ok by (auto simp: queues_ok_def) (meson subsetD)
qed

lemma queues_ok_enqueue:
  assumes "queues_ok s" and "reader s = R_Enqueue now m"
  shows "queues_ok (s\<lparr>disp := enqueue now m (disp s), reader := R_Broadcast False,
           received := (received s)(m_Type m := received s (m_Type m) @ [m])\<rparr>)"
  using assms type_ok_enqueue [of "clock s" m "received s (m_Type m)" "delivered s (m_Type m)" "disp s" now]
  by (auto simp: queues_ok_def type_ok_cong [OF enqueue_other [THEN conjunct1]
        enqueue_other [THEN conjunct2, THEN conjunct1] enqueue_other [THEN conjunct2, THEN conjunct2]])

lemma queues_ok_same:
  assumes "queues_ok s" and "received s' = received s" and "delivered s' = delivered s"
    and "clock s \<le> clock s'" and "queues (disp s') = queues (disp s)"
    and "droppedExpired (disp s') = droppedExpired (disp s)"
    and "droppedOverflow (disp s') = droppedOverflow (disp s)"
    and "\<And>now m. reader s' = R_Enqueue now m \<Longrightarrow> reader s = R_Enqueue now m \<or> now = clock s"
  shows "queues_ok s'"
  using assms(1) type_ok_mono [OF _ assms(4)] assms(2-)
  unfolding queues_ok_def
  by (auto simp: type_ok_cong [of "disp s'" _ "disp s"] intro: type_ok_mono)
     (fastforce simp: type_ok_def)+

lemma queues_ok_step: "dstep W s s' \<Longrightarrow> queues_ok s \<Longrightarrow> queues_ok s'"
proof (induction rule: dstep.induct)
  case (w_fail s i ts e d)
  then show ?case using wait_pass_Failed queues_ok_shrink by blast
next
  case (w_block s i ts d)
  then show ?case using wait_pass_MustWait queues_ok_shrink by blast
next
  case (w_deliver s i ts m d)
  then show ?case by (intro queues_ok_deliver)
next
  case (rd_enqueue s now m)
  then show ?case by (intro queues_ok_enqueue)
qed (erule queues_ok_same; simp add: broadcast_def set_closed_def record_error_def split: if_splits)+

lemma dreach_queues_ok: "dreach W s \<Longrightarrow> queues_ok s"
  by (induction rule: dreach_induct) (auto intro: queues_ok_init queues_ok_step)

text \<open>C11: in every reachable state of the dispatcher, whatever the number of callers and the
  interleaving, each queue holds at most ten messages, all of its own type and in order of arrival;
  callers received the messages of a type in the order of arrival, without duplicates and without
  inventions (what was delivered followed by what is queued is a subsequence of what came in); and
  every message that came in was delivered, is queued, or was counted as expired or overflowed.\<close>

theorem dispatcher_queues:
  assumes "dreach W s"
  shows "length (queues (disp s) t) \<le> 10 \<and>
    (\<forall>e \<in> set (queues (disp s) t). m_Type (e_msg e) = t) \<and>
    sorted (map enqueueAt (queues (disp s) t)) \<and>
    subseq (delivered s t @ map e_msg (queues (disp s) t)) (received s t) \<and>
    of_nat (length (received s t)) =
      of_nat (length (delivered s t)) + droppedExpired (disp s) t + droppedOverflow (disp s) t
      + of_nat (length (queues (disp s) t))"
  using dreach_queues_ok [OF assms] by (simp add: queues_ok_def type_ok_def perTypeLimit_def)


text \<open>A run used in the examples: two callers wait for different types, a message for the first
  arrives, and the wake-up goes to the second, which finds nothing and sleeps again.\<close>

definition beat :: UnifiedMessage where
  "beat = zero_message\<lparr>m_Type := HEARTBEAT\<rparr>"

definition two_asleep :: dsys where
  "two_asleep = dsys_init\<lparr>disp := NewDispatcher\<lparr>started := True\<rparr>, reader := R_Receive,
     waiters := [0 \<mapsto> W_Select [HEARTBEAT], 1 \<mapsto> W_Select [AUTH_RESPONSE]]\<rparr>"

definition beat_queued :: dsys where
  "beat_queued = two_asleep\<lparr>disp := enqueue 0 beat (NewDispatcher\<lparr>started := True\<rparr>),
     received := (\<lambda>_. [])(HEARTBEAT := [beat])\<rparr>"

lemma wait_pass_empty:
  "wait_pass now [t] d = (MustWait, d)" if "queues d t = []" "err d = None" "\<not> closed d"
  using that fun_upd_triv [of "queues d" t] by (cases d) (simp add: wait_pass_def)

lemma two_asleep_reach: "dreach {0, 1} two_asleep"
proof -
  let ?d = "NewDispatcher\<lparr>started := True\<rparr>"
  let ?W = "{0, 1} :: nat set"
  define s1 where "s1 = dsys_init\<lparr>disp := ?d, reader := R_Receive\<rparr>"
  have d: "queues ?d t = []" "err ?d = None" "\<not> closed ?d" for t by (simp_all add: NewDispatcher_def)
  have "dstep ?W dsys_init (dsys_init\<lparr>disp := ?d, reader := R_Top\<rparr>)"
    using dstep.start [of dsys_init ?W] by (simp add: dsys_init_def NewDispatcher_def)
  moreover have "dstep ?W (dsys_init\<lparr>disp := ?d, reader := R_Top\<rparr>) s1"
    using dstep.rd_continue [of "dsys_init\<lparr>disp := ?d, reader := R_Top\<rparr>" ?W] d(3)
    by (simp add: s1_def IsClosed_def)
  ultimately have "dreach ?W s1" using dreach_init dreach_step by metis
  moreover have "dstep ?W s1 (s1\<lparr>waiters := [0 \<mapsto> W_Scan [HEARTBEAT]]\<rparr>)"
    using dstep.w_call [of 0 ?W s1 "[HEARTBEAT]"] by (simp add: s1_def dsys_init_def)
  moreover have "dstep ?W (s1\<lparr>waiters := [0 \<mapsto> W_Scan [HEARTBEAT]]\<rparr>)
      (s1\<lparr>waiters := [0 \<mapsto> W_Select [HEARTBEAT]]\<rparr>)"
    using dstep.w_block [of "s1\<lparr>waiters := [0 \<mapsto> W_Scan [HEARTBEAT]]\<rparr>" 0 "[HEARTBEAT]" ?d ?W] wait_pass_empty [OF d]
    by (simp add: s1_def dsys_init_def)
  moreover have "dstep ?W (s1\<lparr>waiters := [0 \<mapsto> W_Select [HEARTBEAT]]\<rparr>)
      (s1\<lparr>waiters := [0 \<mapsto> W_Select [HEARTBEAT], 1 \<mapsto> W_Scan [AUTH_RESPONSE]]\<rparr>)"
    using dstep.w_call [of 1 ?W "s1\<lparr>waiters := [0 \<mapsto> W_Select [HEARTBEAT]]\<rparr>" "[AUTH_RESPONSE]"]
    by (simp add: s1_def)
  moreover have "dstep ?W (s1\<lparr>waiters := [0 \<mapsto> W_Select [HEARTBEAT], 1 \<mapsto> W_Scan [AUTH_RESPONSE]]\<rparr>) two_asleep"
    using dstep.w_block [of "s1\<lparr>waiters := [0 \<mapsto> W_Select [HEARTBEAT], 1 \<mapsto> W_Scan [AUTH_RESPONSE]]\<rparr>" 1
        "[AUTH_RESPONSE]" ?d ?W] wait_pass_empty [OF d]
    by (simp add: s1_def two_asleep_def dsys_init_def)
  ultimately show ?thesis by (metis dreach_step)
qed

lemma wrong_waiter_woken:
  assumes "dreach W s" and w: "waiters s 1 = Some (W_Select ts)" and n: "notify (disp s)"
    and p: "wait_pass (clock s) ts ((disp s)\<lparr>notify := False\<rparr>) = (MustWait, (disp s)\<lparr>notify := False\<rparr>)"
  shows "dreach W (s\<lparr>disp := (disp s)\<lparr>notify := False\<rparr>\<rparr>)"
proof -
  let ?s = "s\<lparr>disp := (disp s)\<lparr>notify := False\<rparr>, waiters := (waiters s)(1 \<mapsto> W_Scan ts)\<rparr>"
  have "dreach W ?s" using dreach_step [OF assms(1) dstep.w_wake [OF w n]] .
  then have "dreach W (?s\<lparr>disp := (disp s)\<lparr>notify := False\<rparr>, waiters := (waiters ?s)(1 \<mapsto> W_Select ts)\<rparr>)"
    using dreach_step dstep.w_block [of ?s 1 ts] p by simp
  moreover have "(waiters ?s)(1 \<mapsto> W_Select ts) = waiters s" using w by auto
  ultimately show ?thesis by simp
qed

lemma beat_queued_reach: "dreach {0, 1} beat_queued"
proof -
  let ?d = "NewDispatcher\<lparr>started := True\<rparr>"
  let ?W = "{0, 1} :: nat set"
  let ?q = "enqueue 0 beat ?d"
  have T: "reader two_asleep = R_Receive" "disp two_asleep = ?d" "clock two_asleep = 0"
    "received two_asleep = (\<lambda>_. [])" by (simp_all add: two_asleep_def dsys_init_def)
  have q: "queues ?q AUTH_RESPONSE = []" "err ?q = None" "\<not> closed ?q" "notify ?q = False"
    by (simp_all add: enqueue_def Let_def NewDispatcher_def beat_def zero_message_def)
  define s1 where "s1 = two_asleep\<lparr>reader := R_Enqueue 0 beat\<rparr>"
  define s2 where "s2 = two_asleep\<lparr>disp := ?q, reader := R_Broadcast False,
      received := (\<lambda>_. [])(HEARTBEAT := [beat])\<rparr>"
  define s3 where "s3 = s2\<lparr>disp := broadcast ?q, reader := R_Top\<rparr>"
  have "dreach ?W s1"
    using dreach_step [OF two_asleep_reach dstep.rd_message [OF T(1)]] T by (simp add: s1_def)
  then have "dreach ?W s2"
    using dreach_step dstep.rd_enqueue [of s1 0 beat ?W] T
    by (auto simp: s1_def s2_def beat_def zero_message_def)
  then have "dreach ?W s3"
    using dreach_step dstep.rd_broadcast [of s2 False ?W] by (auto simp: s2_def s3_def)
  then have "dreach ?W (s3\<lparr>reader := R_Receive\<rparr>)"
    using dreach_step dstep.rd_continue [of s3 ?W] q by (auto simp: s3_def IsClosed_def broadcast_def)
  then have "dreach ?W (s3\<lparr>reader := R_Receive, disp := (broadcast ?q)\<lparr>notify := False\<rparr>\<rparr>)"
    using wrong_waiter_woken [of ?W "s3\<lparr>reader := R_Receive\<rparr>" "[AUTH_RESPONSE]"] q
    by (simp add: s3_def s2_def two_asleep_def broadcast_def wait_pass_empty)
  moreover have "s3\<lparr>reader := R_Receive, disp := (broadcast ?q)\<lparr>notify := False\<rparr>\<rparr> = beat_queued"
    using q by (simp add: s3_def s2_def beat_queued_def two_asleep_def broadcast_def)
  ultimately show ?thesis by simp
qed

theorem dispatcher_queues_witness:
  "dreach {0, 1} beat_queued \<and> subseq [beat] (received beat_queued HEARTBEAT)"
  using dispatcher_queues [OF beat_queued_reach, of HEARTBEAT] beat_queued_reach
  by (simp add: beat_queued_def two_asleep_def dsys_init_def enqueue_def Let_def NewDispatcher_def beat_def
      perTypeLimit_def zero_message_def)

section \<open>Waking up\<close>

text \<open>There is something for a caller asking for \<open>ts\<close> to return.\<close>

definition work_for :: "MessageType list \<Rightarrow> Dispatcher \<Rightarrow> bool" where
  "work_for ts d \<longleftrightarrow> (\<exists>t \<in> set ts. queues d t \<noteq> []) \<or> err d \<noteq> None \<or> closed d"

definition signal_pending :: "dsys \<Rightarrow> bool" where
  "signal_pending s \<longleftrightarrow> notify (disp s) \<or> (\<exists>b. reader s = R_Broadcast b) \<or> closers s > 0"

definition lone_ok :: "dsys \<Rightarrow> bool" where
  "lone_ok s \<longleftrightarrow> dom (waiters s) \<subseteq> {0} \<and> (\<not> started (disp s) \<longrightarrow> reader s = R_Off) \<and>
     (\<forall>ts. waiters s 0 = Some (W_Select ts) \<longrightarrow> work_for ts (disp s) \<longrightarrow> signal_pending s)"

lemma enqueue_started [simp]: "started (enqueue now m d) = started d"
  by (simp add: enqueue_def Let_def split_beta)

lemma record_error_started [simp]: "started (record_error e d) = started d"
  by (simp add: record_error_def)

lemma wait_pass_started:
  assumes "wait_pass now ts d = (r, d')"
  shows "started d' = started d"
proof (cases r)
  case (Delivered m)
  with assms show ?thesis by (auto elim!: wait_pass_Delivered simp: shrunk_def)
qed (use assms wait_pass_Failed wait_pass_MustWait in \<open>auto simp: shrunk_def\<close>)

lemma lone_ok_step: "dstep {0} s s' \<Longrightarrow> lone_ok s \<Longrightarrow> lone_ok s'"
proof (induction rule: dstep.induct)
  case (w_block s i ts d)
  then show ?case using wait_pass_MustWait [OF w_block(2)] wait_pass_started [OF w_block(2)]
    by (auto simp: lone_ok_def work_for_def)
next
  case (rd_error s e)
  then show ?case by (auto simp: lone_ok_def signal_pending_def)
next
  case (rd_enqueue s now m)
  then show ?case by (auto simp: lone_ok_def signal_pending_def)
qed (auto simp: lone_ok_def signal_pending_def work_for_def broadcast_def set_closed_def
        dest!: wait_pass_started split: if_splits)

lemma dreach_lone_ok: "dreach {0} s \<Longrightarrow> lone_ok s"
proof (induction rule: dreach_induct)
  case init
  show ?case by (simp add: lone_ok_def dsys_init_def)
next
  case (step s t)
  then show ?case by (blast intro: lone_ok_step)
qed

text \<open>C18: with one caller at a time there is no lost wake-up. Whenever the caller sleeps in
  \<^verbatim>\<open>WaitFor\<close> while a message it asked for is queued, or the reader failed, or the dispatcher was
  closed, a signal is in the channel or a broadcast is still to come.\<close>

theorem no_lost_wakeup:
  assumes "dreach {0} s" and "waiters s 0 = Some (W_Select ts)" and "work_for ts (disp s)"
  shows "signal_pending s"
  using dreach_lone_ok [OF assms(1)] assms(2,3) by (simp add: lone_ok_def)

definition lone_asleep :: dsys where
  "lone_asleep = dsys_init\<lparr>disp := NewDispatcher\<lparr>closed := True\<rparr>, closers := 1,
     waiters := [0 \<mapsto> W_Select [HEARTBEAT]]\<rparr>"

lemma lone_asleep_reach: "dreach {0} lone_asleep"
proof -
  let ?s1 = "dsys_init\<lparr>waiters := [0 \<mapsto> W_Scan [HEARTBEAT]]\<rparr>"
  let ?s2 = "dsys_init\<lparr>waiters := [0 \<mapsto> W_Select [HEARTBEAT]]\<rparr>"
  have "dreach {0} ?s1"
    using dreach_step [OF dreach_init dstep.w_call [of 0 "{0}" dsys_init "[HEARTBEAT]"]]
    by (simp add: dsys_init_def)
  moreover have "dstep {0} ?s1 ?s2"
    using dstep.w_block [of ?s1 0 "[HEARTBEAT]" NewDispatcher "{0}"]
      wait_pass_empty [of NewDispatcher HEARTBEAT]
    by (simp add: dsys_init_def NewDispatcher_def)
  ultimately have "dreach {0} ?s2" by (rule dreach_step)
  from dreach_step [OF this dstep.close] show ?thesis
    by (simp add: lone_asleep_def dsys_init_def set_closed_def NewDispatcher_def)
qed

theorem no_lost_wakeup_witness:
  "waiters lone_asleep 0 = Some (W_Select [HEARTBEAT]) \<and> signal_pending lone_asleep"
  using no_lost_wakeup [OF lone_asleep_reach, of "[HEARTBEAT]"]
  by (simp add: lone_asleep_def work_for_def)

text \<open>With two callers waiting for different types a wake-up can be lost: there is a reachable
  state in which a message waits in the queue of a sleeping caller, with no signal in the channel and
  no broadcast on its way, because the one signal went to the other caller.\<close>

theorem two_waiters_lost_wakeup:
  "\<exists>s ts. dreach {0, 1} s \<and> waiters s 0 = Some (W_Select ts) \<and>
     wait_spec (clock s) ts (disp s) = Delivered beat \<and> \<not> signal_pending s"
proof (intro exI conjI)
  show "dreach {0, 1} beat_queued" by (rule beat_queued_reach)
  show "waiters beat_queued 0 = Some (W_Select [HEARTBEAT])"
    by (simp add: beat_queued_def two_asleep_def)
  show "\<not> signal_pending beat_queued"
    by (simp add: signal_pending_def beat_queued_def two_asleep_def dsys_init_def enqueue_def Let_def
        split_beta NewDispatcher_def)
  show "wait_spec (clock beat_queued) [HEARTBEAT] (disp beat_queued) = Delivered beat"
    by (simp add: wait_spec_def beat_queued_def two_asleep_def dsys_init_def enqueue_def Let_def
        NewDispatcher_def beat_def zero_message_def perTypeLimit_def expired_def effective_ttl_def
        time_sub_def)
qed

text \<open>\<^verbatim>\<open>Close\<close> wakes one of the callers that sleep, not all of them: there is a reachable state in
  which the dispatcher is closed, every broadcast was sent and consumed, and a caller sleeps.\<close>

theorem close_leaves_waiter_asleep:
  "\<exists>s ts. dreach {0, 1} s \<and> IsClosed (disp s) \<and> waiters s 0 = Some (W_Select ts) \<and>
     waiters s 1 = Some (W_Returned (Inl (Errorf ''dispatcher closed'' []))) \<and> \<not> signal_pending s"
proof -
  let ?W = "{0, 1} :: nat set"
  let ?e = "Errorf ''dispatcher closed'' []"
  let ?d = "NewDispatcher\<lparr>started := True, closed := True\<rparr>"
  define s1 where "s1 = two_asleep\<lparr>disp := ?d, closers := 1\<rparr>"
  define s2 where "s2 = two_asleep\<lparr>disp := ?d\<lparr>notify := True\<rparr>\<rparr>"
  define s3 where "s3 = two_asleep\<lparr>disp := ?d,
      waiters := (waiters two_asleep)(1 \<mapsto> W_Scan [AUTH_RESPONSE])\<rparr>"
  define s4 where "s4 = two_asleep\<lparr>disp := ?d, waiters := (waiters two_asleep)(1 \<mapsto> W_Returned (Inl ?e))\<rparr>"
  have "dreach ?W s1"
    using dreach_step [OF two_asleep_reach dstep.close]
    by (simp add: s1_def two_asleep_def dsys_init_def set_closed_def NewDispatcher_def)
  then have "dreach ?W s2"
    using dreach_step dstep.close_broadcast [of s1 ?W]
    by (auto simp: s1_def s2_def two_asleep_def dsys_init_def broadcast_def NewDispatcher_def)
  then have "dreach ?W s3"
    using dreach_step dstep.w_wake [of s2 1 "[AUTH_RESPONSE]" ?W]
    by (auto simp: s3_def s2_def two_asleep_def dsys_init_def NewDispatcher_def)
  moreover have "wait_pass 0 [AUTH_RESPONSE] ?d = (Failed ?e, ?d)"
    by (simp add: wait_pass_def NewDispatcher_def fun_eq_iff)
  ultimately have "dreach ?W s4"
    using dreach_step dstep.w_fail [of s3 1 "[AUTH_RESPONSE]" ?e ?d ?W]
    by (auto simp: s3_def s4_def two_asleep_def dsys_init_def)
  then show ?thesis
    by (intro exI [of _ s4] exI [of _ "[HEARTBEAT]"])
      (simp add: s4_def two_asleep_def dsys_init_def IsClosed_def signal_pending_def NewDispatcher_def)
qed
end
