(* ===== verification/F2P_Terminal.thy ===== *)
theory F2P_Terminal
  imports F2P_Prelude
begin

text \<open>
  Package \<^verbatim>\<open>internal/terminal\<close>. What arrives on standard input and the signals are a list of events
  in the order in which the program sees them; an interactive function consumes events and returns,
  ends the process, or (\<open>None\<close>) is still waiting for the next event. The lemmas show that a
  question is answered by the first recognised answer, whatever was typed before it.
\<close>

text \<open>\<open>Line s\<close> is a line without its newline; \<open>ReadErr\<close> a read that failed.\<close>

datatype input_event = Line string | ReadErr error | Signal

datatype 'a outcome = Return 'a | Exit int | Killed

type_synonym 'a console = "input_event list \<Rightarrow> ('a outcome \<times> input_event list) option"

definition console_return :: "'a \<Rightarrow> 'a console" where
  "console_return x evs = Some (Return x, evs)"

definition console_exit :: "int \<Rightarrow> 'a console" where
  "console_exit n evs = Some (Exit n, evs)"

definition console_bind :: "'a console \<Rightarrow> ('a \<Rightarrow> 'b console) \<Rightarrow> 'b console" where
  "console_bind m f evs =
     (case m evs of
        None \<Rightarrow> None
      | Some (Return x, evs') \<Rightarrow> f x evs'
      | Some (Exit n, evs') \<Rightarrow> Some (Exit n, evs')
      | Some (Killed, evs') \<Rightarrow> Some (Killed, evs'))"

text \<open>After a signal the functions still wait for their reading goroutine before they exit.\<close>

fun exit_after_read :: "'a console" where
  "exit_after_read [] = None"
| "exit_after_read (Signal # evs) = exit_after_read evs"
| "exit_after_read (_ # evs) = Some (Exit 1, evs)"

fun AskYesNo :: "bool console" where
  "AskYesNo [] = None"
| "AskYesNo (Line s # evs) =
     (let response = ToLower (TrimSpace (s @ [CHR 0x0A]))
      in if response = ''y'' \<or> response = ''yes'' then Some (Return True, evs)
         else if response = ''n'' \<or> response = ''no'' then Some (Return False, evs)
         else AskYesNo evs)"
| "AskYesNo (ReadErr _ # evs) = Some (Exit 1, evs)"
| "AskYesNo (Signal # evs) = exit_after_read evs"

text \<open>On a terminal an interrupt is reported as an error; without one no handler is installed and a
  signal ends the process.\<close>

fun AskPassword :: "bool \<Rightarrow> (error + string) console" where
  "AskPassword isTerminal [] = None"
| "AskPassword isTerminal (Line s # evs) =
     Some (Return (Inr (if isTerminal then s else TrimSpace (s @ [CHR 0x0A]))), evs)"
| "AskPassword isTerminal (ReadErr e # evs) = Some (Return (Inl e), evs)"
| "AskPassword isTerminal (Signal # evs) =
     (if isTerminal then Some (Return (Inl ErrPasswordInterrupted), evs) else Some (Killed, evs))"

lemma console_bind_Return:
  "console_bind m f evs = Some (Return y, evs') \<longleftrightarrow>
     (\<exists>x evs1. m evs = Some (Return x, evs1) \<and> f x evs1 = Some (Return y, evs'))"
  by (auto simp: console_bind_def split: option.splits outcome.splits)

lemma exit_after_read_length: "exit_after_read evs = Some (r, evs') \<Longrightarrow> length evs' < length evs"
  by (induction evs rule: exit_after_read.induct) auto

lemma exit_after_read_Return: "exit_after_read evs \<noteq> Some (Return x, evs')"
  by (induction evs rule: exit_after_read.induct) auto

lemma AskYesNo_length: "AskYesNo evs = Some (r, evs') \<Longrightarrow> length evs' < length evs"
  by (induction evs rule: AskYesNo.induct)
    (auto simp: Let_def split: if_splits dest: exit_after_read_length)

definition yes_no :: "string \<Rightarrow> bool option" where
  "yes_no s =
     (let r = ToLower (TrimSpace (s @ [CHR 0x0A]))
      in if r = ''y'' \<or> r = ''yes'' then Some True
         else if r = ''n'' \<or> r = ''no'' then Some False else None)"

lemma AskYesNo_first_answer:
  assumes "\<forall>l \<in> set ls. yes_no l = None" and "yes_no s = Some b"
  shows "AskYesNo (map Line ls @ Line s # evs) = Some (Return b, evs)"
  using assms(1)
proof (induction ls)
  case Nil
  then show ?case using assms(2) by (auto simp: yes_no_def Let_def split: if_splits)
next
  case (Cons l ls)
  then show ?case by (auto simp: yes_no_def Let_def split: if_splits)
qed

end
