(* ===== verification/F2P_Base64.thy ===== *)
theory F2P_Base64
  imports F2P_Prelude
begin

text \<open>
  \<^verbatim>\<open>base64.StdEncoding\<close> of the Go standard library, in which the private key is kept in the
  configuration file. The lemma of the theory is that decoding undoes encoding.
\<close>

definition b64_alphabet :: string where
  "b64_alphabet = ''ABCDEFGHIJKLMNOPQRSTUVWXYZabcdefghijklmnopqrstuvwxyz0123456789+/''"

definition b64_char :: "nat \<Rightarrow> char" where
  "b64_char n = b64_alphabet ! n"

fun index_of :: "'a list \<Rightarrow> 'a \<Rightarrow> nat option" where
  "index_of [] c = None"
| "index_of (x # xs) c = (if x = c then Some 0 else map_option Suc (index_of xs c))"

definition b64_value :: "char \<Rightarrow> nat option" where
  "b64_value c = index_of b64_alphabet c"

text \<open>Three bytes are four digits of six bits; a shorter last group is padded.\<close>

fun EncodeToString :: "bytes \<Rightarrow> string" where
  "EncodeToString [] = []"
| "EncodeToString [a] =
     (let n = unat a * 16
      in [b64_char (n div 64), b64_char (n mod 64), CHR ''='', CHR ''=''])"
| "EncodeToString [a, b] =
     (let n = (unat a * 256 + unat b) * 4
      in [b64_char (n div 4096), b64_char (n div 64 mod 64), b64_char (n mod 64), CHR ''=''])"
| "EncodeToString (a # b # c # rest) =
     (let n = unat a * 65536 + unat b * 256 + unat c
      in [b64_char (n div 262144), b64_char (n div 4096 mod 64), b64_char (n div 64 mod 64),
          b64_char (n mod 64)] @ EncodeToString rest)"

text \<open>The decoder skips line ends, wants groups of four and accepts padding only at the end; unused
  bits of a padded group are ignored. \<open>None\<close> is a \<^verbatim>\<open>CorruptInputError\<close>.\<close>

fun decode_quads :: "string \<Rightarrow> bytes option" where
  "decode_quads [] = Some []"
| "decode_quads (w # x # y # z # rest) =
     (case (b64_value w, b64_value x) of
        (Some p, Some q) \<Rightarrow>
          if y = CHR ''='' then
            (if z = CHR ''='' \<and> rest = [] then Some [of_nat ((p * 64 + q) div 16)] else None)
          else (case b64_value y of
             None \<Rightarrow> None
           | Some r \<Rightarrow>
               if z = CHR ''='' then
                 (if rest = [] then
                    (let n = ((p * 64 + q) * 64 + r) div 4 in Some [of_nat (n div 256), of_nat n])
                  else None)
               else (case b64_value z of
                  None \<Rightarrow> None
                | Some s \<Rightarrow>
                    let n = ((p * 64 + q) * 64 + r) * 64 + s
                    in map_option ((@) [of_nat (n div 65536), of_nat (n div 256), of_nat n])
                         (decode_quads rest)))
      | _ \<Rightarrow> None)"
| "decode_quads _ = None"

definition DecodeString :: "string \<Rightarrow> error + bytes" where
  "DecodeString s =
     (case decode_quads (filter (\<lambda>c. c \<noteq> CHR 0x0A \<and> c \<noteq> CHR 0x0D) s) of
        Some bs \<Rightarrow> Inr bs
      | None \<Rightarrow> Inl (EnvError ''illegal base64 data''))"

lemma index_of_nth: "distinct xs \<Longrightarrow> i < length xs \<Longrightarrow> index_of xs (xs ! i) = Some i"
  by (induction xs arbitrary: i) (auto simp: nth_Cons split: nat.split)

lemma length_b64_alphabet: "length b64_alphabet = 64"
  by (simp add: b64_alphabet_def)

lemma distinct_b64_alphabet: "distinct b64_alphabet"
  by (simp add: b64_alphabet_def)

lemma b64_value_char [simp]: "n < 64 \<Longrightarrow> b64_value (b64_char n) = Some n"
  by (simp add: b64_value_def b64_char_def index_of_nth distinct_b64_alphabet length_b64_alphabet)

lemma b64_alphabet_plain:
  "c \<in> set b64_alphabet \<Longrightarrow> c \<noteq> CHR ''='' \<and> c \<noteq> CHR 0x0A \<and> c \<noteq> CHR 0x0D"
  by (auto simp: b64_alphabet_def)

lemma b64_char_plain [simp]:
  assumes "n < 64"
  shows "b64_char n \<noteq> CHR ''=''" and "b64_char n \<noteq> CHR 0x0A" and "b64_char n \<noteq> CHR 0x0D"
  using b64_alphabet_plain [of "b64_char n"] assms nth_mem [of n b64_alphabet]
  by (simp_all add: b64_char_def length_b64_alphabet)

lemma byte_lt [simp]: "unat (a :: byte) < 256"
  using unsigned_less [of a] by simp

lemma byte_le: "unat (a :: byte) \<le> 255"
  using byte_lt [of a] by (simp only: less_Suc_eq_le [symmetric])

lemma div_mod_256:
  "y < 256 \<Longrightarrow> (x * 256 + y) div 256 = x" "y < 256 \<Longrightarrow> (x * 256 + y) mod 256 = y" for y :: nat
  by simp_all

lemma of_nat_byte: "m mod 256 = unat (a :: byte) \<Longrightarrow> of_nat m = a"
  by (rule word_eq_iff_unsigned [where 'a = nat, THEN iffD2]) (simp add: unsigned_of_nat take_bit_eq_mod)

text \<open>The digits of a group put together again.\<close>

lemma digits2: "(n div 64 * 64 + n mod 64 :: nat) = n"
  by simp

lemma digits3: "((n div 4096 * 64 + n div 64 mod 64) * 64 + n mod 64 :: nat) = n"
  using div_mult2_eq [of n 64 64] digits2 [of "n div 64"] digits2 [of n] by simp

lemma digits4:
  "(((n div 262144 * 64 + n div 4096 mod 64) * 64 + n div 64 mod 64) * 64 + n mod 64 :: nat) = n"
  using div_mult2_eq [of n 64 4096] div_mult2_eq [of n 64 64] digits3 [of "n div 64"] digits2 [of n]
  by simp

lemma top_digit3: "(unat (a :: byte) * 256 + unat (b :: byte)) * 4 div 4096 < 64"
proof (rule less_mult_imp_div_less)
  show "(unat a * 256 + unat b) * 4 < 64 * 4096"
    using byte_le [of a] byte_le [of b] by presburger
qed

lemma decode_quad:
  "p < 64 \<Longrightarrow> q < 64 \<Longrightarrow> r < 64 \<Longrightarrow> s < 64 \<Longrightarrow> ((p * 64 + q) * 64 + r) * 64 + s = n \<Longrightarrow>
   decode_quads ([b64_char p, b64_char q, b64_char r, b64_char s] @ rest) =
     map_option ((@) [of_nat (n div 65536), of_nat (n div 256), of_nat n]) (decode_quads rest)"
  by (auto simp: Let_def)

lemma decode_encode_quads: "decode_quads (EncodeToString bs) = Some bs"
proof (induction bs rule: EncodeToString.induct)
  case (2 a)
  define n where "n = unat a * 16"
  have "n div 64 < 64" using byte_lt [of a] unfolding n_def by linarith
  moreover have "of_nat (n div 16) = a" by (simp add: n_def)
  ultimately show ?case
    by (simp add: Let_def n_def [symmetric] digits2 del: div_mult_self1 div_mult_mult1_if)
next
  case (3 a b)
  define n where "n = (unat a * 256 + unat b) * 4"
  have "n div 4096 < 64" unfolding n_def by (rule top_digit3)
  moreover have "of_nat (n div 4 div 256) = a" "of_nat (n div 4) = b"
    by (rule of_nat_byte; simp add: n_def)+
  ultimately show ?case using digits3 [of n]
    by (simp only: EncodeToString.simps Let_def n_def [symmetric]) (simp add: Let_def)
next
  case (4 a b c rest)
  define n where "n = unat a * 65536 + unat b * 256 + unat c"
  have top: "n div 262144 < 64"
    using byte_lt [of a] byte_lt [of b] byte_lt [of c] unfolding n_def by linarith
  have n: "n = (unat a * 256 + unat b) * 256 + unat c" by (simp add: n_def)
  then have "n mod 256 = unat c" and d: "n div 256 = unat a * 256 + unat b"
    by (simp_all only: div_mod_256 byte_lt)
  moreover have "n div 65536 = n div 256 div 256" by (simp add: div_mult2_eq [symmetric])
  ultimately have "of_nat (n div 65536) = a"  "of_nat (n div 256) = b" "of_nat n = c"
    by (intro of_nat_byte; simp)+
  then show ?case
    using 4 decode_quad [OF top _ _ _ digits4, of "EncodeToString rest"]
    by (simp only: EncodeToString.simps Let_def n_def [symmetric]) simp
qed simp

lemma Encode_no_newline:
  "filter (\<lambda>c. c \<noteq> CHR 0x0A \<and> c \<noteq> CHR 0x0D) (EncodeToString bs) = EncodeToString bs"
proof (induction bs rule: EncodeToString.induct)
  case (2 a)
  have "unat a * 16 div 64 < 64" using byte_lt [of a] by linarith
  then show ?case by (simp add: Let_def del: div_mult_mult1_if)
next
  case (3 a b)
  show ?case using top_digit3 [of a b] by (simp add: Let_def del: div_mult_mult1_if)
next
  case (4 a b c rest)
  have "(unat a * 65536 + unat b * 256 + unat c) div 262144 < 64"
    using byte_lt [of a] byte_lt [of b] byte_lt [of c] by linarith
  with 4 show ?case by (simp add: Let_def del: div_mult_mult1_if)
qed simp

lemma Decode_Encode [simp]: "DecodeString (EncodeToString bs) = Inr bs"
  by (simp add: DecodeString_def Encode_no_newline decode_encode_quads)

end
