(* ===== verification/F2P_Config.thy ===== *)
theory F2P_Config
  imports F2P_Version F2P_Base64 F2P_Terminal F2P_Compress
begin

text \<open>
  Package \<^verbatim>\<open>internal/config\<close>. The records follow the structs. The TOML library, bcrypt and the key
  functions of libp2p are parameters (\<open>toml_lib\<close>, \<open>bcrypt_lib\<close>, \<open>key_lib\<close>); files are a map from
  paths to contents, and \<open>os_lib\<close> says which file operations fail. The lemmas show that a loaded
  configuration is within its documented ranges and reaches the compressor unchanged, that what
  \<^verbatim>\<open>Save\<close> writes \<^verbatim>\<open>Load\<close> reads back, what \<^verbatim>\<open>ValidateConfig\<close> accepts, what the interactive setup
  writes, and how passwords and keys survive their encodings.
\<close>

section \<open>Data\<close>

record IdentityConfig =
  PrivateKey :: string
  PeerID :: string

record ServiceConfig =
  sc_Name :: string
  sc_Target :: string
  sc_Password :: string
  sc_Protocol :: "string list"
  sc_Enabled :: bool
  sc_Compress :: "bool option"

record ServerConfig =
  PasswordHash :: string
  Compress :: bool
  s_Services :: "ServiceConfig list"

record LocalServiceConfig =
  lc_Name :: string
  lc_Local :: string
  lc_Password :: string
  lc_Protocol :: "string list"
  lc_Enabled :: bool

record ClientConfig =
  ServerID :: string
  c_Services :: "LocalServiceConfig list"

record CommonConfig =
  cc_Protocol :: string
  Listen :: "string list"
  LogLevel :: string
  ZstdLevel :: int
  ZstdMinSizeB :: int
  ZstdChunkSizeKB :: int
  StunServers :: "string list"

record Config =
  IsServer :: bool
  Identity :: IdentityConfig
  Server :: ServerConfig
  Client :: ClientConfig
  Common :: CommonConfig

definition zero_server :: ServerConfig where
  "zero_server = \<lparr>PasswordHash = [], Compress = False, s_Services = []\<rparr>"

definition zero_client :: ClientConfig where
  "zero_client = \<lparr>ServerID = [], c_Services = []\<rparr>"

section \<open>Keys\<close>

record 'k key_lib =
  GenerateEd25519Key :: "error + 'k"
  MarshalPrivateKey :: "'k \<Rightarrow> error + bytes"
  UnmarshalPrivateKey :: "bytes \<Rightarrow> error + 'k"
  IDFromPrivateKey :: "'k \<Rightarrow> error + string"

text \<open>What is documented of the key functions: unmarshalling undoes marshalling, and a peer id and
  a marshalled key are not empty.\<close>

definition key_laws :: "'k key_lib \<Rightarrow> bool" where
  "key_laws K \<longleftrightarrow>
     (\<forall>k bs. MarshalPrivateKey K k = Inr bs \<longrightarrow> bs \<noteq> [] \<and> UnmarshalPrivateKey K bs = Inr k) \<and>
     (\<forall>k p. IDFromPrivateKey K k = Inr p \<longrightarrow> p \<noteq> [])"

definition GeneratePeerIdentity :: "'k key_lib \<Rightarrow> error + (string \<times> string)" where
  "GeneratePeerIdentity K =
     (case GenerateEd25519Key K of
        Inl e \<Rightarrow> Inl (Errorf ''failed to generate private key: %v'' [FErr e])
      | Inr privKey \<Rightarrow>
          (case MarshalPrivateKey K privKey of
             Inl e \<Rightarrow> Inl (Errorf ''failed to marshal private key: %v'' [FErr e])
           | Inr privKeyBytes \<Rightarrow>
               let privKeyB64 = EncodeToString privKeyBytes in
               (case IDFromPrivateKey K privKey of
                  Inl e \<Rightarrow> Inl (Errorf ''failed to generate peer ID: %v'' [FErr e])
                | Inr peerID \<Rightarrow> Inr (privKeyB64, peerID))))"

definition LoadPrivateKeyFromB64 :: "'k key_lib \<Rightarrow> string \<Rightarrow> error + 'k" where
  "LoadPrivateKeyFromB64 K privKeyB64 =
     (case DecodeString privKeyB64 of
        Inl e \<Rightarrow> Inl (Errorf ''failed to decode private key: %v'' [FErr e])
      | Inr privKeyBytes \<Rightarrow>
          (case UnmarshalPrivateKey K privKeyBytes of
             Inl e \<Rightarrow> Inl (Errorf ''failed to unmarshal private key: %v'' [FErr e])
           | Inr privKey \<Rightarrow> Inr privKey))"

section \<open>Loading\<close>

type_synonym files = "string \<rightharpoonup> string"

record os_lib =
  read_error :: "string \<Rightarrow> error option"
  write_error :: "string \<Rightarrow> error option"
  mkdir_error :: "string \<Rightarrow> error option"

definition ReadFile :: "os_lib \<Rightarrow> files \<Rightarrow> string \<Rightarrow> error + string" where
  "ReadFile os fs path =
     (case read_error os path of
        Some e \<Rightarrow> Inl e
      | None \<Rightarrow> (case fs path of Some s \<Rightarrow> Inr s | None \<Rightarrow> Inl (EnvError ''no such file or directory'')))"

definition WriteFile :: "os_lib \<Rightarrow> files \<Rightarrow> string \<Rightarrow> string \<Rightarrow> error option \<times> files" where
  "WriteFile os fs path s =
     (case write_error os path of Some e \<Rightarrow> (Some e, fs) | None \<Rightarrow> (None, fs(path \<mapsto> s)))"

text \<open>The structs that \<^verbatim>\<open>Save\<close> declares for the encoder.\<close>

record ServerServiceForTOML =
  ts_Name :: string
  ts_Target :: string
  ts_Password :: "string option"
  ts_Protocol :: "string list"
  ts_Enabled :: bool
  ts_Compress :: "bool option"

record LocalServiceForTOML =
  tl_Name :: string
  tl_Local :: string
  tl_Password :: "string option"
  tl_Protocol :: "string list"
  tl_Enabled :: bool

datatype toml_doc =
    ServerDoc bool IdentityConfig string bool "ServerServiceForTOML list" CommonConfig
  | ClientDoc bool IdentityConfig string "LocalServiceForTOML list" CommonConfig

text \<open>\<open>toml_decode\<close> gives the decoded struct and the predicate \<^verbatim>\<open>meta.IsDefined\<close>.\<close>

record toml_lib =
  toml_encode :: "toml_doc \<Rightarrow> error + string"
  toml_decode :: "string \<Rightarrow> error + (Config \<times> (string list \<Rightarrow> bool))"

definition defaultMinB :: int where "defaultMinB = 256"
definition defaultChunkKB :: int where "defaultChunkKB = 32"
definition defaultLevel :: int where "defaultLevel = 20"
definition minMinB :: int where "minMinB = 32"
definition maxMinB :: int where "maxMinB = 2048"
definition minChunkKB :: int where "minChunkKB = 8"
definition maxChunkKB :: int where "maxChunkKB = 128"

lemmas load_constants = defaultMinB_def defaultChunkKB_def defaultLevel_def minMinB_def maxMinB_def
  minChunkKB_def maxChunkKB_def

definition Load :: "toml_lib \<Rightarrow> os_lib \<Rightarrow> files \<Rightarrow> string \<Rightarrow> error + Config" where
  "Load T os fs configPath =
     (case ReadFile os fs configPath of
        Inl e \<Rightarrow> Inl e
      | Inr data \<Rightarrow>
          (case toml_decode T data of
             Inl e \<Rightarrow> Inl (Errorf ''failed to parse TOML config: %v'' [FErr e])
           | Inr (cfg0, isDefined) \<Rightarrow>
               let cfg = (if IsServer cfg0 \<and> \<not> isDefined [''server'', ''compress'']
                          then cfg0\<lparr>Server := (Server cfg0)\<lparr>Compress := True\<rparr>\<rparr> else cfg0);
                   minB0 = (if isDefined [''common'', ''zstd_min_size_b'']
                            then ZstdMinSizeB (Common cfg) else defaultMinB);
                   chunkKB0 = (if isDefined [''common'', ''zstd_chunk_size_kb'']
                               then ZstdChunkSizeKB (Common cfg) else defaultChunkKB);
                   level0 = (if isDefined [''common'', ''zstd_level'']
                             then ZstdLevel (Common cfg) else defaultLevel);
                   chunkKB = (if chunkKB0 < minChunkKB then minChunkKB
                              else if chunkKB0 > maxChunkKB then maxChunkKB else chunkKB0);
                   minB1 = (if minB0 < minMinB then minMinB
                            else if minB0 > maxMinB then maxMinB else minB0);
                   chunkB = chunkKB * 1024;
                   minB = (if minB1 \<ge> chunkB
                           then (let m = chunkB - 1 in if m < minMinB then minMinB else m)
                           else minB1);
                   level = (if level0 < 1 then 1 else if level0 > 20 then 20 else level0)
               in Inr (cfg\<lparr>Common := (Common cfg)\<lparr>ZstdMinSizeB := minB, ZstdChunkSizeKB := chunkKB,
                                                   ZstdLevel := level\<rparr>\<rparr>)))"

section \<open>Saving\<close>

definition server_service_toml :: "ServiceConfig \<Rightarrow> ServerServiceForTOML" where
  "server_service_toml s =
     \<lparr>ts_Name = sc_Name s, ts_Target = sc_Target s,
      ts_Password = (if sc_Password s \<noteq> [] then Some (sc_Password s) else None),
      ts_Protocol = sc_Protocol s, ts_Enabled = sc_Enabled s,
      ts_Compress = (case sc_Compress s of Some b \<Rightarrow> Some b | None \<Rightarrow> None)\<rparr>"

definition local_service_toml :: "LocalServiceConfig \<Rightarrow> LocalServiceForTOML" where
  "local_service_toml s =
     \<lparr>tl_Name = lc_Name s, tl_Local = lc_Local s,
      tl_Password = (if lc_Password s \<noteq> [] then Some (lc_Password s) else None),
      tl_Protocol = lc_Protocol s, tl_Enabled = lc_Enabled s\<rparr>"

definition toml_of :: "Config \<Rightarrow> toml_doc" where
  "toml_of cfg =
     (if IsServer cfg
      then ServerDoc (IsServer cfg) (Identity cfg) (PasswordHash (Server cfg)) (Compress (Server cfg))
             (map server_service_toml (s_Services (Server cfg))) (Common cfg)
      else ClientDoc (IsServer cfg) (Identity cfg) (ServerID (Client cfg))
             (map local_service_toml (c_Services (Client cfg))) (Common cfg))"

definition nl :: string where "nl = [CHR 0x0A]"

definition header_prefix :: string where
  "header_prefix =
     ''# F2P Configuration File (TOML Format)'' @ nl @
     ''# Generated automatically - you can modify the service configurations'' @ nl @
     ''# This is a ''"

definition header_suffix :: string where
  "header_suffix =
     '' configuration'' @ nl @
     ''#'' @ nl @
     ''# Documentation:'' @ nl @
     ''# - identity: Auto-generated, do not modify'' @ nl @
     ''# - services: You can modify these as needed'' @ nl @
     ''# - password: Optional service-level passwords'' @ nl @
     ''#   * To set a password: add '' @ [CHR 0x27] @ ''password = '' @ [CHR 0x22] @ ''your_password''
       @ [CHR 0x22, CHR 0x27] @ '' to any service'' @ nl @
     ''#   * To remove a password: delete the password line completely'' @ nl @
     ''#   * Empty passwords ('' @ [CHR 0x22, CHR 0x22] @ '') are treated as no password'' @ nl @
     ''# - server.compress: Enable zstd compression for data streams (server-side, default: true)'' @ nl @
     ''# - service.compress (server): Optional override per service (true/false). Omit to inherit.'' @ nl @
     ''# - common.zstd_level: Zstd compression level (default: 20 best, optional: 1..20)'' @ nl @
     ''# - common.zstd_min_size_b: Min size to attempt compression, pure number in BYTES. Default: 256. Range: 32..2048. Must be < chunk size.'' @ nl @
     ''# - common.zstd_chunk_size_kb: Chunk size for framing, pure number in KILOBYTES. Default: 32. Range: 8..128.'' @ nl @ nl"

definition writeTomlHeader :: "bool \<Rightarrow> string" where
  "writeTomlHeader isServer =
     (let role = (if isServer then ''SERVER'' else ''CLIENT'') in header_prefix @ role @ header_suffix)"

definition Save :: "toml_lib \<Rightarrow> os_lib \<Rightarrow> files \<Rightarrow> Config \<Rightarrow> string \<Rightarrow> error option \<times> files" where
  "Save T os fs cfg configPath =
     (case toml_encode T (toml_of cfg) of
        Inl e \<Rightarrow>
          (Some (if IsServer cfg then Errorf ''failed to encode TOML server config: %v'' [FErr e]
                 else Errorf ''failed to encode TOML client config: %v'' [FErr e]), fs)
      | Inr buffer \<Rightarrow> WriteFile os fs configPath (writeTomlHeader (IsServer cfg) @ buffer))"

section \<open>Defaults, passwords and the interactive setup\<close>

definition createDefaultCommonConfig :: CommonConfig where
  "createDefaultCommonConfig =
     \<lparr>cc_Protocol = GetProtocol,
      Listen = [''/ip4/0.0.0.0/tcp/0'', ''/ip6/::/tcp/0'', ''/ip4/0.0.0.0/udp/0/webrtc-direct'',
        ''/ip4/0.0.0.0/udp/0/quic-v1'', ''/ip4/0.0.0.0/udp/0/quic-v1/webtransport'',
        ''/ip6/::/udp/0/webrtc-direct'', ''/ip6/::/udp/0/quic-v1'',
        ''/ip6/::/udp/0/quic-v1/webtransport''],
      LogLevel = ''info'', ZstdLevel = 20, ZstdMinSizeB = 256, ZstdChunkSizeKB = 32, StunServers = []\<rparr>"

definition createDefaultServerServices :: "ServiceConfig list" where
  "createDefaultServerServices =
     [\<lparr>sc_Name = ''ssh'', sc_Target = ''127.0.0.1:22'', sc_Password = [], sc_Protocol = [''tcp''],
       sc_Enabled = False, sc_Compress = None\<rparr>,
      \<lparr>sc_Name = ''something'', sc_Target = ''127.0.0.1:5432'', sc_Password = ''123'',
       sc_Protocol = [''tcp'', ''udp''], sc_Enabled = False, sc_Compress = Some True\<rparr>]"

definition createDefaultClientServices :: "LocalServiceConfig list" where
  "createDefaultClientServices =
     [\<lparr>lc_Name = ''ssh'', lc_Local = ''127.0.0.1:2222'', lc_Password = [], lc_Protocol = [''tcp''],
       lc_Enabled = False\<rparr>,
      \<lparr>lc_Name = ''something'', lc_Local = ''127.0.0.1:15432'', lc_Password = [],
       lc_Protocol = [''tcp'', ''udp''], lc_Enabled = False\<rparr>]"

record bcrypt_lib =
  GenerateFromPassword :: "string \<Rightarrow> error + string"
  CompareHashAndPassword :: "string \<Rightarrow> string \<Rightarrow> error option"

text \<open>What is documented of bcrypt: a hash is not empty and its password matches it; a password of
  more than 72 bytes is refused.\<close>

definition bcrypt_laws :: "bcrypt_lib \<Rightarrow> bool" where
  "bcrypt_laws B \<longleftrightarrow>
     (\<forall>p h. GenerateFromPassword B p = Inr h \<longrightarrow> h \<noteq> [] \<and> CompareHashAndPassword B h p = None) \<and>
     (\<forall>p. length p > 72 \<longrightarrow> (\<exists>e. GenerateFromPassword B p = Inl e))"

text \<open>The error of bcrypt is dropped: the string of a nil slice is empty.\<close>

definition HashPassword :: "bcrypt_lib \<Rightarrow> string \<Rightarrow> string" where
  "HashPassword B password =
     (if password = [] then []
      else (case GenerateFromPassword B password of Inr b \<Rightarrow> b | Inl _ \<Rightarrow> []))"

definition VerifyPassword :: "bcrypt_lib \<Rightarrow> string \<Rightarrow> string \<Rightarrow> bool" where
  "VerifyPassword B password storedHash =
     (if storedHash = [] then password = []
      else CompareHashAndPassword B storedHash password = None)"

text \<open>\<open>handled\<close>: the signals are still sent to the channel of the function. The nested question resets the
  handling of the signals when it returns, so that an interrupt after it ends the process.\<close>

function (sequential) askString_loop :: "bool \<Rightarrow> string console" where
  "askString_loop handled [] = None"
| "askString_loop handled (Line s # evs) =
     (let response = TrimSpace (s @ nl)
      in if response = [] then
           (case AskYesNo evs of
              Some (Return True, evs') \<Rightarrow> Some (Exit 1, evs')
            | Some (Return False, evs') \<Rightarrow> askString_loop False evs'
            | Some (Exit n, evs') \<Rightarrow> Some (Exit n, evs')
            | Some (Killed, evs') \<Rightarrow> Some (Killed, evs')
            | None \<Rightarrow> None)
         else Some (Return response, evs))"
| "askString_loop handled (ReadErr _ # evs) = Some (Exit 1, evs)"
| "askString_loop handled (Signal # evs) = (if handled then exit_after_read evs else Some (Killed, evs))"
  by pat_completeness auto

termination askString_loop
  by (relation "measure (length \<circ> snd)") (auto dest: AskYesNo_length)

definition askStringWithCancel :: "string console" where
  "askStringWithCancel = askString_loop True"

text \<open>The password dialogue of a server; the three results are the hash, a refusal, an early end.\<close>

definition ask_server_password :: "bool \<Rightarrow> (error + string) console" where
  "ask_server_password isTerminal =
     console_bind AskYesNo (\<lambda>wanted.
       if wanted then
         console_bind (AskPassword isTerminal) (\<lambda>r.
           case r of
             Inl e \<Rightarrow> console_return (Inl (Errorf ''failed to read password: %v'' [FErr e]))
           | Inr password \<Rightarrow>
               console_bind (AskPassword isTerminal) (\<lambda>r'.
                 case r' of
                   Inl e \<Rightarrow> console_return (Inl (Errorf ''failed to read password: %v'' [FErr e]))
                 | Inr confirmPassword \<Rightarrow>
                     if password \<noteq> confirmPassword
                     then console_return (Inl (Errorf ''passwords do not match'' []))
                     else console_return (Inr password)))
       else console_return (Inr []))"

definition interactive_config ::
    "bcrypt_lib \<Rightarrow> bool \<Rightarrow> string \<Rightarrow> string \<Rightarrow> (error + Config) console" where
  "interactive_config B isTerminal privKeyB64 peerID =
     console_bind AskYesNo (\<lambda>isServer.
       if isServer then
         console_bind (ask_server_password isTerminal) (\<lambda>r.
           case r of
             Inl e \<Rightarrow> console_return (Inl e)
           | Inr serverPassword \<Rightarrow>
               let serverPasswordHash =
                     (if serverPassword \<noteq> [] then HashPassword B serverPassword else [])
               in console_return (Inr
                    \<lparr>IsServer = True, Identity = \<lparr>PrivateKey = privKeyB64, PeerID = peerID\<rparr>,
                     Server = \<lparr>PasswordHash = serverPasswordHash, Compress = True,
                               s_Services = createDefaultServerServices\<rparr>,
                     Client = zero_client, Common = createDefaultCommonConfig\<rparr>))
       else
         console_bind askStringWithCancel (\<lambda>serverPeerID.
           if length serverPeerID < 10 then console_exit 1
           else console_return (Inr
                  \<lparr>IsServer = False, Identity = \<lparr>PrivateKey = privKeyB64, PeerID = peerID\<rparr>,
                   Server = zero_server,
                   Client = \<lparr>ServerID = serverPeerID, c_Services = createDefaultClientServices\<rparr>,
                   Common = createDefaultCommonConfig\<rparr>)))"

definition GenerateInteractiveConfig ::
    "toml_lib \<Rightarrow> os_lib \<Rightarrow> bcrypt_lib \<Rightarrow> 'k key_lib \<Rightarrow> bool \<Rightarrow> files \<Rightarrow> string \<Rightarrow>
     (error option \<times> files) console" where
  "GenerateInteractiveConfig T os B K isTerminal fs configPath =
     (case mkdir_error os configPath of
        Some e \<Rightarrow> console_return (Some e, fs)
      | None \<Rightarrow>
          (case GeneratePeerIdentity K of
             Inl e \<Rightarrow> console_return (Some (Errorf ''failed to generate peer identity: %v'' [FErr e]), fs)
           | Inr (privKeyB64, peerID) \<Rightarrow>
               console_bind (interactive_config B isTerminal privKeyB64 peerID) (\<lambda>r.
                 case r of
                   Inl e \<Rightarrow> console_return (Some e, fs)
                 | Inr cfg \<Rightarrow> console_return (Save T os fs cfg configPath))))"

definition GenerateDefaultTemplate ::
    "toml_lib \<Rightarrow> os_lib \<Rightarrow> bcrypt_lib \<Rightarrow> 'k key_lib \<Rightarrow> bool \<Rightarrow> files \<Rightarrow> string \<Rightarrow>
     (error option \<times> files) console" where
  "GenerateDefaultTemplate T os B K isTerminal fs configPath =
     GenerateInteractiveConfig T os B K isTerminal fs configPath"

section \<open>Validation\<close>

definition validateProtocols :: "string list \<Rightarrow> string \<Rightarrow> error option" where
  "validateProtocols protocols serviceName =
     (if protocols = []
      then Some (Errorf ''service '%s' must have at least one protocol'' [FStr serviceName])
      else if \<exists>p \<in> set protocols. p \<noteq> ''tcp'' \<and> p \<noteq> ''udp''
      then Some (Errorf ''service '%s' protocol must be tcp or udp'' [FStr serviceName])
      else None)"

fun validate_server_services :: "ServiceConfig list \<Rightarrow> error option" where
  "validate_server_services [] = None"
| "validate_server_services (s # ss) =
     (if sc_Name s = [] then Some (Errorf ''service name cannot be empty'' [])
      else if sc_Target s = []
      then Some (Errorf ''service '%s' target address cannot be empty'' [FStr (sc_Name s)])
      else (case validateProtocols (sc_Protocol s) (sc_Name s) of
              Some e \<Rightarrow> Some e
            | None \<Rightarrow> validate_server_services ss))"

fun validate_client_services :: "LocalServiceConfig list \<Rightarrow> error option" where
  "validate_client_services [] = None"
| "validate_client_services (s # ss) =
     (if lc_Name s = [] then Some (Errorf ''remote service name cannot be empty'' [])
      else if lc_Local s = [] then Some (Errorf ''local address cannot be empty'' [])
      else (case validateProtocols (lc_Protocol s) (lc_Name s) of
              Some e \<Rightarrow> Some e
            | None \<Rightarrow> validate_client_services ss))"

definition ValidateConfig :: "'k key_lib \<Rightarrow> Config \<Rightarrow> error option \<times> Config" where
  "ValidateConfig K c =
     (if IsServer c then
        (if s_Services (Server c) = [] then (Some (Errorf ''server must have at least one service'' []), c)
         else (case validate_server_services (s_Services (Server c)) of
            Some e \<Rightarrow> (Some e, c)
          | None \<Rightarrow>
              if PrivateKey (Identity c) = [] \<or> PeerID (Identity c) = [] then
                (case GeneratePeerIdentity K of
                   Inl e \<Rightarrow> (Some (Errorf ''failed to generate peer identity: %v'' [FErr e]), c)
                 | Inr (privKeyB64, peerID) \<Rightarrow>
                     (None, c\<lparr>Identity := \<lparr>PrivateKey = privKeyB64, PeerID = peerID\<rparr>\<rparr>))
              else (None, c)))
      else
        (if ServerID (Client c) = [] then (Some (Errorf ''client server peer ID must be provided'' []), c)
         else if c_Services (Client c) = []
         then (Some (Errorf ''client must have at least one local service'' []), c)
         else (validate_client_services (c_Services (Client c)), c)))"

section \<open>Ranges\<close>

definition zstd_in_range :: "CommonConfig \<Rightarrow> bool" where
  "zstd_in_range c \<longleftrightarrow>
     1 \<le> ZstdLevel c \<and> ZstdLevel c \<le> 20 \<and> 32 \<le> ZstdMinSizeB c \<and> ZstdMinSizeB c \<le> 2048 \<and>
     8 \<le> ZstdChunkSizeKB c \<and> ZstdChunkSizeKB c \<le> 128"

lemma Load_cases:
  assumes "Load T os fs path = Inr cfg"
  obtains data cfg0 isDefined where "ReadFile os fs path = Inr data"
    and "toml_decode T data = Inr (cfg0, isDefined)"
  using assms by (auto simp: Load_def split: sum.splits prod.splits)

text \<open>C29: whatever the file says, a configuration that \<^verbatim>\<open>Load\<close> returns has its compression
  parameters in the documented ranges (level 1 to 20, minimum size 32 to 2048 bytes, chunk size 8
  to 128 KB, minimum below the chunk size), and \<^verbatim>\<open>ConfigureZstdParams\<close>, called with them as
  \<^verbatim>\<open>main\<close> does, takes them over without a further adjustment.\<close>

theorem Load_ranges:
  assumes "Load T os fs path = Inr cfg"
  shows "zstd_in_range (Common cfg) \<and> ZstdMinSizeB (Common cfg) < ZstdChunkSizeKB (Common cfg) * 1024 \<and>
    ConfigureZstdParams (ZstdLevel (Common cfg)) (ZstdMinSizeB (Common cfg))
        (ZstdChunkSizeKB (Common cfg) * 1024) =
      \<lparr>zstdLevel = ZstdLevel (Common cfg), zstdMinSizeB = ZstdMinSizeB (Common cfg),
       zstdChunkSizeB = ZstdChunkSizeKB (Common cfg) * 1024\<rparr>"
proof -
  from assms obtain data cfg0 isDefined where "ReadFile os fs path = Inr data"
    and "toml_decode T data = Inr (cfg0, isDefined)" by (rule Load_cases)
  with assms have r: "zstd_in_range (Common cfg)"
    by (auto simp: Load_def Let_def zstd_in_range_def load_constants)
  then show ?thesis by (auto simp: zstd_in_range_def ConfigureZstdParams_def Let_def)
qed

section \<open>Save and Load\<close>

text \<open>The part of a configuration that its role has.\<close>

definition role_part :: "Config \<Rightarrow> Config" where
  "role_part c = (if IsServer c then c\<lparr>Client := zero_client\<rparr> else c\<lparr>Server := zero_server\<rparr>)"

definition service_of_toml :: "ServerServiceForTOML \<Rightarrow> ServiceConfig" where
  "service_of_toml s =
     \<lparr>sc_Name = ts_Name s, sc_Target = ts_Target s,
      sc_Password = (case ts_Password s of Some p \<Rightarrow> p | None \<Rightarrow> []),
      sc_Protocol = ts_Protocol s, sc_Enabled = ts_Enabled s, sc_Compress = ts_Compress s\<rparr>"

definition local_of_toml :: "LocalServiceForTOML \<Rightarrow> LocalServiceConfig" where
  "local_of_toml s =
     \<lparr>lc_Name = tl_Name s, lc_Local = tl_Local s,
      lc_Password = (case tl_Password s of Some p \<Rightarrow> p | None \<Rightarrow> []),
      lc_Protocol = tl_Protocol s, lc_Enabled = tl_Enabled s\<rparr>"

text \<open>The struct \<^verbatim>\<open>Config\<close> filled from the keys of a document; absent keys leave zero values.\<close>

fun config_of_doc :: "toml_doc \<Rightarrow> Config" where
  "config_of_doc (ServerDoc srv ident hash compress services common) =
     \<lparr>IsServer = srv, Identity = ident,
      Server = \<lparr>PasswordHash = hash, Compress = compress, s_Services = map service_of_toml services\<rparr>,
      Client = zero_client, Common = common\<rparr>"
| "config_of_doc (ClientDoc srv ident sid services common) =
     \<lparr>IsServer = srv, Identity = ident, Server = zero_server,
      Client = \<lparr>ServerID = sid, c_Services = map local_of_toml services\<rparr>, Common = common\<rparr>"

text \<open>The keys that the encoder always writes and \<^verbatim>\<open>Load\<close> asks about.\<close>

fun doc_keys :: "toml_doc \<Rightarrow> string list list" where
  "doc_keys (ServerDoc _ _ _ _ _ _) =
     [[''server'', ''compress''], [''common'', ''zstd_min_size_b''],
      [''common'', ''zstd_chunk_size_kb''], [''common'', ''zstd_level'']]"
| "doc_keys (ClientDoc _ _ _ _ _) =
     [[''common'', ''zstd_min_size_b''], [''common'', ''zstd_chunk_size_kb''], [''common'', ''zstd_level'']]"

text \<open>What is documented of the TOML library: comment lines are skipped, and decoding an encoded
  document fills the fields of its keys and reports them as defined.\<close>

definition toml_lossless :: "toml_lib \<Rightarrow> bool" where
  "toml_lossless T \<longleftrightarrow>
     (\<forall>doc s b. toml_encode T doc = Inr s \<longrightarrow>
        (\<exists>isDefined. toml_decode T (writeTomlHeader b @ s) = Inr (config_of_doc doc, isDefined) \<and>
           (\<forall>k \<in> set (doc_keys doc). isDefined k)))"

lemma service_of_toml_inverse [simp]: "service_of_toml (server_service_toml s) = s"
  by (cases s) (auto simp: service_of_toml_def server_service_toml_def split: option.splits)

lemma local_of_toml_inverse [simp]: "local_of_toml (local_service_toml s) = s"
  by (cases s) (auto simp: local_of_toml_def local_service_toml_def)

lemma config_of_toml_of: "config_of_doc (toml_of cfg) = role_part cfg"
  by (cases cfg) (auto simp: toml_of_def role_part_def comp_def intro: map_idI)

lemma Load_after_WriteFile:
  assumes "read_error os path = None" and "write_error os path = None"
    and "toml_decode T s = Inr (cfg, isDefined)"
    and "IsServer cfg \<longrightarrow> isDefined [''server'', ''compress'']"
    and "isDefined [''common'', ''zstd_min_size_b'']" and "isDefined [''common'', ''zstd_chunk_size_kb'']"
    and "isDefined [''common'', ''zstd_level'']"
    and "zstd_in_range (Common cfg)"
  shows "Load T os (snd (WriteFile os fs path s)) path = Inr cfg"
  using assms
  by (cases cfg) (auto simp: Load_def WriteFile_def ReadFile_def Let_def zstd_in_range_def load_constants)

lemma Save_then_Load:
  assumes "toml_lossless T" and "read_error os path = None" and "write_error os path = None"
    and "toml_encode T (toml_of cfg) = Inr s" and "zstd_in_range (Common cfg)"
  shows "fst (Save T os fs cfg path) = None \<and>
         Load T os (snd (Save T os fs cfg path)) path = Inr (role_part cfg)"
proof -
  obtain isDefined where dec: "toml_decode T (writeTomlHeader (IsServer cfg) @ s) = Inr (role_part cfg, isDefined)"
    and keys: "\<forall>k \<in> set (doc_keys (toml_of cfg)). isDefined k"
    using assms(1,4) unfolding toml_lossless_def by (metis config_of_toml_of)
  have "IsServer (role_part cfg) = IsServer cfg" "Common (role_part cfg) = Common cfg"
    by (simp_all add: role_part_def)
  with Load_after_WriteFile [OF assms(2,3) dec, of fs] keys assms(5)
  have "Load T os (snd (WriteFile os fs path (writeTomlHeader (IsServer cfg) @ s))) path = Inr (role_part cfg)"
    by (simp add: toml_of_def split: if_splits)
  with assms(3,4) show ?thesis by (simp add: Save_def WriteFile_def)
qed

text \<open>C30: saving a configuration whose compression parameters are in range and loading the file
  again gives the configuration back, with every field of its role (the section of the other role is
  not written). The TOML library is assumed to decode what it encoded.\<close>

theorem Save_Load:
  assumes "toml_lossless T" and "read_error os path = None" and "write_error os path = None"
    and "toml_encode T (toml_of cfg) = Inr s" and "zstd_in_range (Common cfg)"
  shows "fst (Save T os fs cfg path) = None \<and>
         Load T os (snd (Save T os fs cfg path)) path = Inr (role_part cfg)"
  by (rule Save_then_Load [OF assms])

definition example_client :: Config where
  "example_client =
     \<lparr>IsServer = False, Identity = \<lparr>PrivateKey = ''CAE='', PeerID = ''12D3KooWClient''\<rparr>,
      Server = zero_server,
      Client = \<lparr>ServerID = ''12D3KooWServer'', c_Services = createDefaultClientServices\<rparr>,
      Common = createDefaultCommonConfig\<rparr>"

definition example_toml :: toml_lib where
  "example_toml =
     \<lparr>toml_encode = (\<lambda>doc. if doc = toml_of example_client then Inr ''x'' else Inl (EnvError ''not encoded'')),
      toml_decode = (\<lambda>s. if \<exists>b \<in> {True, False}. s = writeTomlHeader b @ ''x''
                         then Inr (example_client, \<lambda>k. k \<noteq> [''server'', ''compress''])
                         else Inl (EnvError ''not decoded''))\<rparr>"

definition example_os :: os_lib where
  "example_os = \<lparr>read_error = (\<lambda>_. None), write_error = (\<lambda>_. None), mkdir_error = (\<lambda>_. None)\<rparr>"

lemma role_part_example [simp]: "role_part example_client = example_client"
  by (simp add: role_part_def example_client_def)

lemma example_toml_lossless: "toml_lossless example_toml"
  unfolding toml_lossless_def
proof (intro allI impI)
  fix doc s b
  assume "toml_encode example_toml doc = Inr s"
  then have doc: "doc = toml_of example_client" and s: "s = ''x''"
    by (auto simp: example_toml_def split: if_splits)
  have cfg: "config_of_doc doc = example_client" unfolding doc config_of_toml_of by simp
  have keys: "\<forall>k \<in> set (doc_keys doc). k \<noteq> [''server'', ''compress'']"
    by (simp add: doc toml_of_def example_client_def)
  have "toml_decode example_toml (writeTomlHeader b @ s) =
      Inr (example_client, \<lambda>k. k \<noteq> [''server'', ''compress''])"
    using s by (cases b) (simp_all add: example_toml_def)
  with cfg keys show "\<exists>isDefined. toml_decode example_toml (writeTomlHeader b @ s) =
      Inr (config_of_doc doc, isDefined) \<and> (\<forall>k \<in> set (doc_keys doc). isDefined k)" by auto
qed

lemma example_in_range: "zstd_in_range (Common example_client)"
  by (simp add: zstd_in_range_def example_client_def createDefaultCommonConfig_def)

theorem Save_Load_witness:
  "Load example_toml example_os (snd (Save example_toml example_os Map.empty example_client ''f2p.toml''))
     ''f2p.toml'' = Inr example_client"
  using Save_Load [OF example_toml_lossless, of example_os "''f2p.toml''" example_client "''x''" Map.empty]
    example_in_range
  by (simp add: example_os_def example_toml_def)

theorem Load_ranges_witness:
  "zstd_in_range (Common example_client)"
  using Load_ranges [of example_toml example_os "[''f2p.toml'' \<mapsto> writeTomlHeader True @ ''x'']" "''f2p.toml''" example_client]
  by (simp add: Load_def ReadFile_def example_toml_def example_os_def example_client_def
      createDefaultCommonConfig_def load_constants Let_def)


section \<open>Keys, passwords\<close>

text \<open>The private key of a generated identity, kept as base64 text, is loaded back as the key
  whose peer identifier was generated with it.\<close>

theorem key_roundtrip:
  assumes "key_laws K" and "GeneratePeerIdentity K = Inr (b64, pid)"
  shows "\<exists>k. LoadPrivateKeyFromB64 K b64 = Inr k \<and> IDFromPrivateKey K k = Inr pid"
  using assms
  by (auto simp: GeneratePeerIdentity_def LoadPrivateKeyFromB64_def key_laws_def Let_def
      split: sum.splits)

definition example_keys :: "bytes key_lib" where
  "example_keys =
     \<lparr>GenerateEd25519Key = Inr [8, 1, 7], MarshalPrivateKey = (\<lambda>k. Inr (0x08 # k)),
      UnmarshalPrivateKey = (\<lambda>bs. if bs = [] then Inl (EnvError ''short'') else Inr (tl bs)),
      IDFromPrivateKey = (\<lambda>k. Inr ''12D3KooW'')\<rparr>"

lemma example_keys_laws: "key_laws example_keys"
  by (simp add: key_laws_def example_keys_def)

lemma example_identity:
  "GeneratePeerIdentity example_keys = Inr (EncodeToString [8, 8, 1, 7], ''12D3KooW'')"
  by (simp add: GeneratePeerIdentity_def example_keys_def)

theorem key_roundtrip_witness:
  "\<exists>k. LoadPrivateKeyFromB64 example_keys (EncodeToString [8, 8, 1, 7]) = Inr k"
  using key_roundtrip [OF example_keys_laws example_identity] by blast

text \<open>A password that bcrypt can hash verifies against its stored hash, and the hash is never
  the empty string that switches authentication off; a password of more than 72 bytes is hashed to
  the empty string, so that the empty password verifies in its place.\<close>

theorem password_hashing:
  assumes "bcrypt_laws B"
  shows "(\<forall>p h. p \<noteq> [] \<longrightarrow> GenerateFromPassword B p = Inr h \<longrightarrow>
             HashPassword B p \<noteq> [] \<and> VerifyPassword B p (HashPassword B p)) \<and>
         (\<forall>p. length p > 72 \<longrightarrow>
             HashPassword B p = [] \<and> VerifyPassword B [] (HashPassword B p) \<and>
             \<not> VerifyPassword B p (HashPassword B p))"
proof (intro conjI allI impI)
  fix p h
  assume "p \<noteq> []" and h: "GenerateFromPassword B p = Inr h"
  then have "HashPassword B p = h" by (simp add: HashPassword_def)
  moreover have "h \<noteq> [] \<and> CompareHashAndPassword B h p = None"
    using assms h unfolding bcrypt_laws_def by blast
  ultimately show "HashPassword B p \<noteq> []" "VerifyPassword B p (HashPassword B p)"
    by (simp_all add: VerifyPassword_def)
next
  fix p :: string
  assume p: "length p > 72"
  then obtain e where "GenerateFromPassword B p = Inl e" using assms unfolding bcrypt_laws_def by blast
  then have h: "HashPassword B p = []" by (simp add: HashPassword_def)
  then show "HashPassword B p = []" "VerifyPassword B [] (HashPassword B p)"
    "\<not> VerifyPassword B p (HashPassword B p)"
    using p by (auto simp: VerifyPassword_def)
qed

definition example_bcrypt :: bcrypt_lib where
  "example_bcrypt =
     \<lparr>GenerateFromPassword = (\<lambda>p. if length p > 72 then Inl (EnvError ''password length exceeds 72 bytes'')
                                  else Inr (CHR ''$'' # p)),
      CompareHashAndPassword = (\<lambda>h p. if h = CHR ''$'' # p then None else Some (EnvError ''mismatch''))\<rparr>"

lemma example_bcrypt_laws: "bcrypt_laws example_bcrypt"
  by (simp add: bcrypt_laws_def example_bcrypt_def)

theorem password_hashing_witness:
  "HashPassword example_bcrypt (replicate 73 CHR ''a'') = [] \<and>
   VerifyPassword example_bcrypt ''secret'' (HashPassword example_bcrypt ''secret'')"
  using password_hashing [OF example_bcrypt_laws, THEN conjunct1, rule_format, of "''secret''" "''$secret''"]
    password_hashing [OF example_bcrypt_laws, THEN conjunct2, rule_format, of "replicate 73 CHR ''a''"]
  by (simp add: example_bcrypt_def)

section \<open>Validation\<close>

definition protocols_valid :: "string list \<Rightarrow> bool" where
  "protocols_valid ps \<longleftrightarrow> ps \<noteq> [] \<and> set ps \<subseteq> {''tcp'', ''udp''}"

definition config_valid :: "Config \<Rightarrow> bool" where
  "config_valid c \<longleftrightarrow>
     (if IsServer c
      then s_Services (Server c) \<noteq> [] \<and>
        (\<forall>s \<in> set (s_Services (Server c)). sc_Name s \<noteq> [] \<and> sc_Target s \<noteq> [] \<and> protocols_valid (sc_Protocol s))
      else ServerID (Client c) \<noteq> [] \<and> c_Services (Client c) \<noteq> [] \<and>
        (\<forall>s \<in> set (c_Services (Client c)). lc_Name s \<noteq> [] \<and> lc_Local s \<noteq> [] \<and> protocols_valid (lc_Protocol s)))"

definition has_identity :: "Config \<Rightarrow> bool" where
  "has_identity c \<longleftrightarrow> PrivateKey (Identity c) \<noteq> [] \<and> PeerID (Identity c) \<noteq> []"

lemma validateProtocols_None: "validateProtocols ps n = None \<longleftrightarrow> protocols_valid ps"
  by (auto simp: validateProtocols_def protocols_valid_def)

lemma validateProtocols_case:
  "(case validateProtocols ps n of None \<Rightarrow> r | Some e \<Rightarrow> Some e) = None \<longleftrightarrow> protocols_valid ps \<and> r = None"
  by (auto simp: validateProtocols_None [symmetric, of ps n] split: option.splits)

lemma validate_server_services_None:
  "validate_server_services ss = None \<longleftrightarrow>
     (\<forall>s \<in> set ss. sc_Name s \<noteq> [] \<and> sc_Target s \<noteq> [] \<and> protocols_valid (sc_Protocol s))"
  by (induction ss) (auto simp: validateProtocols_case)

lemma validate_client_services_None:
  "validate_client_services ss = None \<longleftrightarrow>
     (\<forall>s \<in> set ss. lc_Name s \<noteq> [] \<and> lc_Local s \<noteq> [] \<and> protocols_valid (lc_Protocol s))"
  by (induction ss) (auto simp: validateProtocols_case)

lemma config_valid_alt:
  "config_valid c \<longleftrightarrow>
     (if IsServer c then s_Services (Server c) \<noteq> [] \<and> validate_server_services (s_Services (Server c)) = None
      else ServerID (Client c) \<noteq> [] \<and> c_Services (Client c) \<noteq> [] \<and>
           validate_client_services (c_Services (Client c)) = None)"
  by (simp add: config_valid_def validate_server_services_None validate_client_services_None)

lemma EncodeToString_Nil: "EncodeToString bs = [] \<longleftrightarrow> bs = []"
  by (cases bs rule: EncodeToString.cases) (auto simp: Let_def)

lemma GeneratePeerIdentity_nonempty:
  "key_laws K \<Longrightarrow> GeneratePeerIdentity K = Inr (b64, pid) \<Longrightarrow> b64 \<noteq> [] \<and> pid \<noteq> []"
  by (auto simp: GeneratePeerIdentity_def key_laws_def Let_def EncodeToString_Nil split: sum.splits)

text \<open>C31: \<^verbatim>\<open>ValidateConfig\<close> accepts exactly the configurations that meet the declarative
  specification (with, for a server without an identity, key generation succeeding); an accepted
  server configuration has an identity afterwards, and nothing but the identity is changed.\<close>

theorem ValidateConfig_spec:
  assumes "key_laws K"
  shows "(fst (ValidateConfig K c) = None \<longleftrightarrow>
            config_valid c \<and> (IsServer c \<and> \<not> has_identity c \<longrightarrow> (\<exists>i. GeneratePeerIdentity K = Inr i))) \<and>
         (fst (ValidateConfig K c) = None \<and> IsServer c \<longrightarrow> has_identity (snd (ValidateConfig K c))) \<and>
         (\<exists>i. snd (ValidateConfig K c) = c\<lparr>Identity := i\<rparr>)"
proof -
  have same: "\<exists>i. c = c\<lparr>Identity := i\<rparr>" by (rule exI [of _ "Identity c"]) simp
  then show ?thesis
    using GeneratePeerIdentity_nonempty [OF assms]
    by (auto simp: ValidateConfig_def config_valid_alt has_identity_def split: option.splits sum.splits)
qed

theorem ValidateConfig_spec_witness:
  "fst (ValidateConfig example_keys example_client) = None"
  using ValidateConfig_spec [OF example_keys_laws, of example_client]
  by (simp add: config_valid_def example_client_def createDefaultClientServices_def protocols_valid_def)

section \<open>Interactive setup\<close>

lemma defaults_in_range: "zstd_in_range createDefaultCommonConfig"
  by (simp add: zstd_in_range_def createDefaultCommonConfig_def)

text \<open>C37: every configuration that the interactive setup hands to \<^verbatim>\<open>Save\<close>, whatever was typed, is
  valid, has its compression parameters in range, carries the generated identity, and has
  no service enabled; a server configuration without a password hash comes from a user who
  declined, gave an empty password, or gave one that bcrypt refused.\<close>

theorem interactive_config_valid:
  assumes "interactive_config B isTerminal key pid evs = Some (Return (Inr cfg), evs')"
  shows "config_valid cfg \<and> zstd_in_range (Common cfg) \<and>
    Identity cfg = \<lparr>PrivateKey = key, PeerID = pid\<rparr> \<and>
    (IsServer cfg \<longrightarrow> (\<forall>s \<in> set (s_Services (Server cfg)). \<not> sc_Enabled s) \<and>
       (\<exists>p. PasswordHash (Server cfg) = HashPassword B p)) \<and>
    (\<not> IsServer cfg \<longrightarrow> length (ServerID (Client cfg)) \<ge> 10 \<and>
       (\<forall>s \<in> set (c_Services (Client cfg)). \<not> lc_Enabled s))"
proof -
  have nil: "(if p \<noteq> [] then HashPassword B p else []) = HashPassword B p" for p
    by (simp add: HashPassword_def)
  obtain isServer evs1 where ask: "AskYesNo evs = Some (Return isServer, evs1)"
    using assms unfolding interactive_config_def console_bind_Return by blast
  consider
      (srv) p where "cfg = \<lparr>IsServer = True, Identity = \<lparr>PrivateKey = key, PeerID = pid\<rparr>,
          Server = \<lparr>PasswordHash = HashPassword B p, Compress = True, s_Services = createDefaultServerServices\<rparr>,
          Client = zero_client, Common = createDefaultCommonConfig\<rparr>"
    | (cli) sid where "\<not> length sid < 10"
        "cfg = \<lparr>IsServer = False, Identity = \<lparr>PrivateKey = key, PeerID = pid\<rparr>, Server = zero_server,
          Client = \<lparr>ServerID = sid, c_Services = createDefaultClientServices\<rparr>,
          Common = createDefaultCommonConfig\<rparr>"
  proof (cases isServer)
    case True
    with assms ask obtain r evs2 where "ask_server_password isTerminal evs1 = Some (Return r, evs2)"
      unfolding interactive_config_def by (auto simp: console_bind_Return)
    with assms ask True show ?thesis
      unfolding interactive_config_def Let_def nil
      by (cases r) (auto simp: console_bind_def console_return_def intro: srv)
  next
    case False
    with assms ask obtain sid evs2 where "askStringWithCancel evs1 = Some (Return sid, evs2)"
      unfolding interactive_config_def by (auto simp: console_bind_Return)
    with assms ask False show ?thesis
      unfolding interactive_config_def
      by (auto simp: console_bind_def console_return_def console_exit_def intro: cli split: if_splits)
  qed
  then show ?thesis
    by cases (auto simp: config_valid_def protocols_valid_def defaults_in_range
        createDefaultServerServices_def createDefaultClientServices_def)
qed

theorem interactive_config_valid_witness:
  "\<exists>cfg. interactive_config example_bcrypt True ''CAE='' ''12D3KooW''
       [Line ''y'', Line ''yes'', Line ''secret'', Line ''secret''] = Some (Return (Inr cfg), []) \<and>
     config_valid cfg \<and> PasswordHash (Server cfg) = ''$secret''"
proof -
  let ?cfg = "\<lparr>IsServer = True, Identity = \<lparr>PrivateKey = ''CAE='', PeerID = ''12D3KooW''\<rparr>,
          Server = \<lparr>PasswordHash = ''$secret'', Compress = True, s_Services = createDefaultServerServices\<rparr>,
          Client = zero_client, Common = createDefaultCommonConfig\<rparr>"
  have "interactive_config example_bcrypt True ''CAE='' ''12D3KooW''
       [Line ''y'', Line ''yes'', Line ''secret'', Line ''secret''] = Some (Return (Inr ?cfg), [])"
    by (simp add: interactive_config_def ask_server_password_def console_bind_def console_return_def
        HashPassword_def example_bcrypt_def TrimSpace_def ToLower_def to_lower_def is_space_def)
  with interactive_config_valid [OF this] show ?thesis by auto
qed

end
