(* ===== verification/F2P_Pipe.thy ===== *)
theory F2P_Pipe
  imports F2P_IO "HOL-Library.Sublist"
begin

text \<open>
  Package \<^verbatim>\<open>internal/pipe\<close>: \<^verbatim>\<open>BothWithIdle\<close> runs two copy loops and an idle watcher against the two
  ends and closes both ends when one loop is done. The goroutines and the main function are program
  counters of one state, and the relation \<open>pstep\<close> interleaves their steps. The ends are values of
  \<^verbatim>\<open>io.ReadWriteCloser\<close>: a record of operations on any type. The locale \<open>pipe_end\<close> is what the pipe
  needs of them; it holds for the connections of the input/output theory here, and for data streams
  with compression later. The lemmas show that each end receives
  a prefix of what the other end sent, all of it when the copy loop ran to the end of its input
  before anything was closed, and that both ends are closed on return.
\<close>

text \<open>The interface \<^verbatim>\<open>io.ReadWriteCloser\<close>; \<open>rw_closed\<close> says whether an end was closed, which makes its
  reads return.\<close>

record 'e ReadWriteCloser =
  rw_read :: "'e reader"
  rw_write :: "'e writer"
  rw_close :: "'e \<Rightarrow> error option \<times> 'e"
  rw_closed :: "'e \<Rightarrow> bool"

definition conn_end :: "conn ReadWriteCloser" where
  "conn_end = \<lparr>rw_read = conn_read, rw_write = conn_write, rw_close = conn_close, rw_closed = is_closed\<rparr>"

lemma conn_end_simps [simp]:
  "rw_read conn_end = conn_read" "rw_write conn_end = conn_write" "rw_close conn_end = conn_close" "rw_closed conn_end = is_closed"
  by (simp_all add: conn_end_def)

text \<open>\<open>True\<close> is the argument \<^verbatim>\<open>a\<close>, \<open>False\<close> the argument \<^verbatim>\<open>b\<close>; the loop of side \<open>d\<close> copies from \<open>d\<close>
  to the other side. Its states: before the read, with data to touch and write, before the write,
  after it, broken out of the loop, ended.\<close>

datatype loop_pc =
    L_Read | L_Got bytes "error option" | L_Write bytes "error option" | L_Wrote "error option"
  | L_Break | L_Ended

datatype main_pc = P_Wait | P_Stop | P_CloseA | P_CloseB | P_Returned

datatype watch_pc = I_Start | I_Select | I_CloseA | I_CloseB | I_Returned

record 'e pipe_state =
  side :: "bool \<Rightarrow> 'e"
  loop :: "bool \<Rightarrow> loop_pc"
  main :: main_pc
  watch :: watch_pc
  lastSeen :: time
  done_chan :: nat
  stop :: bool
  now :: time

definition BothWithIdle :: "'e \<Rightarrow> 'e \<Rightarrow> time \<Rightarrow> 'e pipe_state" where
  "BothWithIdle a b t =
     \<lparr>side = (\<lambda>d. if d then a else b), loop = (\<lambda>_. L_Read), main = P_Wait, watch = I_Start,
      lastSeen = t, done_chan = 0, stop = False, now = t\<rparr>"

definition after_read :: "error option \<Rightarrow> loop_pc" where
  "after_read rerr = (if rerr \<noteq> None then L_Break else L_Read)"

definition close_side :: "'e ReadWriteCloser \<Rightarrow> bool \<Rightarrow> 'e pipe_state \<Rightarrow> 'e pipe_state" where
  "close_side E d s = s\<lparr>side := (side s)(d := snd (rw_close E (side s d)))\<rparr>"

definition bufSize :: nat where "bufSize = 32 * 1024"

inductive pstep :: "'e ReadWriteCloser \<Rightarrow> duration \<Rightarrow> 'e pipe_state \<Rightarrow> 'e pipe_state \<Rightarrow> bool" for E idle where
  p_read: "loop s d = L_Read \<Longrightarrow> rw_read E (side s d) bufSize = Some ((p, rerr), c) \<Longrightarrow>
    pstep E idle s (s\<lparr>side := (side s)(d := c),
      loop := (loop s)(d := if p \<noteq> [] then L_Got p rerr else after_read rerr)\<rparr>)"
| p_read_closed: "loop s d = L_Read \<Longrightarrow> rw_closed E (side s d) \<Longrightarrow>
    pstep E idle s (s\<lparr>loop := (loop s)(d := L_Break)\<rparr>)"
| p_touch: "loop s d = L_Got p rerr \<Longrightarrow>
    pstep E idle s (s\<lparr>lastSeen := now s, loop := (loop s)(d := L_Write p rerr)\<rparr>)"
| p_write: "loop s d = L_Write p rerr \<Longrightarrow> rw_write E (side s (\<not> d)) p = Some ((n, werr), c) \<Longrightarrow>
    pstep E idle s (s\<lparr>side := (side s)((\<not> d) := c),
      loop := (loop s)(d := if werr \<noteq> None then L_Break else L_Wrote rerr)\<rparr>)"
| p_touch2: "loop s d = L_Wrote rerr \<Longrightarrow>
    pstep E idle s (s\<lparr>lastSeen := now s, loop := (loop s)(d := after_read rerr)\<rparr>)"
| loop_done: "loop s d = L_Break \<Longrightarrow>
    pstep E idle s (s\<lparr>done_chan := done_chan s + 1, loop := (loop s)(d := L_Ended)\<rparr>)"
| main_done: "main s = P_Wait \<Longrightarrow> done_chan s > 0 \<Longrightarrow>
    pstep E idle s (s\<lparr>done_chan := done_chan s - 1, main := P_Stop\<rparr>)"
| main_stop: "main s = P_Stop \<Longrightarrow> pstep E idle s (s\<lparr>stop := True, main := P_CloseA\<rparr>)"
| main_close_a: "main s = P_CloseA \<Longrightarrow> pstep E idle s ((close_side E True s)\<lparr>main := P_CloseB\<rparr>)"
| main_close_b: "main s = P_CloseB \<Longrightarrow> pstep E idle s ((close_side E False s)\<lparr>main := P_Returned\<rparr>)"
| watch_start: "watch s = I_Start \<Longrightarrow>
    pstep E idle s (s\<lparr>watch := if idle \<le> 0 then I_Returned else I_Select\<rparr>)"
| watch_tick: "watch s = I_Select \<Longrightarrow>
    pstep E idle s (s\<lparr>watch := if time_sub (now s) (lastSeen s) > idle then I_CloseA else I_Select\<rparr>)"
| watch_close_a: "watch s = I_CloseA \<Longrightarrow> pstep E idle s ((close_side E True s)\<lparr>watch := I_CloseB\<rparr>)"
| watch_close_b: "watch s = I_CloseB \<Longrightarrow> pstep E idle s ((close_side E False s)\<lparr>watch := I_Returned\<rparr>)"
| watch_stop: "watch s = I_Select \<Longrightarrow> stop s \<Longrightarrow> pstep E idle s (s\<lparr>watch := I_Returned\<rparr>)"
| p_time: "now s \<le> t \<Longrightarrow> pstep E idle s (s\<lparr>now := t\<rparr>)"

definition preach :: "'e ReadWriteCloser \<Rightarrow> duration \<Rightarrow> 'e \<Rightarrow> 'e \<Rightarrow> time \<Rightarrow> 'e pipe_state \<Rightarrow> bool" where
  "preach E idle a b t s \<longleftrightarrow> (pstep E idle)\<^sup>*\<^sup>* (BothWithIdle a b t) s"

lemma preach_init: "preach E idle a b t (BothWithIdle a b t)"
  by (simp add: preach_def)

lemma preach_step: "preach E idle a b t s \<Longrightarrow> pstep E idle s s' \<Longrightarrow> preach E idle a b t s'"
  by (simp add: preach_def)

lemma preach_induct [consumes 1, case_names init step]:
  assumes "preach E idle a b t s" and "I (BothWithIdle a b t)"
    and "\<And>s s'. preach E idle a b t s \<Longrightarrow> I s \<Longrightarrow> pstep E idle s s' \<Longrightarrow> I s'"
  shows "I s"
  using assms(1) unfolding preach_def
proof (induction rule: rtranclp_induct)
  case base
  show ?case by (rule assms(2))
next
  case (step s s')
  then show ?case using assms(3) by (auto simp: preach_def)
qed

section \<open>The ends of a pipe\<close>

text \<open>What the pipe relies on. \<open>pending\<close> is what will still be read from an end; \<open>sent d\<close> and \<open>ready d\<close> are
  what has been written to the end on side \<open>d\<close> and whether it can be written to; no write fails
  while an end is \<open>healthy\<close>. A read hands out the front of what is pending, and together with an
  error the rest of it, if any; a write delivers a prefix, and all of it when there is no error.
  Reading does not disturb what was written, nor writing what will be read.\<close>

locale pipe_end =
  fixes E :: "'e ReadWriteCloser"
    and pending :: "'e \<Rightarrow> bytes"
    and sent :: "bool \<Rightarrow> 'e \<Rightarrow> bytes"
    and ready :: "bool \<Rightarrow> 'e \<Rightarrow> bool"
    and healthy :: "'e \<Rightarrow> bool"
  assumes read_data: "0 < n \<Longrightarrow> rw_read E c n = Some ((p, rerr), c') \<Longrightarrow>
      (if rerr = None then p @ pending c' else p) = pending c"
    and read_keeps: "rw_read E c n = Some (r, c') \<Longrightarrow>
      sent d c' = sent d c \<and> (ready d c \<longrightarrow> ready d c') \<and> (healthy c' \<longrightarrow> healthy c) \<and> (rw_closed E c \<longrightarrow> rw_closed E c')"
    and write_data: "ready d c \<Longrightarrow> rw_write E c p = Some ((n, werr), c') \<Longrightarrow>
      (\<exists>k. sent d c' = sent d c @ take k p) \<and> (werr = None \<longrightarrow> sent d c' = sent d c @ p \<and> ready d c') \<and>
      (healthy c' \<longrightarrow> werr = None)"
    and write_keeps: "rw_write E c p = Some (w, c') \<Longrightarrow>
      pending c' = pending c \<and> (healthy c' \<longrightarrow> healthy c) \<and> (rw_closed E c \<longrightarrow> rw_closed E c')"
    and close_end: "rw_close E c = (e, c') \<Longrightarrow>
      pending c' = pending c \<and> sent d c' = sent d c \<and> (ready d c \<longrightarrow> ready d c') \<and> (healthy c' \<longrightarrow> healthy c) \<and>
      (rw_closed E c \<longrightarrow> rw_closed E c')"

text \<open>An end that is closed after \<^verbatim>\<open>Close\<close>, whatever happened to it before.\<close>

locale closing_end = pipe_end E pending sent ready healthy
  for E :: "'e ReadWriteCloser" and pending sent ready healthy +
  assumes close_closes: "rw_closed E (snd (rw_close E c))"

section \<open>What is forwarded\<close>

text \<open>Data that left one end and has not reached the other, and whether the read that fetched it failed.\<close>

fun in_flight :: "loop_pc \<Rightarrow> bytes" where
  "in_flight (L_Got p _) = p"
| "in_flight (L_Write p _) = p"
| "in_flight _ = []"

fun read_failed :: "loop_pc \<Rightarrow> bool" where
  "read_failed (L_Got _ rerr) = (rerr \<noteq> None)"
| "read_failed (L_Write _ rerr) = (rerr \<noteq> None)"
| "read_failed (L_Wrote rerr) = (rerr \<noteq> None)"
| "read_failed _ = False"

lemma prefix_of_eq: "xs @ ys = zs \<Longrightarrow> prefix xs zs"
  by auto

context pipe_end
begin

text \<open>The direction \<open>d\<close>: while the loop runs nothing is lost; a loop that broke off left a prefix,
  and everything if nothing was closed and the receiving end never refuses data.\<close>

definition direction_ok :: "(bool \<Rightarrow> bytes) \<Rightarrow> 'e pipe_state \<Rightarrow> bool \<Rightarrow> bool" where
  "direction_ok inp s d \<longleftrightarrow>
     (if loop s d \<in> {L_Break, L_Ended}
      then prefix (sent (\<not> d) (side s (\<not> d))) (inp d) \<and>
           (healthy (side s (\<not> d)) \<and> \<not> rw_closed E (side s d) \<longrightarrow> sent (\<not> d) (side s (\<not> d)) = inp d)
      else ready (\<not> d) (side s (\<not> d)) \<and>
           sent (\<not> d) (side s (\<not> d)) @ in_flight (loop s d) @
             (if read_failed (loop s d) then [] else pending (side s d)) = inp d)"

lemma direction_ok_cong:
  assumes "loop s' d = loop s d" and "sent (\<not> d) (side s' (\<not> d)) = sent (\<not> d) (side s (\<not> d))"
    and "ready (\<not> d) (side s (\<not> d)) \<Longrightarrow> ready (\<not> d) (side s' (\<not> d))"
    and "pending (side s' d) = pending (side s d)"
    and "healthy (side s' (\<not> d)) \<Longrightarrow> healthy (side s (\<not> d))"
    and "rw_closed E (side s d) \<Longrightarrow> rw_closed E (side s' d)"
    and "direction_ok inp s d"
  shows "direction_ok inp s' d"
  using assms by (auto simp: direction_ok_def)

lemma direction_ok_read:
  assumes "direction_ok inp s d" and "loop s d = L_Read"
    and r: "rw_read E (side s d) bufSize = Some ((p, rerr), c)"
  shows "direction_ok inp (s\<lparr>side := (side s)(d := c),
      loop := (loop s)(d := if p \<noteq> [] then L_Got p rerr else after_read rerr)\<rparr>) d"
proof -
  have "(if rerr = None then p @ pending c else p) = pending (side s d)"
    by (rule read_data [OF _ r]) (simp add: bufSize_def)
  then show ?thesis using assms(1,2)
    by (cases rerr; cases p) (auto simp: direction_ok_def after_read_def)
qed

lemma direction_ok_write:
  assumes "direction_ok inp s d" and "loop s d = L_Write p rerr"
    and w: "rw_write E (side s (\<not> d)) p = Some ((n, werr), c)"
  shows "direction_ok inp (s\<lparr>side := (side s)((\<not> d) := c),
      loop := (loop s)(d := if werr \<noteq> None then L_Break else L_Wrote rerr)\<rparr>) d"
proof -
  have ready: "ready (\<not> d) (side s (\<not> d))" and
    inp: "sent (\<not> d) (side s (\<not> d)) @ p @ (if rerr \<noteq> None then [] else pending (side s d)) = inp d"
    using assms(1,2) by (simp_all add: direction_ok_def)
  note W = write_data [OF ready w]
  then obtain k where "sent (\<not> d) c = sent (\<not> d) (side s (\<not> d)) @ take k p" by auto
  then have "prefix (sent (\<not> d) c) (inp d)"
    unfolding inp [symmetric] by (metis append_assoc append_take_drop_id prefixI)
  then show ?thesis using W inp by (cases werr) (auto simp: direction_ok_def)
qed

lemma direction_ok_close: "direction_ok inp s d \<Longrightarrow> direction_ok inp ((close_side E x s)\<lparr>main := m, watch := w\<rparr>) d"
proof (rule direction_ok_cong [where s = s])
  note C = close_end [of "side s x" "fst (rw_close E (side s x))" "snd (rw_close E (side s x))"]
  show "sent (\<not> d) (side (close_side E x s\<lparr>main := m, watch := w\<rparr>) (\<not> d)) = sent (\<not> d) (side s (\<not> d))"
    "pending (side (close_side E x s\<lparr>main := m, watch := w\<rparr>) d) = pending (side s d)"
    using C by (auto simp: close_side_def)
  show "ready (\<not> d) (side (close_side E x s\<lparr>main := m, watch := w\<rparr>) (\<not> d))" if "ready (\<not> d) (side s (\<not> d))"
    using C that by (auto simp: close_side_def)
  show "healthy (side s (\<not> d))" if "healthy (side (close_side E x s\<lparr>main := m, watch := w\<rparr>) (\<not> d))"
    using C that by (auto simp: close_side_def split: if_splits)
  show "rw_closed E (side (close_side E x s\<lparr>main := m, watch := w\<rparr>) d)" if "rw_closed E (side s d)"
    using C that by (auto simp: close_side_def)
qed (simp_all add: close_side_def)

lemma direction_ok_step: "pstep E idle s s' \<Longrightarrow> \<forall>d. direction_ok inp s d \<Longrightarrow> direction_ok inp s' e"
proof (induction rule: pstep.induct)
  case (p_read s d p rerr c)
  show ?case
  proof (cases "e = d")
    case True
    then show ?thesis using p_read direction_ok_read by blast
  next
    case False
    then have e: "e = (\<not> d)" by auto
    show ?thesis
      by (rule direction_ok_cong [where s = s]) (use p_read read_keeps [OF p_read(2)] e in auto)
  qed
next
  case (p_write s d p rerr n werr c)
  show ?case
  proof (cases "e = d")
    case True
    then show ?thesis using p_write direction_ok_write by blast
  next
    case False
    then have e: "e = (\<not> d)" by auto
    show ?thesis
      by (rule direction_ok_cong [where s = s]) (use p_write write_keeps [OF p_write(2)] e in auto)
  qed
next
  case (p_read_closed s d)
  then have "direction_ok inp s e" "direction_ok inp s d" by auto
  with p_read_closed show ?case
    by (cases "e = d") (auto simp: direction_ok_def intro: prefix_of_eq)
next
  case (p_touch s d p rerr)
  then have "direction_ok inp s e" by auto
  with p_touch show ?case by (cases "e = d") (auto simp: direction_ok_def)
next
  case (p_touch2 s d rerr)
  then have "direction_ok inp s e" by auto
  with p_touch2 show ?case by (cases "e = d") (auto simp: direction_ok_def after_read_def intro: prefix_of_eq)
next
  case (loop_done s d)
  then have "direction_ok inp s e" by auto
  with loop_done show ?case by (cases "e = d") (auto simp: direction_ok_def)
next
  case (main_close_a s)
  then show ?case using direction_ok_close [where inp = inp and s = s and d = e and x = True and m = P_CloseB and w = "watch s"] by (simp add: close_side_def)
next
  case (main_close_b s)
  then show ?case using direction_ok_close [where inp = inp and s = s and d = e and x = False and m = P_Returned and w = "watch s"] by (simp add: close_side_def)
next
  case (watch_close_a s)
  then show ?case using direction_ok_close [where inp = inp and s = s and d = e and x = True and m = "main s" and w = I_CloseB] by (simp add: close_side_def)
next
  case (watch_close_b s)
  then show ?case using direction_ok_close [where inp = inp and s = s and d = e and x = False and m = "main s" and w = I_Returned] by (simp add: close_side_def)
qed (erule allE [of _ e], rule direction_ok_cong; (assumption | simp))+

lemma direction_ok_prefix: "direction_ok inp s d \<Longrightarrow> prefix (sent (\<not> d) (side s (\<not> d))) (inp d)"
  by (cases "loop s d \<in> {L_Break, L_Ended}") (auto simp: direction_ok_def intro: prefix_of_eq)

lemma direction_ok_ended:
  "direction_ok inp s d \<Longrightarrow> loop s d = L_Ended \<Longrightarrow> healthy (side s (\<not> d)) \<Longrightarrow>
   \<not> rw_closed E (side s d) \<Longrightarrow> sent (\<not> d) (side s (\<not> d)) = inp d"
  by (simp add: direction_ok_def)

text \<open>Both directions of a pipe whose ends are ready to be written to.\<close>

lemma preach_direction_ok:
  assumes "preach E idle a b t s" and "ready True a" and "ready False b"
  shows "direction_ok (\<lambda>d. if d then sent False b @ pending a else sent True a @ pending b) s d"
  using assms(1)
proof (induction arbitrary: d rule: preach_induct)
  case init
  show ?case using assms(2,3) by (simp add: direction_ok_def BothWithIdle_def)
next
  case (step s s')
  then show ?case using direction_ok_step by blast
qed

lemma copies:
  assumes "preach E idle a b t s" and "ready True a" and "ready False b"
  shows "prefix (sent False (side s False)) (sent False b @ pending a)"
    and "prefix (sent True (side s True)) (sent True a @ pending b)"
    and "loop s True = L_Ended \<Longrightarrow> healthy (side s False) \<Longrightarrow> \<not> rw_closed E (side s True) \<Longrightarrow>
      sent False (side s False) = sent False b @ pending a"
    and "loop s False = L_Ended \<Longrightarrow> healthy (side s True) \<Longrightarrow> \<not> rw_closed E (side s False) \<Longrightarrow>
      sent True (side s True) = sent True a @ pending b"
  using preach_direction_ok [OF assms, of True, THEN direction_ok_prefix] preach_direction_ok [OF assms, of False, THEN direction_ok_prefix]
    preach_direction_ok [OF assms, of True, THEN direction_ok_ended] preach_direction_ok [OF assms, of False, THEN direction_ok_ended]
  by simp_all

end

context closing_end
begin

definition closing_ok :: "'e pipe_state \<Rightarrow> bool" where
  "closing_ok s \<longleftrightarrow>
     (main s \<in> {P_CloseB, P_Returned} \<longrightarrow> rw_closed E (side s True)) \<and>
     (main s = P_Returned \<longrightarrow> rw_closed E (side s False)) \<and>
     (main s \<in> {P_CloseA, P_CloseB, P_Returned} \<longrightarrow> stop s)"

lemma closing_ok_step: "pstep E idle s s' \<Longrightarrow> closing_ok s \<Longrightarrow> closing_ok s'"
proof (induction rule: pstep.induct)
  case (p_read s d p rerr c)
  then show ?case using read_keeps [OF p_read(2)] by (auto simp: closing_ok_def)
next
  case (p_write s d p rerr n werr c)
  then show ?case using write_keeps [OF p_write(2)] by (cases d) (auto simp: closing_ok_def)
qed (auto simp: closing_ok_def close_side_def close_closes)

lemma returned_closed:
  assumes "preach E idle a b t s" and "main s = P_Returned"
  shows "rw_closed E (side s True) \<and> rw_closed E (side s False) \<and> stop s"
proof -
  have "closing_ok s"
    using assms(1)
  proof (induction rule: preach_induct)
    case init
    show ?case by (simp add: closing_ok_def BothWithIdle_def)
  next
    case (step s s')
    then show ?case by (blast intro: closing_ok_step)
  qed
  with assms(2) show ?thesis by (simp add: closing_ok_def)
qed

end

section \<open>Pipes between connections\<close>

definition unread :: "conn \<Rightarrow> bytes" where
  "unread c = concat (in_segs c)"

lemma unread_view: "unread c = fst (conn_view c)"
  by (simp add: unread_def conn_view_def)

lemma conn_read_keeps:
  assumes "conn_read c n = Some (r, c')"
  shows "out_bytes c' = out_bytes c \<and> is_closed c' = is_closed c \<and> out_room c' = out_room c"
  using assms by (auto simp: conn_read_def split: list.splits)

lemma conn_write_keeps:
  assumes "conn_write c p = Some (r, c')"
  shows "unread c' = unread c \<and> is_closed c' = is_closed c \<and> conn_healthy c' = conn_healthy c"
  using assms by (auto simp: conn_write_def conn_healthy_def unread_def split: if_splits option.splits)

lemma conn_write_sends:
  assumes "conn_write c p = Some ((n, werr), c')"
  shows "\<exists>k. out_bytes c' = out_bytes c @ take k p \<and> (werr = None \<longrightarrow> length p \<le> k) \<and> (conn_healthy c \<longrightarrow> werr = None)"
  using assms
  by (auto simp: conn_write_def conn_healthy_def split: if_splits option.splits intro: exI [of _ 0] exI [of _ "length p"])

lemma conn_close_simps [simp]:
  "unread (snd (conn_close c)) = unread c" "out_bytes (snd (conn_close c)) = out_bytes c"
  "is_closed (snd (conn_close c))" "out_room (snd (conn_close c)) = out_room c"
  "\<not> conn_healthy (snd (conn_close c))"
  by (simp_all add: conn_close_def conn_healthy_def unread_def)

interpretation cp: closing_end conn_end unread "\<lambda>_. out_bytes" "\<lambda>_ _. True" conn_healthy
proof unfold_locales
  fix c c' :: conn and p rerr and n :: nat
  assume "0 < n" "rw_read conn_end c n = Some ((p, rerr), c')"
  then show "(if rerr = None then p @ unread c' else p) = unread c"
    using cs.read_pending [of n c p rerr c'] by (cases rerr) (simp_all add: unread_view)
next
  fix c c' :: conn and p n werr
  assume "rw_write conn_end c p = Some ((n, werr), c')"
  then show "(\<exists>k. out_bytes c' = out_bytes c @ take k p) \<and> (werr = None \<longrightarrow> out_bytes c' = out_bytes c @ p \<and> True) \<and>
      (conn_healthy c' \<longrightarrow> werr = None)"
    using conn_write_sends [of c p n werr c'] conn_write_keeps [of c p "(n, werr)" c'] by auto
next
  fix c c' :: conn and e
  assume "rw_close conn_end c = (e, c')"
  then have "c' = snd (conn_close c)" by simp
  then show "unread c' = unread c \<and> out_bytes c' = out_bytes c \<and> (True \<longrightarrow> True) \<and> (conn_healthy c' \<longrightarrow> conn_healthy c) \<and>
      (rw_closed conn_end c \<longrightarrow> rw_closed conn_end c')"
    by simp
qed (auto simp: conn_healthy_def dest!: conn_read_keeps conn_write_keeps)

text \<open>C19: at every moment of \<^verbatim>\<open>BothWithIdle\<close>, under every interleaving of the two copy loops, the
  watcher and the closing of the ends, each end has received a prefix of what the other end sent: the
  pipe never loses a byte in the middle, reorders, duplicates or invents one. A copy loop that has
  ended while neither end is closed and the receiver accepted everything has delivered all of it.\<close>

theorem pipe_forwards:
  assumes "preach conn_end idle a b t s" and "out_bytes a = []" and "out_bytes b = []"
  shows "prefix (out_bytes (side s False)) (unread a) \<and> prefix (out_bytes (side s True)) (unread b) \<and>
    (loop s True = L_Ended \<and> \<not> is_closed (side s True) \<and> conn_healthy (side s False) \<longrightarrow>
       out_bytes (side s False) = unread a) \<and>
    (loop s False = L_Ended \<and> \<not> is_closed (side s False) \<and> conn_healthy (side s True) \<longrightarrow>
       out_bytes (side s True) = unread b)"
  using cp.copies [OF assms(1) TrueI TrueI] by (simp add: assms(2,3))

section \<open>Closing\<close>

text \<open>When \<^verbatim>\<open>BothWithIdle\<close> returns, both ends are closed and the idle watcher has been told to
  stop.\<close>

theorem pipe_closes_both:
  assumes "preach conn_end idle a b t s" and "main s = P_Returned"
  shows "is_closed (side s True) \<and> is_closed (side s False) \<and> stop s"
  using cp.returned_closed [OF assms] by simp

section \<open>A run\<close>

lemma main_returns:
  assumes "preach E idle a b t s" and "main s = P_Wait" and "loop s d = L_Ended" and "done_chan s > 0"
  obtains s' where "preach E idle a b t s'" and "main s' = P_Returned"
proof -
  define s2 where "s2 = s\<lparr>done_chan := done_chan s - 1, main := P_Stop\<rparr>"
  define s3 where "s3 = s2\<lparr>stop := True, main := P_CloseA\<rparr>"
  define s4 where "s4 = (close_side E True s3)\<lparr>main := P_CloseB\<rparr>"
  define s5 where "s5 = (close_side E False s4)\<lparr>main := P_Returned\<rparr>"
  have "pstep E idle s s2" unfolding s2_def by (rule pstep.main_done) (simp_all add: assms)
  moreover have "pstep E idle s2 s3" unfolding s3_def by (rule pstep.main_stop) (simp add: s2_def)
  moreover have "pstep E idle s3 s4" unfolding s4_def by (rule pstep.main_close_a) (simp add: s3_def)
  moreover have "pstep E idle s4 s5" unfolding s5_def by (rule pstep.main_close_b) (simp add: s4_def)
  ultimately have "preach E idle a b t s5" using assms(1) by (meson preach_step)
  then show thesis by (rule that) (simp add: s5_def)
qed

text \<open>One side is read, its data written to the other side, and then its end is reached.\<close>

lemma copy_run:
  assumes "rw_read E a bufSize = Some ((p, None), a1)" and "p \<noteq> []" and "rw_write E b p = Some ((n, None), b1)"
    and "rw_read E a1 bufSize = Some (([], Some e), a2)"
  obtains s where "preach E idle a b t s" and "main s = P_Wait" and "loop s True = L_Ended" and "done_chan s > 0"
    and "side s True = a2" and "side s False = b1"
proof -
  let ?s0 = "BothWithIdle a b t"
  define s1 where "s1 = ?s0\<lparr>side := (side ?s0)(True := a1), loop := (loop ?s0)(True := L_Got p None)\<rparr>"
  define s2 where "s2 = s1\<lparr>lastSeen := now s1, loop := (loop s1)(True := L_Write p None)\<rparr>"
  define s3 where "s3 = s2\<lparr>side := (side s2)(False := b1), loop := (loop s2)(True := L_Wrote None)\<rparr>"
  define s4 where "s4 = s3\<lparr>lastSeen := now s3, loop := (loop s3)(True := L_Read)\<rparr>"
  define s5 where "s5 = s4\<lparr>side := (side s4)(True := a2), loop := (loop s4)(True := L_Break)\<rparr>"
  define s6 where "s6 = s5\<lparr>done_chan := done_chan s5 + 1, loop := (loop s5)(True := L_Ended)\<rparr>"
  have "pstep E idle ?s0 s1"
    using pstep.p_read [of ?s0 True E p None a1 idle] assms(1,2) by (simp add: s1_def BothWithIdle_def)
  moreover have "pstep E idle s1 s2"
    using pstep.p_touch [of s1 True p None E idle] by (simp add: s2_def s1_def)
  moreover have "pstep E idle s2 s3"
    using pstep.p_write [of s2 True p None E n None b1 idle] assms(3) by (simp add: s3_def s2_def s1_def BothWithIdle_def)
  moreover have "pstep E idle s3 s4"
    using pstep.p_touch2 [of s3 True None E idle] by (simp add: s4_def s3_def after_read_def)
  moreover have "pstep E idle s4 s5"
    using pstep.p_read [of s4 True E "[]" "Some e" a2 idle] assms(4)
    by (simp add: s5_def s4_def s3_def s2_def s1_def after_read_def)
  moreover have "pstep E idle s5 s6"
    using pstep.loop_done [of s5 True E idle] by (simp add: s6_def s5_def)
  ultimately have "preach E idle a b t s6" using preach_init preach_step by meson
  then show thesis
    by (rule that) (simp_all add: s6_def s5_def s4_def s3_def s2_def s1_def BothWithIdle_def)
qed

definition example_a :: conn where
  "example_a = fresh_conn\<lparr>in_segs := [[1, 2]]\<rparr>"

lemma example_run:
  obtains s where "preach conn_end idle example_a fresh_conn 0 s" and "main s = P_Wait" and "loop s True = L_Ended"
    and "done_chan s > 0" and "out_bytes (side s False) = [1, 2]"
proof -
  have r: "rw_read conn_end example_a bufSize = Some (([1, 2], None), example_a\<lparr>in_segs := [[]]\<rparr>)"
    "rw_write conn_end fresh_conn [1, 2] = Some ((2, None), fresh_conn\<lparr>out_bytes := [1, 2]\<rparr>)"
    "rw_read conn_end (example_a\<lparr>in_segs := [[]]\<rparr>) bufSize = Some (([], Some EOF), example_a\<lparr>in_segs := []\<rparr>)"
    by (simp_all add: example_a_def fresh_conn_def conn_read_def conn_write_def bufSize_def)
  show thesis by (rule copy_run [OF r(1) _ r(2,3), where idle = idle and t = 0]) (auto intro: that)
qed

theorem pipe_forwards_witness:
  "\<exists>s. preach conn_end 0 example_a fresh_conn 0 s \<and> out_bytes (side s False) = [1, 2] \<and>
       prefix (out_bytes (side s False)) (unread example_a)"
proof -
  obtain s where "preach conn_end 0 example_a fresh_conn 0 s" "out_bytes (side s False) = [1, 2]"
    by (rule example_run)
  moreover from this(1) have "prefix (out_bytes (side s False)) (unread example_a)"
    using pipe_forwards [of 0 example_a fresh_conn 0 s] by (simp add: example_a_def fresh_conn_def)
  ultimately show ?thesis by blast
qed

theorem pipe_closes_both_witness:
  "\<exists>s. preach conn_end 0 example_a fresh_conn 0 s \<and> main s = P_Returned \<and> is_closed (side s True) \<and>
       is_closed (side s False)"
proof -
  obtain s where "preach conn_end 0 example_a fresh_conn 0 s" "main s = P_Wait" "loop s True = L_Ended" "done_chan s > 0"
    by (rule example_run)
  then obtain s' where "preach conn_end 0 example_a fresh_conn 0 s'" "main s' = P_Returned"
    by (rule main_returns)
  with pipe_closes_both [OF this] show ?thesis by blast
qed

end
