(* ===== verification/F2P_Service.thy ===== *)
theory F2P_Service
  imports F2P_Config F2P_Message F2P_Pipe
begin

text \<open>
  The request side of \<^verbatim>\<open>internal/server\<close>: the tables built by \<^verbatim>\<open>NewServer\<close>, the decision about a
  service request, the handshakes on the control stream and on a data stream, and the dialling of
  the target. A messager is a reader and a writer on some stream state; the answer of \<^verbatim>\<open>WaitFor\<close>
  and the outcome of dialling are arguments. The lemmas show that the decision grants a request
  exactly when the configuration allows it, which error code each refusal has, that a data stream
  reaches only the configured target of a granted request, and what a refused stream is left in.
\<close>

section \<open>Server state\<close>

record Server =
  config :: Config
  services :: "string \<rightharpoonup> ServiceConfig"
  serviceProtocols :: "string \<rightharpoonup> string set"

fun add_services :: "ServiceConfig list \<Rightarrow> (string \<rightharpoonup> ServiceConfig) \<times> (string \<rightharpoonup> string set) \<Rightarrow>
    (string \<rightharpoonup> ServiceConfig) \<times> (string \<rightharpoonup> string set)" where
  "add_services [] m = m"
| "add_services (service # ss) (sv, sp) =
     add_services ss (sv(sc_Name service \<mapsto> service), sp(sc_Name service \<mapsto> set (sc_Protocol service)))"

definition NewServer :: "Config \<Rightarrow> Server" where
  "NewServer cfg =
     (case add_services (s_Services (F2P_Config.Config.Server cfg)) (Map.empty, Map.empty) of
        (sv, sp) \<Rightarrow> \<lparr>config = cfg, services = sv, serviceProtocols = sp\<rparr>)"

definition generateFixedKey :: "'k key_lib \<Rightarrow> Server \<Rightarrow> error + 'k" where
  "generateFixedKey K s =
     (if PrivateKey (Identity (config s)) \<noteq> [] then
        (case LoadPrivateKeyFromB64 K (PrivateKey (Identity (config s))) of
           Inr privKey \<Rightarrow> Inr privKey
         | Inl _ \<Rightarrow> GenerateEd25519Key K)
      else GenerateEd25519Key K)"

section \<open>Service requests\<close>

definition format_bool :: "bool \<Rightarrow> string" where
  "format_bool b = (if b then ''true'' else ''false'')"

text \<open>\<^verbatim>\<open>%v\<close> of a list of strings.\<close>

fun join_space :: "string list \<Rightarrow> string" where
  "join_space [] = []"
| "join_space [s] = s"
| "join_space (s # ss) = s @ '' '' @ join_space ss"

definition format_list :: "string list \<Rightarrow> string" where
  "format_list ss = ''['' @ join_space ss @ '']''"

definition quoted :: "string \<Rightarrow> string" where
  "quoted s = [CHR 0x27] @ s @ [CHR 0x27]"

definition validateServiceRequest ::
    "Server \<Rightarrow> UnifiedMessage \<Rightarrow> ServiceConfig option \<times> (string \<rightharpoonup> string) \<times> ErrorCode \<times> string" where
  "validateServiceRequest s msg =
     (if m_ServiceName msg = [] \<or> m_Protocol msg = []
      then (None, Map.empty, NO_ERROR, ''Invalid service request format'')
      else (case services s (m_ServiceName msg) of
        None \<Rightarrow> (None, Map.empty, SERVICE_NOT_FOUND,
                 ''Service '' @ quoted (m_ServiceName msg) @ '' not found on server'')
      | Some service \<Rightarrow>
          if \<not> sc_Enabled service
          then (None, Map.empty, SERVICE_DISABLED, ''Service '' @ quoted (m_ServiceName msg) @ '' is disabled'')
          else
          let protocolSet = (case serviceProtocols s (m_ServiceName msg) of Some S \<Rightarrow> S | None \<Rightarrow> {})
          in if m_Protocol msg \<notin> protocolSet
          then (None, Map.empty, PROTOCOL_NOT_SUPPORTED,
                ''Protocol '' @ quoted (m_Protocol msg) @ '' not supported for service ''
                @ quoted (m_ServiceName msg) @ ''. Supported protocols: '' @ format_list (sc_Protocol service))
          else if sc_Password service \<noteq> [] \<and> m_ServicePassword msg = []
          then (None, Map.empty, PASSWORD_REQUIRED_ERROR,
                ''Password required for service '' @ quoted (m_ServiceName msg))
          else if sc_Password service \<noteq> [] \<and> m_ServicePassword msg \<noteq> sc_Password service
          then (None, Map.empty, INVALID_PASSWORD,
                ''Invalid password for service '' @ quoted (m_ServiceName msg))
          else
            let willCompress = (case sc_Compress service of
                                  Some b \<Rightarrow> b
                                | None \<Rightarrow> Compress (F2P_Config.Config.Server (config s)));
                data = [''zstd'' \<mapsto> format_bool willCompress]
            in (Some service, data, NO_ERROR,
                ''Service '' @ quoted (m_ServiceName msg) @ '' ready with protocol '' @ quoted (m_Protocol msg))))"

text \<open>Errors of sending are dropped here, as in the source.\<close>

definition handleServiceVerificationRequest ::
    "Server \<Rightarrow> proto_lib \<Rightarrow> 's writer \<Rightarrow> 's \<Rightarrow> UnifiedMessage \<Rightarrow> 's option" where
  "handleServiceVerificationRequest s Q wr st msg =
     (case validateServiceRequest s msg of
        (None, data, errCode, errMsg) \<Rightarrow>
          map_option snd (SendServiceResponse Q wr st False errCode errMsg Map.empty)
      | (Some service, data, errCode, errMsg) \<Rightarrow>
          map_option snd (SendServiceResponse Q wr st True NO_ERROR errMsg data))"

fun type_name :: "MessageType \<Rightarrow> string" where
  "type_name PASSWORD_REQUIRED = ''PASSWORD_REQUIRED''"
| "type_name AUTH_REQUEST = ''AUTH_REQUEST''"
| "type_name AUTH_RESPONSE = ''AUTH_RESPONSE''"
| "type_name SERVICE_REQUEST = ''SERVICE_REQUEST''"
| "type_name SERVICE_RESPONSE = ''SERVICE_RESPONSE''"
| "type_name SERVER_SHUTDOWN = ''SERVER_SHUTDOWN''"
| "type_name CLIENT_SHUTDOWN = ''CLIENT_SHUTDOWN''"
| "type_name HEARTBEAT = ''HEARTBEAT''"
| "type_name (MessageType_other n) = (if n < 0 then ''-'' @ itoa (nat (- n)) else itoa (nat n))"

text \<open>The result carries the service with the requested name and protocol that the source returns
  through its pointer arguments.\<close>

definition handleServiceHandshake ::
    "Server \<Rightarrow> proto_lib \<Rightarrow> 's reader \<Rightarrow> 's writer \<Rightarrow> 's \<Rightarrow>
     ((error + (ServiceConfig \<times> string \<times> string)) \<times> 's) option" where
  "handleServiceHandshake s Q rd wr st = do {
     r \<leftarrow> ReceiveOne Q rd st;
     case r of
       (Inl e, st1) \<Rightarrow> Some (Inl (Errorf ''failed to receive service request: %v'' [FErr e]), st1)
     | (Inr msg, st1) \<Rightarrow>
         if m_Type msg \<noteq> SERVICE_REQUEST
         then Some (Inl (Errorf ''expected service_request, got %s'' [FStr (type_name (m_Type msg))]), st1)
         else if m_ServiceName msg = [] \<or> m_Protocol msg = []
         then Some (Inl (Errorf ''invalid service request format'' []), st1)
         else (case validateServiceRequest s msg of
             (None, data, errCode, errMsg) \<Rightarrow> do {
               r2 \<leftarrow> SendServiceResponse Q wr st1 False errCode errMsg Map.empty;
               Some (Inl (Errorf ''%s'' [FStr errMsg]), snd r2) }
           | (Some service, data, errCode, errMsg) \<Rightarrow> do {
               r2 \<leftarrow> SendServiceResponse Q wr st1 True NO_ERROR errMsg data;
               case r2 of
                 (Some e, st2) \<Rightarrow> Some (Inl (Errorf ''failed to send service response: %v'' [FErr e]), st2)
               | (None, st2) \<Rightarrow> Some (Inr (service, m_ServiceName msg, m_Protocol msg), st2) })
   }"

section \<open>Authentication\<close>

text \<open>\<open>wait\<close> is \<^verbatim>\<open>WaitFor\<close> on the dispatcher of the control stream; \<open>answers w\<close> is one that returns \<open>w\<close>.\<close>

abbreviation answers :: "error + UnifiedMessage \<Rightarrow> MessageType list \<Rightarrow> 's \<Rightarrow> ((error + UnifiedMessage) \<times> 's) option" where
  "answers w \<equiv> (\<lambda>ts s. Some (w, s))"

definition handleAuthOnControl ::
    "Server \<Rightarrow> bcrypt_lib \<Rightarrow> proto_lib \<Rightarrow> 's writer \<Rightarrow> 's \<Rightarrow>
     (MessageType list \<Rightarrow> 's \<Rightarrow> ((error + UnifiedMessage) \<times> 's) option) \<Rightarrow> (error option \<times> 's) option" where
  "handleAuthOnControl s B Q wr st wait =
     (let hash = PasswordHash (F2P_Config.Config.Server (config s));
          passwordRequired = (hash \<noteq> [])
      in do {
        r \<leftarrow> SendPasswordRequired Q wr st passwordRequired;
        case r of
          (Some e, st1) \<Rightarrow> Some (Some (Errorf ''failed to send password requirement: %v'' [FErr e]), st1)
        | (None, st1) \<Rightarrow> do {
            w \<leftarrow> wait [AUTH_REQUEST, CLIENT_SHUTDOWN] st1;
            case w of
               (Inl e, st2) \<Rightarrow> do {
                 r2 \<leftarrow> SendAuthResponse Q wr st2 False ''timeout'';
                 Some (Some (Errorf ''failed to receive auth request: %v'' [FErr e]), snd r2) }
             | (Inr msg, st2) \<Rightarrow>
                 if m_Type msg = CLIENT_SHUTDOWN
                 then Some (Some (Errorf ''client requested shutdown during auth'' []), st2)
                 else if m_Type msg \<noteq> AUTH_REQUEST
                 then Some (Some (Errorf ''expected auth_request, got %s'' [FStr (type_name (m_Type msg))]), st2)
                 else if \<not> (\<not> passwordRequired \<or> VerifyPassword B (m_Password msg) hash)
                 then do {
                   r2 \<leftarrow> SendAuthResponse Q wr st2 False ''Invalid password'';
                   Some (Some (Errorf ''authentication failed: invalid password'' []), snd r2) }
                 else do {
                   r2 \<leftarrow> SendAuthResponse Q wr st2 True [];
                   case r2 of
                     (Some e, st3) \<Rightarrow> Some (Some (Errorf ''failed to send auth response: %v'' [FErr e]), st3)
                   | (None, st3) \<Rightarrow> Some (None, st3) } }
      })"

section \<open>Data connections\<close>

text \<open>Dialling is an argument: the connection to the target for a network and an address.\<close>

datatype 'c proxy_action = Proxy 'c | Nothing

definition connectAndProxy ::
    "(string \<Rightarrow> string \<Rightarrow> error + 'c) \<Rightarrow> string \<Rightarrow> string \<Rightarrow> error + 'c proxy_action" where
  "connectAndProxy dial protocolType target =
     (if protocolType = ''tcp'' then
        (case dial ''tcp'' target of Inl e \<Rightarrow> Inl e | Inr c \<Rightarrow> Inr (Proxy c))
      else if protocolType = ''udp'' then
        (case dial ''udp'' target of Inl e \<Rightarrow> Inl e | Inr c \<Rightarrow> Inr (Proxy c))
      else Inr Nothing)"

text \<open>
  A data connection on a stream with reader \<open>rd\<close>, writer \<open>wr\<close> and, for a zstd duplex, the function
  that records service and protocol. The state returned is that of the stream before the proxying
  starts, and \<open>Proxy c\<close> stands for the call of \<^verbatim>\<open>pipe.BothWithIdle\<close>.
\<close>

definition handle_data_on ::
    "Server \<Rightarrow> proto_lib \<Rightarrow> (string \<Rightarrow> string \<Rightarrow> error + 'c) \<Rightarrow> 's reader \<Rightarrow> 's writer \<Rightarrow>
     ('s \<Rightarrow> string \<Rightarrow> string \<Rightarrow> 's) \<Rightarrow> 's \<Rightarrow> ((error + 'c proxy_action) \<times> 's) option" where
  "handle_data_on s Q dial rd wr setInfo st = do {
     r \<leftarrow> handleServiceHandshake s Q rd wr st;
     case r of
       (Inl e, st1) \<Rightarrow> Some (Inl (Errorf ''handshake failed: %v'' [FErr e]), st1)
     | (Inr (service, serviceName, protocolType), st1) \<Rightarrow>
         let st2 = setInfo st1 serviceName protocolType in
         (case connectAndProxy dial protocolType (sc_Target service) of
            Inl e \<Rightarrow> Some (Inl (Errorf ''failed to connect to target %s: %v'' [FStr (sc_Target service), FErr e]), st2)
          | Inr a \<Rightarrow> Some (Inr a, st2))
   }"

datatype data_stream = Plain conn | Duplex "conn ZstdDuplex"

text \<open>\<^verbatim>\<open>NewZstdDuplex\<close> never fails, so its error branch is not taken.\<close>

definition handleDataConnection ::
    "Server \<Rightarrow> proto_lib \<Rightarrow> zstd_params \<Rightarrow> zstd_lib \<Rightarrow> (string \<Rightarrow> string \<Rightarrow> error + 'c) \<Rightarrow> conn \<Rightarrow> string \<Rightarrow>
     bool \<Rightarrow> ((error + 'c proxy_action) \<times> data_stream) option" where
  "handleDataConnection s Q P L dial rw clientPeer useZstd =
     (if useZstd then
        map_option (map_prod id Duplex)
          (handle_data_on s Q dial (zstd_Read L conn_read) (zstd_Write P L conn_write)
             (\<lambda>z serviceName protocolType. SetInfo z [] serviceName [] protocolType)
             (SetInfo (NewZstdDuplex rw) ''server'' [] clientPeer []))
      else
        map_option (map_prod id Plain)
          (handle_data_on s Q dial conn_read conn_write (\<lambda>c _ _. c) rw))"

text \<open>\<^verbatim>\<open>handleDataStream\<close> for a peer that is or is not authenticated; a reset stream is closed.\<close>

definition handleDataStream ::
    "Server \<Rightarrow> proto_lib \<Rightarrow> zstd_params \<Rightarrow> zstd_lib \<Rightarrow> (string \<Rightarrow> string \<Rightarrow> error + 'c) \<Rightarrow> bool \<Rightarrow> string \<Rightarrow>
     string \<Rightarrow> conn \<Rightarrow> ((error + 'c proxy_action) option \<times> data_stream) option" where
  "handleDataStream s Q P L dial authenticated protoID clientPeer stream =
     (let isZstd = HasSuffix protoID ''/data+zstd''
      in if \<not> authenticated then Some (None, Plain (snd (conn_close stream)))
         else map_option (map_prod Some id)
                (handleDataConnection s Q P L dial stream clientPeer isZstd))"

section \<open>The tables\<close>

definition find_service :: "Config \<Rightarrow> string \<Rightarrow> ServiceConfig option" where
  "find_service cfg n = find (\<lambda>s. sc_Name s = n) (rev (s_Services (F2P_Config.Config.Server cfg)))"

lemma add_services_spec:
  "add_services ss (sv, sp) = (sv', sp') \<Longrightarrow>
   sv' n = (case find (\<lambda>s. sc_Name s = n) (rev ss) of Some s \<Rightarrow> Some s | None \<Rightarrow> sv n) \<and>
   sp' n = (case find (\<lambda>s. sc_Name s = n) (rev ss) of Some s \<Rightarrow> Some (set (sc_Protocol s)) | None \<Rightarrow> sp n)"
proof (induction ss arbitrary: sv sp)
  case (Cons s ss)
  then show ?case by (force simp: find_append split: option.splits)
qed simp

lemma NewServer_tables:
  "config (NewServer cfg) = cfg"
  "services (NewServer cfg) n = find_service cfg n"
  "serviceProtocols (NewServer cfg) n = map_option (set \<circ> sc_Protocol) (find_service cfg n)"
  using add_services_spec [of "s_Services (F2P_Config.Config.Server cfg)" Map.empty Map.empty _ _ n]
  by (auto simp: NewServer_def find_service_def split: prod.splits option.splits)

lemma find_service_name: "find_service cfg n = Some s \<Longrightarrow> sc_Name s = n \<and> s \<in> set (s_Services (F2P_Config.Config.Server cfg))"
  by (auto simp: find_service_def find_Some_iff) (metis length_rev nth_mem set_rev)

section \<open>Granted requests\<close>

text \<open>The access rule of the configuration: the request names an enabled service, a protocol of the
  service, and the password if the service has one.\<close>

definition request_allowed :: "Config \<Rightarrow> UnifiedMessage \<Rightarrow> ServiceConfig \<Rightarrow> bool" where
  "request_allowed cfg msg service \<longleftrightarrow>
     m_ServiceName msg \<noteq> [] \<and> m_Protocol msg \<noteq> [] \<and>
     find_service cfg (m_ServiceName msg) = Some service \<and> sc_Enabled service \<and>
     m_Protocol msg \<in> set (sc_Protocol service) \<and>
     (sc_Password service = [] \<or> m_ServicePassword msg = sc_Password service)"

definition service_compress :: "Config \<Rightarrow> ServiceConfig \<Rightarrow> bool" where
  "service_compress cfg service =
     (case sc_Compress service of Some b \<Rightarrow> b | None \<Rightarrow> Compress (F2P_Config.Config.Server cfg))"

lemma validate_granted:
  "validateServiceRequest (NewServer cfg) msg = (Some service, data, code, text) \<longleftrightarrow>
     request_allowed cfg msg service \<and> data = [''zstd'' \<mapsto> format_bool (service_compress cfg service)] \<and>
     code = NO_ERROR \<and>
     text = ''Service '' @ quoted (m_ServiceName msg) @ '' ready with protocol '' @ quoted (m_Protocol msg)"
  by (auto simp: validateServiceRequest_def NewServer_tables request_allowed_def service_compress_def Let_def
      split: option.splits if_splits)

definition refusal_code :: "Config \<Rightarrow> UnifiedMessage \<Rightarrow> ErrorCode" where
  "refusal_code cfg msg =
     (if m_ServiceName msg = [] \<or> m_Protocol msg = [] then NO_ERROR
      else case find_service cfg (m_ServiceName msg) of
        None \<Rightarrow> SERVICE_NOT_FOUND
      | Some service \<Rightarrow>
          if \<not> sc_Enabled service then SERVICE_DISABLED
          else if m_Protocol msg \<notin> set (sc_Protocol service) then PROTOCOL_NOT_SUPPORTED
          else if m_ServicePassword msg = [] then PASSWORD_REQUIRED_ERROR
          else INVALID_PASSWORD)"

text \<open>C8: a server built by \<^verbatim>\<open>NewServer\<close> grants a service request exactly when the configuration
  allows it: the last service of that name is enabled, lists the protocol, and has no password or the
  one in the request; the answer then announces compression as the service, or else the server, has
  configured it. Every other request is refused with the code of its first violated condition and
  without data.\<close>

theorem service_request_decision:
  "case validateServiceRequest (NewServer cfg) msg of
     (Some service, data, code, text) \<Rightarrow>
       request_allowed cfg msg service \<and> code = NO_ERROR \<and>
       data = [''zstd'' \<mapsto> format_bool (service_compress cfg service)]
   | (None, data, code, text) \<Rightarrow>
       (\<nexists>service. request_allowed cfg msg service) \<and> code = refusal_code cfg msg \<and> data = Map.empty"
  by (auto simp: validateServiceRequest_def NewServer_tables request_allowed_def service_compress_def
      refusal_code_def Let_def split: option.splits if_splits)

lemma handshake_granted:
  assumes "handleServiceHandshake (NewServer cfg) Q rd wr st = Some (Inr (service, name, protocol), st')"
  obtains msg st1 where "receiveMessage Q rd st = Some (Inr msg, st1)" and "m_Type msg = SERVICE_REQUEST"
    and "request_allowed cfg msg service" and "name = m_ServiceName msg" and "protocol = m_Protocol msg"
    and "SendServiceResponse Q wr st1 True NO_ERROR
           (''Service '' @ quoted name @ '' ready with protocol '' @ quoted protocol)
           [''zstd'' \<mapsto> format_bool (service_compress cfg service)] = Some (None, st')"
proof -
  obtain r st1 where rr: "receiveMessage Q rd st = Some (r, st1)"
    using assms by (cases "receiveMessage Q rd st") (auto simp: handleServiceHandshake_def ReceiveOne_def)
  with assms obtain msg where "r = Inr msg"
    by (cases r) (auto simp: handleServiceHandshake_def ReceiveOne_def)
  with rr have r: "receiveMessage Q rd st = Some (Inr msg, st1)" by simp
  with assms have t: "m_Type msg = SERVICE_REQUEST" "\<not> (m_ServiceName msg = [] \<or> m_Protocol msg = [])"
    by (auto simp: handleServiceHandshake_def ReceiveOne_def split: if_splits)
  obtain so data code info where v: "validateServiceRequest (NewServer cfg) msg = (so, data, code, info)"
    by (metis prod.exhaust)
  with assms r t have so: "so = Some service" and n: "name = m_ServiceName msg" "protocol = m_Protocol msg"
    and w: "SendServiceResponse Q wr st1 True NO_ERROR info data = Some (None, st')"
    by (auto simp: handleServiceHandshake_def ReceiveOne_def bind_eq_Some_conv split: option.splits)
  from v so have "request_allowed cfg msg service"
    "data = [''zstd'' \<mapsto> format_bool (service_compress cfg service)]"
    "info = ''Service '' @ quoted name @ '' ready with protocol '' @ quoted protocol"
    using validate_granted [of cfg msg service data code info] n by auto
  with that r t n w show thesis by blast
qed

lemma data_on_proxy:
  assumes "handle_data_on (NewServer cfg) Q dial rd wr si st = Some (Inr (Proxy c), st')"
  obtains msg st1 service where "receiveMessage Q rd st = Some (Inr msg, st1)"
    and "request_allowed cfg msg service" and "m_Protocol msg \<in> {''tcp'', ''udp''}"
    and "dial (m_Protocol msg) (sc_Target service) = Inr c"
proof -
  obtain service name protocol st1 where
    h: "handleServiceHandshake (NewServer cfg) Q rd wr st = Some (Inr (service, name, protocol), st1)"
    and p: "connectAndProxy dial protocol (sc_Target service) = Inr (Proxy c)"
  proof (cases "handleServiceHandshake (NewServer cfg) Q rd wr st")
    case (Some a)
    then show thesis using assms that
      by (cases a; cases "fst a") (auto simp: handle_data_on_def Let_def split: sum.splits prod.splits)
  qed (use assms in \<open>simp add: handle_data_on_def\<close>)
  from h obtain msg st0 where "receiveMessage Q rd st = Some (Inr msg, st0)"
    "request_allowed cfg msg service" "protocol = m_Protocol msg"
    by (rule handshake_granted)
  with that p show thesis by (auto simp: connectAndProxy_def split: if_splits sum.splits)
qed

text \<open>The first message on a data connection, plain or compressed.\<close>

definition first_message :: "proto_lib \<Rightarrow> zstd_lib \<Rightarrow> bool \<Rightarrow> string \<Rightarrow> conn \<Rightarrow> UnifiedMessage \<Rightarrow> bool" where
  "first_message Q L useZstd peer stream msg \<longleftrightarrow>
     (if useZstd
      then \<exists>z. receiveMessage Q (zstd_Read L conn_read) (SetInfo (NewZstdDuplex stream) ''server'' [] peer []) =
                 Some (Inr msg, z)
      else \<exists>c'. receiveMessage Q conn_read stream = Some (Inr msg, c'))"

lemma data_connection_target:
  assumes "handleDataConnection (NewServer cfg) Q P L dial stream peer useZstd = Some (Inr (Proxy c), stream')"
  shows "\<exists>msg service. first_message Q L useZstd peer stream msg \<and> request_allowed cfg msg service \<and>
      service \<in> set (s_Services (F2P_Config.Config.Server cfg)) \<and>
      m_Protocol msg \<in> {''tcp'', ''udp''} \<and> dial (m_Protocol msg) (sc_Target service) = Inr c"
proof (cases useZstd)
  case True
  with assms obtain z where
    h: "handle_data_on (NewServer cfg) Q dial (zstd_Read L conn_read) (zstd_Write P L conn_write)
         (\<lambda>z n p. SetInfo z [] n [] p) (SetInfo (NewZstdDuplex stream) ''server'' [] peer []) =
       Some (Inr (Proxy c), z)"
    by (auto simp: handleDataConnection_def)
  from h show ?thesis
    by (rule data_on_proxy) (use True in \<open>auto simp: first_message_def request_allowed_def dest: find_service_name\<close>)
next
  case False
  with assms obtain z where
    h: "handle_data_on (NewServer cfg) Q dial conn_read conn_write (\<lambda>c _ _. c) stream = Some (Inr (Proxy c), z)"
    by (auto simp: handleDataConnection_def)
  from h show ?thesis
    by (rule data_on_proxy) (use False in \<open>auto simp: first_message_def request_allowed_def dest: find_service_name\<close>)
qed

text \<open>C9: if a data stream, plain or compressed, ends up connected to a target, then its peer is
  authenticated, the first message on it was a request that the configuration allows, and the target
  that was dialled is the configured target of that service, with the requested protocol. No client
  reaches an address that the configuration does not name.\<close>

theorem data_stream_target:
  assumes "handleDataStream (NewServer cfg) Q P L dial auth protoID peer stream =
             Some (Some (Inr (Proxy c)), stream')"
  shows "auth \<and> (\<exists>msg service. first_message Q L (HasSuffix protoID ''/data+zstd'') peer stream msg \<and>
      request_allowed cfg msg service \<and> service \<in> set (s_Services (F2P_Config.Config.Server cfg)) \<and>
      m_Protocol msg \<in> {''tcp'', ''udp''} \<and> dial (m_Protocol msg) (sc_Target service) = Inr c)"
proof -
  have a: auth and h: "handleDataConnection (NewServer cfg) Q P L dial stream peer (HasSuffix protoID ''/data+zstd'') =
      Some (Inr (Proxy c), stream')"
    using assms by (auto simp: handleDataStream_def Let_def split: if_splits)
  show ?thesis using a data_connection_target [OF h] by simp
qed

section \<open>Authentication\<close>

lemma handleAuthOnControl_success:
  assumes "handleAuthOnControl s B Q wr st wait = Some (None, st')"
  shows "\<exists>msg st1 st2. SendPasswordRequired Q wr st (PasswordHash (F2P_Config.Config.Server (config s)) \<noteq> []) = Some (None, st1) \<and>
      wait [AUTH_REQUEST, CLIENT_SHUTDOWN] st1 = Some (Inr msg, st2) \<and> m_Type msg = AUTH_REQUEST \<and>
      (PasswordHash (F2P_Config.Config.Server (config s)) = [] \<or>
       VerifyPassword B (m_Password msg) (PasswordHash (F2P_Config.Config.Server (config s)))) \<and>
      SendAuthResponse Q wr st2 True [] = Some (None, st')"
proof -
  obtain st1 where 1: "SendPasswordRequired Q wr st (PasswordHash (F2P_Config.Config.Server (config s)) \<noteq> []) = Some (None, st1)"
    using assms by (auto simp: handleAuthOnControl_def Let_def bind_eq_Some_conv split: option.splits)
  obtain r st2 where 2: "wait [AUTH_REQUEST, CLIENT_SHUTDOWN] st1 = Some (r, st2)"
    using assms 1 by (auto simp: handleAuthOnControl_def Let_def bind_eq_Some_conv)
  obtain msg where 3: "r = Inr msg"
    using assms 1 2 by (cases r) (auto simp: handleAuthOnControl_def Let_def bind_eq_Some_conv)
  show ?thesis
    using assms 1 2 3 by (auto simp: handleAuthOnControl_def Let_def bind_eq_Some_conv split: if_splits option.splits)
qed

text \<open>The authentication handshake succeeds only if an \<^verbatim>\<open>AUTH_REQUEST\<close> arrived in time, its
  password verifies against the configured hash (or no hash is configured), and both messages of the
  server could be sent. In particular a timeout, a shutdown message and a wrong password fail.\<close>

theorem auth_sound:
  assumes "handleAuthOnControl s B Q wr st wait = Some (None, st')"
  shows "\<exists>msg st1 st2. SendPasswordRequired Q wr st (PasswordHash (F2P_Config.Config.Server (config s)) \<noteq> []) = Some (None, st1) \<and>
      wait [AUTH_REQUEST, CLIENT_SHUTDOWN] st1 = Some (Inr msg, st2) \<and> m_Type msg = AUTH_REQUEST \<and>
      (PasswordHash (F2P_Config.Config.Server (config s)) = [] \<or>
       VerifyPassword B (m_Password msg) (PasswordHash (F2P_Config.Config.Server (config s)))) \<and>
      SendAuthResponse Q wr st2 True [] = Some (None, st')"
  by (rule handleAuthOnControl_success [OF assms])

section \<open>Refused streams\<close>

text \<open>Reading and writing messages keeps what the single reads and writes keep.\<close>

lemma receiveMessage_keeps:
  assumes "\<And>s n. I s \<Longrightarrow> keeps I (rd s n)" and "I s"
  shows "keeps I (receiveMessage Q rd s)"
  unfolding receiveMessage_def
  by (rule keeps_bind [OF ReadFull_keeps [of I rd, OF assms]])
    (auto simp: Let_def split: option.splits sum.splits intro!: keeps_bind [OF ReadFull_keeps [of I rd, OF assms(1)]])

lemma SendWithTTL_keeps:
  assumes "\<And>s p. I s \<Longrightarrow> keeps I (wr s p)" and "I s"
  shows "keeps I (SendWithTTL Q wr s msg ttl)"
  using assms(2)
  by (auto simp: SendWithTTL_def sendMessage_def Let_def split: option.splits sum.splits
      intro!: keeps_bind [OF writeFull_keeps [of I wr, OF assms(1)]] writeFull_keeps [of I wr, OF assms(1)])

lemma handle_data_on_keeps:
  assumes "\<And>s n. I s \<Longrightarrow> keeps I (rd s n)" and "\<And>s p. I s \<Longrightarrow> keeps I (wr s p)"
    and "\<And>s a b. I s \<Longrightarrow> I (si s a b)" and "I st"
  shows "keeps I (handle_data_on s Q dial rd wr si st)"
  unfolding handle_data_on_def handleServiceHandshake_def ReceiveOne_def SendServiceResponse_def
  by (intro keeps_bind [OF keeps_bind [OF receiveMessage_keeps [of I rd, OF assms(1)], where J = I], where J = I] assms(4))
    (auto simp: Let_def assms split: option.splits sum.splits prod.splits
      intro!: keeps_bind [OF SendWithTTL_keeps [of I wr, OF assms(2)]])


lemma conn_keeps_open:
  "\<not> is_closed c \<Longrightarrow> keeps (\<lambda>c. \<not> is_closed c) (conn_read c n)"
  "\<not> is_closed c \<Longrightarrow> keeps (\<lambda>c. \<not> is_closed c) (conn_write c p)"
  using conn_read_keeps conn_write_keeps by (fastforce simp: keeps_def)+

text \<open>A data stream whose handshake or dialling fails is left open: \<^verbatim>\<open>handleDataConnection\<close>
  reports the error without closing the stream, and its callers drop the error.\<close>

theorem refused_stream_left_open:
  assumes "handleDataStream s Q P L dial True protoID peer stream = Some (Some (Inl e), stream')"
    and "\<not> HasSuffix protoID ''/data+zstd''" and "\<not> is_closed stream"
  shows "\<exists>c. stream' = Plain c \<and> \<not> is_closed c"
proof -
  have "keeps (\<lambda>c. \<not> is_closed c) (handle_data_on s Q dial conn_read conn_write (\<lambda>c _ _. c) stream)"
    by (rule handle_data_on_keeps) (simp_all add: conn_keeps_open assms(3))
  then show ?thesis
    using assms(1,2) by (auto simp: handleDataStream_def handleDataConnection_def keeps_def)
qed

section \<open>Examples\<close>

definition example_server_config :: Config where
  "example_server_config =
     \<lparr>IsServer = True, Identity = \<lparr>PrivateKey = ''CAE='', PeerID = ''12D3KooWServer''\<rparr>,
      Server = \<lparr>PasswordHash = ''$secret'', Compress = True,
        s_Services = [\<lparr>sc_Name = ''ssh'', sc_Target = ''127.0.0.1:22'', sc_Password = ''pw'',
          sc_Protocol = [''tcp''], sc_Enabled = True, sc_Compress = Some False\<rparr>]\<rparr>,
      Client = zero_client, Common = createDefaultCommonConfig\<rparr>"

definition example_request :: UnifiedMessage where
  "example_request = zero_message\<lparr>m_Type := SERVICE_REQUEST, m_ServiceName := ''ssh'',
     m_Protocol := ''tcp'', m_ServicePassword := ''pw''\<rparr>"

text \<open>A protobuf parameter that knows one request, as the byte 1, and encodes every answer as 2.\<close>

definition request_proto :: proto_lib where
  "request_proto =
     \<lparr>Marshal = (\<lambda>m. if m = example_request then Inr [1] else Inr [2]),
      Unmarshal = (\<lambda>d. if d = [1] then Inr example_request else Inr zero_message)\<rparr>"

definition request_stream :: conn where
  "request_stream = fresh_conn\<lparr>in_segs := [[0, 0, 0, 1, 1]]\<rparr>"

lemma receive_example:
  "receiveMessage request_proto conn_read request_stream =
     Some (Inr example_request, request_stream\<lparr>in_segs := [[]]\<rparr>)"
  by (simp add: receiveMessage_def ReadFull_def ReadFull_loop.simps request_stream_def fresh_conn_def
      conn_read_def join_uint32_def request_proto_def maxProtoMsgSize_def Let_def)

lemma ttl_default: "ttl_of defaultControlTTL = Inr 30000"
  by (simp add: ttl_of_def defaultControlTTL_def)

lemma send_example:
  "m \<noteq> example_request \<Longrightarrow> conn_healthy c \<Longrightarrow>
   sendMessage request_proto conn_write c m = Some (None, c\<lparr>out_bytes := out_bytes c @ [0, 0, 0, 1, 2]\<rparr>)"
  by (simp add: sendMessage_def request_proto_def maxProtoMsgSize_def writeFull.simps conn_write_def
      conn_healthy_def Let_def)

theorem auth_sound_witness:
  "\<exists>st'. handleAuthOnControl (NewServer example_server_config) example_bcrypt request_proto conn_write fresh_conn
       (answers (Inr (zero_message\<lparr>m_Type := AUTH_REQUEST, m_Password := ''secret''\<rparr>))) = Some (None, st') \<and>
     VerifyPassword example_bcrypt ''secret'' ''$secret''"
proof -
  let ?m = "zero_message\<lparr>m_Type := AUTH_REQUEST, m_Password := ''secret''\<rparr>"
  have "\<exists>st'. handleAuthOnControl (NewServer example_server_config) example_bcrypt request_proto conn_write
      fresh_conn (answers (Inr ?m)) = Some (None, st')"
    by (simp add: handleAuthOnControl_def NewServer_tables example_server_config_def SendPasswordRequired_def
        SendAuthResponse_def SendWithTTL_def ttl_default send_example example_request_def zero_message_def
        conn_healthy_def fresh_conn_def VerifyPassword_def example_bcrypt_def Let_def)
  then obtain st' where h: "handleAuthOnControl (NewServer example_server_config) example_bcrypt request_proto conn_write
      fresh_conn (answers (Inr ?m)) = Some (None, st')" by blast
  from auth_sound [OF h] have "VerifyPassword example_bcrypt ''secret'' ''$secret''"
    by (auto simp: NewServer_tables example_server_config_def)
  with h show ?thesis by blast
qed

lemma example_data:
  "\<exists>st'. handleDataStream (NewServer example_server_config) request_proto default_zstd_params example_zstd
       (\<lambda>net addr. if addr = ''127.0.0.1:22'' then Inr net else Inl EOF) True ''/f2p/data'' ''peer'' request_stream
     = Some (Some (Inr (Proxy ''tcp'')), st')"
  by (simp add: handleDataStream_def handleDataConnection_def handle_data_on_def handleServiceHandshake_def
      ReceiveOne_def receive_example)
     (simp add: example_request_def zero_message_def validateServiceRequest_def NewServer_tables
      find_service_def example_server_config_def HasSuffix_def SendServiceResponse_def SendWithTTL_def ttl_default
      send_example conn_healthy_def request_stream_def fresh_conn_def connectAndProxy_def Let_def)

theorem data_stream_target_witness:
  "\<exists>msg service. request_allowed example_server_config msg service \<and> sc_Target service = ''127.0.0.1:22''"
proof -
  obtain st' where "handleDataStream (NewServer example_server_config) request_proto default_zstd_params example_zstd
       (\<lambda>net addr. if addr = ''127.0.0.1:22'' then Inr net else Inl EOF) True ''/f2p/data'' ''peer'' request_stream
     = Some (Some (Inr (Proxy ''tcp'')), st')" using example_data by blast
  from data_stream_target [OF this] show ?thesis by (auto split: if_splits)
qed

theorem refused_stream_left_open_witness:
  "\<exists>e c. handleDataStream (NewServer example_server_config) request_proto default_zstd_params example_zstd
       (\<lambda>net addr. Inl EOF :: error + unit) True ''/f2p/data'' ''peer'' fresh_conn = Some (Some (Inl e), Plain c) \<and>
     \<not> is_closed c"
proof -
  have "\<exists>e c. handleDataStream (NewServer example_server_config) request_proto default_zstd_params example_zstd
       (\<lambda>net addr. Inl EOF :: error + unit) True ''/f2p/data'' ''peer'' fresh_conn = Some (Some (Inl e), c)"
    by (simp add: handleDataStream_def handleDataConnection_def handle_data_on_def handleServiceHandshake_def
        ReceiveOne_def receiveMessage_def ReadFull_def ReadFull_loop.simps fresh_conn_def conn_read_def
        HasSuffix_def)
  then show ?thesis
    using refused_stream_left_open [where stream = fresh_conn and protoID = "''/f2p/data''"]
    by (fastforce simp: HasSuffix_def fresh_conn_def)
qed

end
