(* ===== verification/F2P_Sessions.thy ===== *)
theory F2P_Sessions
  imports F2P_Service
begin

text \<open>
  The session table of \<^verbatim>\<open>internal/server\<close>: \<^verbatim>\<open>handleControlStream\<close>, \<^verbatim>\<open>handleAuthenticationStream\<close>,
  \<^verbatim>\<open>handleQUICControlStream\<close> and the clean-up of \<^verbatim>\<open>monitorControlStream\<close> are handlers that run
  concurrently, one per control stream, and touch the table only under its lock. Their lock
  sections are the steps of the relation \<open>sstep\<close>. A control stream is a number; the session it
  creates is known by the same number, which stands for the pointer to the session. The monitor
  itself, with its heartbeat, is the function \<open>monitor_step\<close>. The lemmas show that only peers
  that authenticated are in the table, that every entry has a monitor that will remove it, how the
  monitor treats silent and responsive clients, and two runs in which replacing a session harms the
  new one.
\<close>

section \<open>The heartbeat monitor\<close>

record monitor_state =
  missed :: int
  waitingAck :: bool

definition monitor_init :: monitor_state where
  "monitor_init = \<lparr>missed = 0, waitingAck = False\<rparr>"

definition maxMissed :: int where "maxMissed = 2"

text \<open>What the \<^verbatim>\<open>select\<close> of the monitor receives; a tick carries the result of sending the ping.\<close>

datatype monitor_event = CtxDone | Tick "error option" | Received UnifiedMessage | ReadFailed error

datatype monitor_action = SentPing | Verified UnifiedMessage

text \<open>\<open>None\<close>: the monitor returns.\<close>

fun monitor_step :: "monitor_state \<Rightarrow> monitor_event \<Rightarrow> (monitor_state \<times> monitor_action list) option" where
  "monitor_step m CtxDone = None"
| "monitor_step m (Tick sendErr) =
     (let m1 = (if waitingAck m then m\<lparr>missed := missed m + 1, waitingAck := False\<rparr> else m)
      in if waitingAck m \<and> missed m1 \<ge> maxMissed then None
         else (case sendErr of
                 Some e \<Rightarrow> None
               | None \<Rightarrow> Some (m1\<lparr>waitingAck := True\<rparr>, [SentPing])))"
| "monitor_step m (ReadFailed e) = None"
| "monitor_step m (Received msg) =
     (if IsShutdownMessage (Some msg) then None
      else if m_Type msg = HEARTBEAT then
        (if waitingAck m \<and> m_Message msg = ''pong'' then Some (m\<lparr>missed := 0, waitingAck := False\<rparr>, [])
         else Some (m, []))
      else if m_Type msg = SERVICE_REQUEST then Some (m, [Verified msg])
      else Some (m, []))"

text \<open>The loop: \<open>Inl n\<close> when it returned at the event number \<open>n\<close>, otherwise its state.\<close>

fun monitor_run :: "monitor_state \<Rightarrow> monitor_event list \<Rightarrow> nat + monitor_state" where
  "monitor_run m [] = Inr m"
| "monitor_run m (e # es) =
     (case monitor_step m e of
        None \<Rightarrow> Inl 0
      | Some (m', _) \<Rightarrow> map_sum Suc id (monitor_run m' es))"

section \<open>The table\<close>

datatype kind = Libp2p | QUIC

record ClientSession =
  peerID :: string
  controlStream :: "nat option"

record stream_info =
  st_kind :: kind
  st_peer :: string
  st_open :: bool

datatype handler =
    H_Check | H_Auth | H_ClosePeer | H_Lock | H_CloseOld nat | H_Install | H_Tag | H_Done

datatype monitor_pc = M_Run | M_Delete | M_Untag | M_Close | M_Done

record sessions_state =
  authenticatedClients :: "string \<rightharpoonup> nat"
  sessions :: "nat \<rightharpoonup> ClientSession"
  dispClosed :: "nat set"
  streams :: "nat \<rightharpoonup> stream_info"
  handlers :: "nat \<rightharpoonup> handler"
  monitors :: "nat \<rightharpoonup> monitor_pc"
  tags :: "string set"
  auths :: "(nat \<times> (error + UnifiedMessage)) set"

definition sessions_init :: sessions_state where
  "sessions_init =
     \<lparr>authenticatedClients = Map.empty, sessions = Map.empty, dispClosed = {}, streams = Map.empty,
      handlers = Map.empty, monitors = Map.empty, tags = {}, auths = {}\<rparr>"

definition close_stream :: "nat \<Rightarrow> sessions_state \<Rightarrow> sessions_state" where
  "close_stream i s = s\<lparr>streams := (\<lambda>j. if j = i then map_option (st_open_update (\<lambda>_. False)) (streams s j) else streams s j)\<rparr>"

text \<open>\<^verbatim>\<open>host.Network().ClosePeer\<close> closes every libp2p stream of the peer; a direct QUIC connection
  is not one of them.\<close>

definition ClosePeer :: "string \<Rightarrow> sessions_state \<Rightarrow> sessions_state" where
  "ClosePeer p s = s\<lparr>streams := (\<lambda>j. map_option
     (\<lambda>i. if st_kind i = Libp2p \<and> st_peer i = p then i\<lparr>st_open := False\<rparr> else i) (streams s j))\<rparr>"

definition close_control :: "nat option \<Rightarrow> sessions_state \<Rightarrow> sessions_state" where
  "close_control so s = (case so of Some i \<Rightarrow> close_stream i s | None \<Rightarrow> s)"

definition new_session :: "nat \<Rightarrow> stream_info \<Rightarrow> ClientSession" where
  "new_session i st = \<lparr>peerID = st_peer st, controlStream = (if st_kind st = Libp2p then Some i else None)\<rparr>"

text \<open>The first lines of the handlers: authenticate, or replace an existing session.\<close>

definition handler_check :: "nat \<Rightarrow> stream_info \<Rightarrow> sessions_state \<Rightarrow> sessions_state" where
  "handler_check i st s =
     s\<lparr>handlers := (handlers s)(i \<mapsto>
        (if authenticatedClients s (st_peer st) = None then H_Auth else H_Lock))\<rparr>"

definition handler_lock :: "nat \<Rightarrow> stream_info \<Rightarrow> sessions_state \<Rightarrow> sessions_state" where
  "handler_lock i st s =
     (case authenticatedClients s (st_peer st) of
        Some old \<Rightarrow> s\<lparr>authenticatedClients := (authenticatedClients s)(st_peer st := None),
                      handlers := (handlers s)(i \<mapsto> H_CloseOld old)\<rparr>
      | None \<Rightarrow> s\<lparr>handlers := (handlers s)(i \<mapsto> H_Install)\<rparr>)"

definition handler_close_old :: "nat \<Rightarrow> nat \<Rightarrow> sessions_state \<Rightarrow> sessions_state" where
  "handler_close_old i old s =
     (let s1 = s\<lparr>dispClosed := insert old (dispClosed s)\<rparr>;
          s2 = (case sessions s old of Some cs \<Rightarrow> close_control (controlStream cs) s1 | None \<Rightarrow> s1)
      in s2\<lparr>handlers := (handlers s2)(i \<mapsto> H_Install)\<rparr>)"

definition handler_install :: "nat \<Rightarrow> stream_info \<Rightarrow> sessions_state \<Rightarrow> sessions_state" where
  "handler_install i st s =
     s\<lparr>sessions := (sessions s)(i \<mapsto> new_session i st),
       authenticatedClients := (authenticatedClients s)(st_peer st \<mapsto> i),
       handlers := (handlers s)(i \<mapsto> H_Tag)\<rparr>"

definition handler_tag :: "nat \<Rightarrow> stream_info \<Rightarrow> sessions_state \<Rightarrow> sessions_state" where
  "handler_tag i st s =
     s\<lparr>tags := insert (st_peer st) (tags s), monitors := (monitors s)(i \<mapsto> M_Run),
       handlers := (handlers s)(i \<mapsto> H_Done)\<rparr>"

text \<open>A failed authentication: the libp2p handler closes the peer after a pause, the QUIC handler
  its stream.\<close>

definition handler_auth_failed :: "nat \<Rightarrow> stream_info \<Rightarrow> sessions_state \<Rightarrow> sessions_state" where
  "handler_auth_failed i st s =
     (if st_kind st = Libp2p
      then s\<lparr>dispClosed := insert i (dispClosed s), handlers := (handlers s)(i \<mapsto> H_ClosePeer)\<rparr>
      else (close_stream i s)\<lparr>dispClosed := insert i (dispClosed s), handlers := (handlers s)(i \<mapsto> H_Done)\<rparr>)"

text \<open>The deferred clean-up of the monitor, in its four parts.\<close>

definition monitor_delete :: "nat \<Rightarrow> ClientSession \<Rightarrow> sessions_state \<Rightarrow> sessions_state" where
  "monitor_delete i clientSession s =
     (let current = (case authenticatedClients s (peerID clientSession) of
                       Some c \<Rightarrow> sessions s c | None \<Rightarrow> None);
          s1 = (case current of
                  Some cur \<Rightarrow> if controlStream cur = controlStream clientSession
                    then s\<lparr>authenticatedClients := (authenticatedClients s)(peerID clientSession := None)\<rparr>
                    else s
                | None \<Rightarrow> s)
      in s1\<lparr>monitors := (monitors s1)(i \<mapsto> M_Untag)\<rparr>)"

definition monitor_untag :: "nat \<Rightarrow> ClientSession \<Rightarrow> sessions_state \<Rightarrow> sessions_state" where
  "monitor_untag i clientSession s =
     s\<lparr>tags := tags s - {peerID clientSession}, monitors := (monitors s)(i \<mapsto> M_Close)\<rparr>"

definition monitor_close :: "nat \<Rightarrow> ClientSession \<Rightarrow> sessions_state \<Rightarrow> sessions_state" where
  "monitor_close i clientSession s =
     (let s1 = close_control (controlStream clientSession) s;
          s2 = s1\<lparr>dispClosed := insert i (dispClosed s1)\<rparr>;
          s3 = ClosePeer (peerID clientSession) s2
      in s3\<lparr>monitors := (monitors s3)(i \<mapsto> M_Done)\<rparr>)"

inductive sstep ::
    "Server \<Rightarrow> bcrypt_lib \<Rightarrow> proto_lib \<Rightarrow> sessions_state \<Rightarrow> sessions_state \<Rightarrow> bool" for S B Q where
  open_stream: "streams s i = None \<Longrightarrow>
    sstep S B Q s (s\<lparr>streams := (streams s)(i \<mapsto> \<lparr>st_kind = k, st_peer = p, st_open = True\<rparr>),
      handlers := (handlers s)(i \<mapsto> H_Check)\<rparr>)"
| check: "handlers s i = Some H_Check \<Longrightarrow> streams s i = Some st \<Longrightarrow> sstep S B Q s (handler_check i st s)"
| auth_ok: "handlers s i = Some H_Auth \<Longrightarrow>
    handleAuthOnControl S B Q conn_write c (answers waited) = Some (None, c') \<Longrightarrow>
    sstep S B Q s (s\<lparr>auths := insert (i, waited) (auths s), handlers := (handlers s)(i \<mapsto> H_Install)\<rparr>)"
| auth_failed: "handlers s i = Some H_Auth \<Longrightarrow> streams s i = Some st \<Longrightarrow>
    handleAuthOnControl S B Q conn_write c (answers waited) = Some (Some e, c') \<Longrightarrow>
    sstep S B Q s (handler_auth_failed i st s)"
| close_peer: "handlers s i = Some H_ClosePeer \<Longrightarrow> streams s i = Some st \<Longrightarrow>
    sstep S B Q s ((ClosePeer (st_peer st) s)\<lparr>handlers := (handlers s)(i \<mapsto> H_Done)\<rparr>)"
| lock: "handlers s i = Some H_Lock \<Longrightarrow> streams s i = Some st \<Longrightarrow> sstep S B Q s (handler_lock i st s)"
| close_old: "handlers s i = Some (H_CloseOld old) \<Longrightarrow> sstep S B Q s (handler_close_old i old s)"
| install: "handlers s i = Some H_Install \<Longrightarrow> streams s i = Some st \<Longrightarrow>
    sstep S B Q s (handler_install i st s)"
| tag: "handlers s i = Some H_Tag \<Longrightarrow> streams s i = Some st \<Longrightarrow> sstep S B Q s (handler_tag i st s)"
| mon_return: "monitors s i = Some M_Run \<Longrightarrow> sstep S B Q s (s\<lparr>monitors := (monitors s)(i \<mapsto> M_Delete)\<rparr>)"
| mon_delete: "monitors s i = Some M_Delete \<Longrightarrow> sessions s i = Some cs \<Longrightarrow>
    sstep S B Q s (monitor_delete i cs s)"
| mon_untag: "monitors s i = Some M_Untag \<Longrightarrow> sessions s i = Some cs \<Longrightarrow>
    sstep S B Q s (monitor_untag i cs s)"
| mon_close: "monitors s i = Some M_Close \<Longrightarrow> sessions s i = Some cs \<Longrightarrow>
    sstep S B Q s (monitor_close i cs s)"
| stream_lost: "sstep S B Q s (close_stream i s)"

definition sreach :: "Server \<Rightarrow> bcrypt_lib \<Rightarrow> proto_lib \<Rightarrow> sessions_state \<Rightarrow> bool" where
  "sreach S B Q s \<longleftrightarrow> (sstep S B Q)\<^sup>*\<^sup>* sessions_init s"

section \<open>The monitor\<close>

definition is_pong :: "monitor_event \<Rightarrow> bool" where
  "is_pong e \<longleftrightarrow> (\<exists>m. e = Received m \<and> m_Type m = HEARTBEAT \<and> m_Message m = ''pong'')"

text \<open>Events that neither answer a ping nor end the session.\<close>

definition harmless :: "monitor_event \<Rightarrow> bool" where
  "harmless e \<longleftrightarrow> (\<exists>m. e = Received m \<and> \<not> IsShutdownMessage (Some m) \<and> \<not> is_pong e)"

lemma monitor_run_append:
  "monitor_run m (es @ es') =
     (case monitor_run m es of Inl n \<Rightarrow> Inl n | Inr m' \<Rightarrow> map_sum ((+) (length es)) id (monitor_run m' es'))"
proof (induction es arbitrary: m)
  case Nil
  then show ?case by (cases "monitor_run m es'") auto
next
  case (Cons e es)
  show ?case
  proof (cases "monitor_step m e")
    case (Some r)
    then obtain m' a where "monitor_step m e = Some (m', a)" by (cases r) auto
    with Cons show ?thesis by (auto simp: sum.map_comp comp_def id_def split: sum.splits)
  qed simp
qed

lemma harmless_step: "harmless e \<Longrightarrow> \<exists>a. monitor_step m e = Some (m, a)"
  by (auto simp: harmless_def is_pong_def)

lemma monitor_run_harmless: "list_all harmless es \<Longrightarrow> monitor_run m es = Inr m"
proof (induction es)
  case (Cons e es)
  then show ?case using harmless_step [of e m] by auto
qed simp

lemma monitor_run_pong:
  assumes "list_all (\<lambda>e. harmless e \<or> is_pong e) es" and "\<exists>e \<in> set es. is_pong e" and "waitingAck m"
  shows "monitor_run m es = Inr (m\<lparr>missed := 0, waitingAck := False\<rparr>)"
proof -
  obtain es1 e es2 where es: "es = es1 @ e # es2" and e: "is_pong e" and h: "\<forall>x \<in> set es1. \<not> is_pong x"
    using assms(2) by (metis split_list_first_prop)
  have h1: "list_all harmless es1" using assms(1) h es by (auto simp: list_all_iff)
  have "monitor_run m' es2 = Inr m'" if "\<not> waitingAck m'" for m'
    using assms(1) es that
  proof (induction es2 arbitrary: es)
    case (Cons x xs)
    then have "harmless x \<or> is_pong x" by simp
    then have "\<exists>a. monitor_step m' x = Some (m', a)"
      using Cons.prems(3) harmless_step by (auto simp: is_pong_def IsShutdownMessage_def)
    moreover have "monitor_run m' xs = Inr m'" using Cons.IH [of "es1 @ e # xs"] Cons.prems by simp
    ultimately show ?case by auto
  qed simp
  with monitor_run_harmless [OF h1, of m] e assms(3) show ?thesis
    by (auto simp: es monitor_run_append is_pong_def IsShutdownMessage_def)
qed

text \<open>A client that never answers is cut off at the third tick, whatever other messages it sends
  in between: the first tick sends a ping, the second counts one missed answer and sends another, the
  third counts the second and returns (as long as sending works).\<close>

theorem monitor_silent_client:
  assumes "list_all harmless a" and "list_all harmless b" and "list_all harmless c"
  shows "monitor_run monitor_init (a @ Tick None # b @ Tick None # c @ Tick None # rest) =
           Inl (length a + length b + length c + 2)"
  by (simp add: monitor_run_append monitor_run_harmless assms monitor_init_def maxMissed_def)

theorem monitor_silent_client_witness:
  "monitor_run monitor_init ([] @ Tick None # [Received (zero_message\<lparr>m_Type := SERVICE_REQUEST\<rparr>)] @ Tick None # [] @ Tick None # [])
     = Inl 3"
  using monitor_silent_client [of "[]" "[Received (zero_message\<lparr>m_Type := SERVICE_REQUEST\<rparr>)]" "[]" "[]"]
  by (simp add: harmless_def is_pong_def IsShutdownMessage_def)

text \<open>C33: a client that answers every ping before the next tick, and sends no shutdown message, is
  never cut off: after any number of rounds the monitor still runs with no missed answer.\<close>

theorem monitor_responsive_client:
  assumes "\<forall>es \<in> set rounds. list_all (\<lambda>e. harmless e \<or> is_pong e) es \<and> (\<exists>e \<in> set es. is_pong e)"
  shows "monitor_run monitor_init (concat (map (\<lambda>es. Tick None # es) rounds)) = Inr monitor_init"
  using assms
proof (induction rounds)
  case (Cons es rounds)
  have "monitor_run (monitor_init\<lparr>waitingAck := True\<rparr>) es = Inr monitor_init"
    using Cons.prems monitor_run_pong [of es "monitor_init\<lparr>waitingAck := True\<rparr>"] by (simp add: monitor_init_def)
  with Cons show ?case by (simp add: monitor_run_append) (simp add: monitor_init_def)
qed simp

theorem monitor_responsive_client_witness:
  "monitor_run monitor_init
     (concat (map (\<lambda>es. Tick None # es)
        [[Received (zero_message\<lparr>m_Type := HEARTBEAT, m_Message := ''pong''\<rparr>)],
         [Received (zero_message\<lparr>m_Type := HEARTBEAT, m_Message := ''pong''\<rparr>)]])) = Inr monitor_init"
  by (rule monitor_responsive_client) (simp add: is_pong_def)

section \<open>The invariant of the table\<close>

text \<open>Kind and peer of a stream, which never change.\<close>

definition info :: "sessions_state \<Rightarrow> nat \<Rightarrow> (kind \<times> string) option" where
  "info s i = map_option (\<lambda>st. (st_kind st, st_peer st)) (streams s i)"

definition auth_valid :: "Server \<Rightarrow> bcrypt_lib \<Rightarrow> error + UnifiedMessage \<Rightarrow> bool" where
  "auth_valid S B w \<longleftrightarrow> (\<exists>msg. w = Inr msg \<and> m_Type msg = AUTH_REQUEST \<and>
     (PasswordHash (F2P_Config.Config.Server (config S)) = [] \<or>
      VerifyPassword B (m_Password msg) (PasswordHash (F2P_Config.Config.Server (config S)))))"

definition has_auth :: "Server \<Rightarrow> bcrypt_lib \<Rightarrow> sessions_state \<Rightarrow> string \<Rightarrow> bool" where
  "has_auth S B s p \<longleftrightarrow> (\<exists>j w k. (j, w) \<in> auths s \<and> info s j = Some (k, p) \<and> auth_valid S B w)"

text \<open>What a handler or a monitor in a given state relies on.\<close>

fun handler_ok :: "Server \<Rightarrow> bcrypt_lib \<Rightarrow> sessions_state \<Rightarrow> nat \<Rightarrow> string \<Rightarrow> handler \<Rightarrow> bool" where
  "handler_ok S B s i p H_Done \<longleftrightarrow> True"
| "handler_ok S B s i p H_Tag \<longleftrightarrow> monitors s i = None \<and> sessions s i \<noteq> None"
| "handler_ok S B s i p H_Check \<longleftrightarrow> monitors s i = None \<and> sessions s i = None"
| "handler_ok S B s i p H_Auth \<longleftrightarrow> monitors s i = None \<and> sessions s i = None"
| "handler_ok S B s i p H_ClosePeer \<longleftrightarrow> monitors s i = None \<and> sessions s i = None"
| "handler_ok S B s i p _ \<longleftrightarrow> monitors s i = None \<and> sessions s i = None \<and> has_auth S B s p"

definition table_ok :: "Server \<Rightarrow> bcrypt_lib \<Rightarrow> sessions_state \<Rightarrow> bool" where
  "table_ok S B s \<longleftrightarrow>
     (\<forall>i h. handlers s i = Some h \<longrightarrow> (\<exists>k p. info s i = Some (k, p) \<and> handler_ok S B s i p h)) \<and>
     (\<forall>i. handlers s i = None \<longrightarrow> sessions s i = None \<and> monitors s i = None) \<and>
     (\<forall>i cs. sessions s i = Some cs \<longrightarrow>
        (\<exists>k. info s i = Some (k, peerID cs) \<and> controlStream cs = (if k = Libp2p then Some i else None))) \<and>
     (\<forall>i m. monitors s i = Some m \<longrightarrow> sessions s i \<noteq> None) \<and>
     (\<forall>p i. authenticatedClients s p = Some i \<longrightarrow>
        has_auth S B s p \<and> (\<exists>cs. sessions s i = Some cs \<and> peerID cs = p) \<and>
        (handlers s i = Some H_Tag \<or> monitors s i \<in> {Some M_Run, Some M_Delete}))"

lemma table_okI:
  assumes "\<And>i h. handlers s i = Some h \<Longrightarrow> \<exists>k p. info s i = Some (k, p) \<and> handler_ok S B s i p h"
    and "\<And>i. handlers s i = None \<Longrightarrow> sessions s i = None \<and> monitors s i = None"
    and "\<And>i cs. sessions s i = Some cs \<Longrightarrow>
        \<exists>k. info s i = Some (k, peerID cs) \<and> controlStream cs = (if k = Libp2p then Some i else None)"
    and "\<And>i m. monitors s i = Some m \<Longrightarrow> sessions s i \<noteq> None"
    and "\<And>p i. authenticatedClients s p = Some i \<Longrightarrow>
        has_auth S B s p \<and> (\<exists>cs. sessions s i = Some cs \<and> peerID cs = p) \<and>
        (handlers s i = Some H_Tag \<or> monitors s i \<in> {Some M_Run, Some M_Delete})"
  shows "table_ok S B s"
  using assms unfolding table_ok_def by blast

lemma table_okD:
  assumes "table_ok S B s"
  shows "handlers s i = Some h \<Longrightarrow> \<exists>k p. info s i = Some (k, p) \<and> handler_ok S B s i p h"
    and "handlers s i = None \<Longrightarrow> sessions s i = None \<and> monitors s i = None"
    and "sessions s i = Some cs \<Longrightarrow>
        \<exists>k. info s i = Some (k, peerID cs) \<and> controlStream cs = (if k = Libp2p then Some i else None)"
    and "monitors s i = Some m \<Longrightarrow> sessions s i \<noteq> None"
    and "authenticatedClients s p = Some i \<Longrightarrow>
        has_auth S B s p \<and> (\<exists>cs. sessions s i = Some cs \<and> peerID cs = p) \<and>
        (handlers s i = Some H_Tag \<or> monitors s i \<in> {Some M_Run, Some M_Delete})"
  using assms unfolding table_ok_def by (blast, blast, blast, blast, blast)

lemma info_updates [simp]:
  "info (close_stream j s) = info s" "info (ClosePeer p s) = info s" "info (close_control so s) = info s"
  "info (s\<lparr>handlers := h\<rparr>) = info s" "info (s\<lparr>monitors := m\<rparr>) = info s" "info (s\<lparr>sessions := ss\<rparr>) = info s"
  "info (s\<lparr>authenticatedClients := ac\<rparr>) = info s" "info (s\<lparr>dispClosed := dc\<rparr>) = info s"
  "info (s\<lparr>tags := tg\<rparr>) = info s" "info (s\<lparr>auths := au\<rparr>) = info s"
  by (auto simp: fun_eq_iff info_def close_stream_def ClosePeer_def close_control_def option.map_comp comp_def
      split: option.splits intro!: option.map_cong)

lemma stream_updates [simp]:
  "handlers (close_stream j s) = handlers s" "monitors (close_stream j s) = monitors s"
  "sessions (close_stream j s) = sessions s" "authenticatedClients (close_stream j s) = authenticatedClients s"
  "auths (close_stream j s) = auths s" "tags (close_stream j s) = tags s"
  "handlers (ClosePeer p s) = handlers s" "monitors (ClosePeer p s) = monitors s"
  "sessions (ClosePeer p s) = sessions s" "authenticatedClients (ClosePeer p s) = authenticatedClients s"
  "auths (ClosePeer p s) = auths s" "tags (ClosePeer p s) = tags s"
  "handlers (close_control so s) = handlers s" "monitors (close_control so s) = monitors s"
  "sessions (close_control so s) = sessions s" "authenticatedClients (close_control so s) = authenticatedClients s"
  "auths (close_control so s) = auths s" "tags (close_control so s) = tags s"
  by (auto simp: close_stream_def ClosePeer_def close_control_def split: option.splits)

lemma has_auth_cong:
  "info s' = info s \<Longrightarrow> auths s \<subseteq> auths s' \<Longrightarrow> has_auth S B s p \<Longrightarrow> has_auth S B s' p"
  unfolding has_auth_def by (metis subsetD)

lemma has_auth_cong_eq:
  "info s' = info s \<Longrightarrow> auths s' = auths s \<Longrightarrow> has_auth S B s' = has_auth S B s"
  by (simp add: has_auth_def fun_eq_iff)

lemma has_auth_updates [simp]:
  "has_auth S B (close_stream j s) = has_auth S B s" "has_auth S B (ClosePeer p s) = has_auth S B s"
  "has_auth S B (close_control so s) = has_auth S B s"
  "has_auth S B (s\<lparr>handlers := h\<rparr>) = has_auth S B s" "has_auth S B (s\<lparr>monitors := m\<rparr>) = has_auth S B s"
  "has_auth S B (s\<lparr>sessions := ss\<rparr>) = has_auth S B s"
  "has_auth S B (s\<lparr>authenticatedClients := ac\<rparr>) = has_auth S B s"
  "has_auth S B (s\<lparr>dispClosed := dc\<rparr>) = has_auth S B s" "has_auth S B (s\<lparr>tags := tg\<rparr>) = has_auth S B s"
  by (simp_all add: has_auth_def fun_eq_iff)

lemma handler_ok_cong:
  "info s' = info s \<Longrightarrow> auths s \<subseteq> auths s' \<Longrightarrow> monitors s' i = monitors s i \<Longrightarrow> sessions s' i = sessions s i \<Longrightarrow>
   handler_ok S B s i p h \<Longrightarrow> handler_ok S B s' i p h"
  by (cases h) (auto intro: has_auth_cong)

text \<open>A step that leaves sessions, monitors, table and authentications alone and moves one handler.\<close>

lemma table_ok_handler:
  assumes "table_ok S B s" and "info s' = info s" and "auths s \<subseteq> auths s'"
    and "sessions s' = sessions s" and "monitors s' = monitors s"
    and "authenticatedClients s' = authenticatedClients s"
    and "handlers s' = (handlers s)(i \<mapsto> h)" and "handlers s i \<noteq> None" and "handlers s i \<noteq> Some H_Tag"
    and "\<And>p k. info s i = Some (k, p) \<Longrightarrow> handler_ok S B s' i p h"
  shows "table_ok S B s'"
  using assms handler_ok_cong [of s' s] has_auth_cong [of s' s]
  unfolding table_ok_def
  by (auto 0 3)

lemma streams_info: "streams s i = Some st \<Longrightarrow> info s i = Some (st_kind st, st_peer st)"
  by (simp add: info_def)

lemma table_ok_install:
  assumes "table_ok S B s" and "handlers s i = Some H_Install" and "streams s i = Some st"
  shows "table_ok S B (handler_install i st s)"
proof -
  let ?s = "handler_install i st s"
  have s': "info ?s = info s" "auths ?s = auths s" "monitors ?s = monitors s"
    "handlers ?s = (handlers s)(i \<mapsto> H_Tag)" "sessions ?s = (sessions s)(i \<mapsto> new_session i st)"
    "authenticatedClients ?s = (authenticatedClients s)(st_peer st \<mapsto> i)"
    by (simp_all add: handler_install_def)
  have i: "info s i = Some (st_kind st, st_peer st)" using assms(3) by (rule streams_info)
  then have "handler_ok S B s i (st_peer st) H_Install" using assms(1,2) unfolding table_ok_def by fastforce
  then have h: "has_auth S B s (st_peer st)" "monitors s i = None" "sessions s i = None" by auto
  have hk: "handler_ok S B ?s j p h" if "handler_ok S B s j p h" "j \<noteq> i" for j p h
    using handler_ok_cong [of ?s s j S B p h] that s' by simp
  show ?thesis
  proof (rule table_okI, goal_cases)
    case (1 j h')
    then show ?case using table_okD(1) [OF assms(1), of j h'] hk i h by (cases "j = i") (auto simp: s')
  next
    case (2 j)
    then show ?case using table_okD(2) [OF assms(1), of j] by (auto simp: s' split: if_splits)
  next
    case (3 j cs)
    then show ?case using table_okD(3) [OF assms(1), of j] i by (cases "j = i") (auto simp: s' new_session_def)
  next
    case (4 j m)
    then show ?case using table_okD(4) [OF assms(1), of j] by (auto simp: s')
  next
    case (5 p j)
    show ?case
    proof (cases "p = st_peer st")
      case True
      with 5 have j: "j = i" by (simp add: s')
      show ?thesis unfolding j using True h by (simp add: s' new_session_def has_auth_cong_eq [OF s'(1,2)])
    next
      case False
      with 5 table_okD(5) [OF assms(1), of p j] h assms(2) show ?thesis
        by (cases "j = i") (auto simp: s' has_auth_cong_eq [OF s'(1,2)])
    qed
  qed
qed

lemma table_ok_tag:
  assumes "table_ok S B s" and "handlers s i = Some H_Tag" and "streams s i = Some st"
  shows "table_ok S B (handler_tag i st s)"
proof -
  let ?s = "handler_tag i st s"
  have s': "info ?s = info s" "auths ?s = auths s" "monitors ?s = (monitors s)(i \<mapsto> M_Run)"
    "handlers ?s = (handlers s)(i \<mapsto> H_Done)" "sessions ?s = sessions s"
    "authenticatedClients ?s = authenticatedClients s"
    by (simp_all add: handler_tag_def)
  have h: "monitors s i = None" "sessions s i \<noteq> None" using assms(1,2) unfolding table_ok_def by fastforce+
  have hk: "handler_ok S B ?s j p h" if "handler_ok S B s j p h" "j \<noteq> i" for j p h
    using handler_ok_cong [of ?s s j S B p h] that s' by simp
  show ?thesis
  proof (rule table_okI, goal_cases)
    case (1 j h')
    then show ?case using table_okD(1) [OF assms(1), of j] hk assms(2) by (cases "j = i") (auto simp: s')
  next
    case (2 j)
    then show ?case using table_okD(2) [OF assms(1), of j] by (auto simp: s' split: if_splits)
  next
    case (3 j cs)
    then show ?case using table_okD(3) [OF assms(1), of j] by (simp add: s')
  next
    case (4 j m)
    then show ?case using table_okD(4) [OF assms(1), of j] h by (auto simp: s' split: if_splits)
  next
    case (5 p j)
    then show ?case using table_okD(5) [OF assms(1), of p j] by (auto simp: s' has_auth_cong_eq [OF s'(1,2)])
  qed
qed

lemma table_ok_monitor:
  assumes "table_ok S B s" and "monitors s i = Some m" and "info s' = info s" and "auths s' = auths s"
    and "sessions s' = sessions s" and "handlers s' = handlers s" and "monitors s' = (monitors s)(i \<mapsto> m')"
    and "\<And>p j. authenticatedClients s' p = Some j \<Longrightarrow> authenticatedClients s p = Some j"
    and "m' \<noteq> M_Delete \<Longrightarrow> i \<notin> ran (authenticatedClients s')"
  shows "table_ok S B s'"
proof -
  have hd: "handlers s i = Some H_Done"
  proof (cases "handlers s i")
    case None
    then show ?thesis using table_okD(2) [OF assms(1) None] assms(2) by simp
  next
    case (Some h)
    then show ?thesis using table_okD(1) [OF assms(1) Some] assms(2) by (cases h) auto
  qed
  have hk: "handler_ok S B s' j p h" if "handler_ok S B s j p h" "handlers s j = Some h" for j p h
  proof (cases "j = i")
    case True
    then show ?thesis using that hd by simp
  next
    case False
    then show ?thesis using handler_ok_cong [of s' s j S B p h] that assms by simp
  qed
  show ?thesis
  proof (rule table_okI, goal_cases)
    case (1 j h)
    then show ?case using table_okD(1) [OF assms(1), of j h] hk by (auto simp: assms(3-6))
  next
    case (2 j)
    then show ?case using table_okD(2) [OF assms(1), of j] hd by (auto simp: assms(3-7))
  next
    case (3 j cs)
    then show ?case using table_okD(3) [OF assms(1), of j] by (simp add: assms(3-7))
  next
    case (4 j m)
    then show ?case using table_okD(4) [OF assms(1), of j] assms(2) by (auto simp: assms(3-7) split: if_splits)
  next
    case (5 p j)
    then have "j = i \<Longrightarrow> m' = M_Delete" using assms(9) by (auto simp: ran_def)
    with 5 show ?case using table_okD(5) [OF assms(1) assms(8) [OF 5]]
      by (auto simp: assms(3-7) has_auth_cong_eq [OF assms(3,4)])
  qed
qed

lemma table_ok_open:
  assumes "table_ok S B s" and "streams s i = None"
  shows "table_ok S B (s\<lparr>streams := (streams s)(i \<mapsto> st), handlers := (handlers s)(i \<mapsto> H_Check)\<rparr>)"
    (is "table_ok S B ?s")
proof -
  have n: "info s i = None" using assms(2) by (simp add: info_def)
  have hn: "handlers s i = None"
    using table_okD(1) [OF assms(1), of i] n by (cases "handlers s i") auto
  have inf: "info (s\<lparr>streams := (streams s)(i \<mapsto> st)\<rparr>) = (info s)(i \<mapsto> (st_kind st, st_peer st))"
    by (auto simp: info_def)
  have au: "has_auth S B s p \<Longrightarrow> has_auth S B (s\<lparr>streams := (streams s)(i \<mapsto> st)\<rparr>) p" for p
    unfolding has_auth_def inf using n by (simp, metis option.distinct(1))
  have hk: "handler_ok S B ?s j p h" if "handler_ok S B s j p h" for j p h
    using that au by (cases h) auto
  show ?thesis
  proof (rule table_okI, goal_cases)
    case (1 j h)
    then show ?case using table_okD(1) [OF assms(1), of j h] table_okD(2) [OF assms(1) hn] hk
      by (cases "j = i") (auto simp: inf)
  next
    case (2 j)
    then show ?case using table_okD(2) [OF assms(1), of j] by (auto split: if_splits)
  next
    case (3 j cs)
    then show ?case using table_okD(3) [OF assms(1), of j cs] table_okD(2) [OF assms(1) hn]
      by (cases "j = i") (auto simp: inf)
  next
    case (4 j m)
    then show ?case using table_okD(4) [OF assms(1), of j] by auto
  next
    case (5 p j)
    then show ?case using table_okD(5) [OF assms(1), of p j] hn au by (cases "j = i") auto
  qed
qed

lemma table_ok_lock:
  assumes "table_ok S B s" and "handlers s i = Some H_Lock" and "streams s i = Some st"
  shows "table_ok S B (handler_lock i st s)"
proof (cases "authenticatedClients s (st_peer st)")
  case None
  have "handler_ok S B s i (st_peer st) H_Lock"
    using table_okD(1) [OF assms(1,2)] streams_info [OF assms(3)] by auto
  then show ?thesis
    using None assms streams_info [OF assms(3)]
    by (intro table_ok_handler [OF assms(1), of _ i H_Install])
      (auto simp: handler_lock_def)
next
  case (Some old)
  let ?s = "s\<lparr>authenticatedClients := (authenticatedClients s)(st_peer st := None)\<rparr>"
  have h: "handler_ok S B s i (st_peer st) H_Lock"
    using table_okD(1) [OF assms(1,2)] streams_info [OF assms(3)] by auto
  have hk: "handler_ok S B ?s j p h'" if "handler_ok S B s j p h'" for j p h'
    using handler_ok_cong [of ?s s j S B p h'] that by simp
  have "table_ok S B ?s"
  proof (rule table_okI, goal_cases)
    case (1 j h')
    then show ?case using table_okD(1) [OF assms(1), of j h'] hk by auto
  next
    case (5 p j)
    then show ?case using table_okD(5) [OF assms(1), of p j] by (auto split: if_splits)
  next
    case (2 j)
    then show ?case using table_okD(2) [OF assms(1), of j] by simp
  next
    case (3 j cs)
    then show ?case using table_okD(3) [OF assms(1), of j] by simp
  next
    case (4 j m)
    then show ?case using table_okD(4) [OF assms(1), of j] by simp
  qed
  moreover have "handler_lock i st s = ?s\<lparr>handlers := (handlers ?s)(i \<mapsto> H_CloseOld old)\<rparr>"
    using Some by (simp add: handler_lock_def)
  moreover have "handler_ok S B (?s\<lparr>handlers := (handlers ?s)(i \<mapsto> H_CloseOld old)\<rparr>) i (st_peer st) (H_CloseOld old)"
    using h by simp
  ultimately show ?thesis
    using assms(2) streams_info [OF assms(3)]
      table_ok_handler [of S B ?s "?s\<lparr>handlers := (handlers ?s)(i \<mapsto> H_CloseOld old)\<rparr>" i "H_CloseOld old"]
    by simp
qed

lemma table_ok_step:
  assumes "sstep S B Q s s'" and "table_ok S B s"
  shows "table_ok S B s'"
  using assms
proof (induction rule: sstep.induct)
  case (open_stream s i k p)
  then show ?case by (intro table_ok_open)
next
  case (check s i st)
  have "handler_ok S B s i (st_peer st) H_Check"
    using table_okD(1) [OF check(3,1)] streams_info [OF check(2)] by auto
  then show ?case
    using check streams_info [OF check(2)] table_okD(5) [OF check(3), of "st_peer st"]
    by (intro table_ok_handler [OF check(3)]) (auto simp: handler_check_def)
next
  case (auth_ok s i c waited c')
  obtain k p where i: "info s i = Some (k, p)" and h: "handler_ok S B s i p H_Auth"
    using table_okD(1) [OF auth_ok(3,1)] by auto
  have "auth_valid S B waited" using handleAuthOnControl_success [OF auth_ok(2)] by (auto simp: auth_valid_def)
  then have "has_auth S B (s\<lparr>auths := insert (i, waited) (auths s)\<rparr>) p"
    using i by (auto simp: has_auth_def)
  then show ?case using auth_ok h i
    by (intro table_ok_handler [OF auth_ok(3)]) auto
next
  case (auth_failed s i st c waited e c')
  have "handler_ok S B s i (st_peer st) H_Auth"
    using table_okD(1) [OF auth_failed(4,1)] streams_info [OF auth_failed(2)] by auto
  then show ?case using auth_failed streams_info [OF auth_failed(2)]
    by (intro table_ok_handler [OF auth_failed(4), where h = "if st_kind st = Libp2p then H_ClosePeer else H_Done"])
      (auto simp: handler_auth_failed_def)
next
  case (close_peer s i st)
  then show ?case by (intro table_ok_handler [OF close_peer(3)]) auto
next
  case (lock s i st)
  then show ?case by (intro table_ok_lock)
next
  case (close_old s i old)
  obtain k p where "info s i = Some (k, p)" "handler_ok S B s i p (H_CloseOld old)"
    using table_okD(1) [OF close_old(2,1)] by auto
  then show ?case using close_old
    by (intro table_ok_handler [OF close_old(2)])
      (auto simp: handler_close_old_def Let_def split: option.splits)
next
  case (install s i st)
  then show ?case by (intro table_ok_install)
next
  case (tag s i st)
  then show ?case by (intro table_ok_tag)
next
  case (mon_return s i)
  then show ?case by (intro table_ok_monitor [OF mon_return(2,1)]) auto
next
  case (mon_delete s i cs)
  have "i \<notin> ran (authenticatedClients (monitor_delete i cs s))"
  proof
    assume "i \<in> ran (authenticatedClients (monitor_delete i cs s))"
    then obtain p where p: "authenticatedClients (monitor_delete i cs s) p = Some i" by (auto simp: ran_def)
    then have "authenticatedClients s p = Some i"
      by (auto simp: monitor_delete_def Let_def split: option.splits if_splits)
    moreover from this have "peerID cs = p" using table_okD(5) [OF mon_delete(3), of p i] mon_delete(2) by auto
    ultimately show False using p mon_delete(2) by (auto simp: monitor_delete_def Let_def split: if_splits)
  qed
  then show ?case
    by (intro table_ok_monitor [OF mon_delete(3,1)])
      (auto simp: monitor_delete_def Let_def split: option.splits if_splits)
next
  case (mon_untag s i cs)
  then have "i \<notin> ran (authenticatedClients s)"
    using table_okD(5) [OF mon_untag(3), of _ i] table_okD(1) [OF mon_untag(3), of i H_Tag] by (auto simp: ran_def)
  then show ?case by (intro table_ok_monitor [OF mon_untag(3,1)]) (auto simp: monitor_untag_def)
next
  case (mon_close s i cs)
  then have "i \<notin> ran (authenticatedClients s)"
    using table_okD(5) [OF mon_close(3), of _ i] table_okD(1) [OF mon_close(3), of i H_Tag] by (auto simp: ran_def)
  then show ?case by (intro table_ok_monitor [OF mon_close(3,1)]) (auto simp: monitor_close_def Let_def)
next
  case (stream_lost s i)
  have hk: "handler_ok S B (close_stream i s) j p h" if "handler_ok S B s j p h" for j p h
    using handler_ok_cong [of "close_stream i s" s j S B p h] that by simp
  show ?case
  proof (rule table_okI, goal_cases)
    case (1 j h)
    then show ?case using table_okD(1) [OF stream_lost, of j h] hk by auto
  next
    case (2 j)
    then show ?case using table_okD(2) [OF stream_lost, of j] by simp
  next
    case (3 j cs)
    then show ?case using table_okD(3) [OF stream_lost, of j] by simp
  next
    case (4 j m)
    then show ?case using table_okD(4) [OF stream_lost, of j] by simp
  next
    case (5 p j)
    then show ?case using table_okD(5) [OF stream_lost, of p j] by simp
  qed
qed

lemma table_ok_reach:
  assumes "sreach S B Q s"
  shows "table_ok S B s"
  using assms unfolding sreach_def
proof (induction rule: rtranclp_induct)
  case base
  show ?case by (simp add: table_ok_def sessions_init_def)
next
  case (step s s')
  then show ?case by (blast intro: table_ok_step)
qed

text \<open>C2: in every reachable state of the session table, under every interleaving of the control
  handlers and of the clean-ups of the monitors, an entry of the table belongs to a peer that, on one
  of its control streams, sent an authentication request whose password verifies against the
  configured hash (or no hash is configured).\<close>

theorem only_authenticated_in_table:
  assumes "sreach S B Q s" and "authenticatedClients s p = Some i"
  shows "\<exists>j st msg. (j, Inr msg) \<in> auths s \<and> streams s j = Some st \<and> st_peer st = p \<and>
    m_Type msg = AUTH_REQUEST \<and>
    (PasswordHash (F2P_Config.Config.Server (config S)) = [] \<or>
     VerifyPassword B (m_Password msg) (PasswordHash (F2P_Config.Config.Server (config S))))"
  using table_okD(5) [OF table_ok_reach [OF assms(1)] assms(2)]
  by (auto simp: has_auth_def auth_valid_def info_def)

text \<open>C27: an entry of the table is never orphaned: its session exists and is the peer's, and
  either the handler that installed it is about to start its monitor or the monitor has not yet run
  its clean-up. When the clean-up is through, the session is out of the table for good.\<close>

theorem table_entries_monitored:
  assumes "sreach S B Q s" and "authenticatedClients s p = Some i"
  shows "(\<exists>cs. sessions s i = Some cs \<and> peerID cs = p) \<and>
         (handlers s i = Some H_Tag \<or> monitors s i = Some M_Run \<or> monitors s i = Some M_Delete)"
  using table_okD(5) [OF table_ok_reach [OF assms(1)] assms(2)] by auto

section \<open>Replacing a session\<close>

text \<open>A concrete server: no password is configured, and its messages can be sent.\<close>

definition open_server :: Server where
  "open_server = NewServer (example_server_config\<lparr>Server := zero_server\<rparr>)"

lemma open_auth:
  "\<exists>c'. handleAuthOnControl open_server B request_proto conn_write fresh_conn
     (answers (Inr (zero_message\<lparr>m_Type := AUTH_REQUEST\<rparr>))) = Some (None, c')"
  by (simp add: handleAuthOnControl_def open_server_def NewServer_tables zero_server_def SendPasswordRequired_def
      SendAuthResponse_def SendWithTTL_def ttl_default send_example example_request_def zero_message_def
      conn_healthy_def fresh_conn_def Let_def)

lemma sreach_init: "sreach S B Q sessions_init"
  by (simp add: sreach_def)

lemma sreach_step: "sreach S B Q s \<Longrightarrow> sstep S B Q s s' \<Longrightarrow> sreach S B Q s'"
  by (simp add: sreach_def)

text \<open>A peer authenticates on stream 1.\<close>

definition first_session :: "kind \<Rightarrow> sessions_state" where
  "first_session k = sessions_init\<lparr>
     streams := [1 \<mapsto> \<lparr>st_kind = k, st_peer = ''p'', st_open = True\<rparr>], handlers := [1 \<mapsto> H_Done],
     sessions := [1 \<mapsto> \<lparr>peerID = ''p'', controlStream = if k = Libp2p then Some 1 else None\<rparr>],
     authenticatedClients := [''p'' \<mapsto> 1], monitors := [1 \<mapsto> M_Run], tags := {''p''},
     auths := {(1, Inr (zero_message\<lparr>m_Type := AUTH_REQUEST\<rparr>))}\<rparr>"

lemma first_session_reach: "sreach open_server B request_proto (first_session k)"
proof -
  let ?st = "\<lparr>st_kind = k, st_peer = ''p'', st_open = True\<rparr>"
  let ?w = "Inr (zero_message\<lparr>m_Type := AUTH_REQUEST\<rparr>)"
  obtain c' where a: "handleAuthOnControl open_server B request_proto conn_write fresh_conn (answers ?w) = Some (None, c')"
    using open_auth by blast
  define s1 where "s1 = sessions_init\<lparr>streams := [1 \<mapsto> ?st], handlers := [1 \<mapsto> H_Check]\<rparr>"
  define s2 where "s2 = s1\<lparr>handlers := [1 \<mapsto> H_Auth]\<rparr>"
  define s3 where "s3 = s1\<lparr>auths := {(1, ?w)}, handlers := [1 \<mapsto> H_Install]\<rparr>"
  define s4 where "s4 = handler_install 1 ?st s3"
  let ?step = "sstep open_server B request_proto"
  have "?step sessions_init s1"
    using sstep.open_stream [of sessions_init 1] by (simp add: s1_def sessions_init_def)
  moreover have "?step s1 s2"
    using sstep.check [of s1 1 ?st] by (simp add: s2_def s1_def sessions_init_def handler_check_def)
  moreover have "?step s2 s3"
    using sstep.auth_ok [of s2 1, OF _ a] by (simp add: s3_def s2_def s1_def sessions_init_def)
  moreover have "?step s3 s4"
    unfolding s4_def by (rule sstep.install) (simp_all add: s3_def s1_def)
  moreover have "?step s4 (handler_tag 1 ?st s4)"
    by (rule sstep.tag) (simp_all add: s4_def s3_def s1_def handler_install_def)
  ultimately have "sreach open_server B request_proto (handler_tag 1 ?st s4)"
    using sreach_init sreach_step by meson
  moreover have "handler_tag 1 ?st s4 = first_session k"
    by (simp add: handler_tag_def s4_def s3_def s1_def handler_install_def first_session_def sessions_init_def
        new_session_def)
  ultimately show ?thesis by simp
qed

theorem only_authenticated_in_table_witness:
  "\<exists>j st msg. (j, Inr msg) \<in> auths (first_session Libp2p) \<and> streams (first_session Libp2p) j = Some st \<and>
     st_peer st = ''p'' \<and> m_Type msg = AUTH_REQUEST"
  using only_authenticated_in_table [OF first_session_reach [of example_bcrypt Libp2p], of "''p''" 1]
  by (auto simp: first_session_def)

theorem table_entries_monitored_witness:
  "\<exists>cs. sessions (first_session QUIC) 1 = Some cs \<and> peerID cs = ''p''"
  using table_entries_monitored [OF first_session_reach [of example_bcrypt QUIC], of "''p''" 1]
  by (simp add: first_session_def)

text \<open>The peer opens a second control stream, whose handler replaces the session.\<close>

definition second_session :: "kind \<Rightarrow> sessions_state" where
  "second_session k =
     (let st = \<lparr>st_kind = k, st_peer = ''p'', st_open = True\<rparr>;
          s1 = (first_session k)\<lparr>streams := (streams (first_session k))(2 \<mapsto> st),
                 handlers := [1 \<mapsto> H_Done, 2 \<mapsto> H_Check]\<rparr>
      in handler_tag 2 st (handler_install 2 st (handler_close_old 2 1 (handler_lock 2 st (handler_check 2 st s1)))))"

lemma second_session_reach: "sreach open_server B request_proto (second_session k)"
proof -
  let ?st = "\<lparr>st_kind = k, st_peer = ''p'', st_open = True\<rparr>"
  let ?step = "sstep open_server B request_proto"
  define s1 where "s1 = (first_session k)\<lparr>streams := (streams (first_session k))(2 \<mapsto> ?st),
                 handlers := [1 \<mapsto> H_Done, 2 \<mapsto> H_Check]\<rparr>"
  define s2 where "s2 = handler_check 2 ?st s1"
  define s3 where "s3 = handler_lock 2 ?st s2"
  define s4 where "s4 = handler_close_old 2 1 s3"
  define s5 where "s5 = handler_install 2 ?st s4"
  note defs = s5_def s4_def s3_def s2_def s1_def handler_check_def handler_lock_def handler_close_old_def
    handler_install_def close_control_def close_stream_def first_session_def sessions_init_def Let_def
  have "?step (first_session k) s1"
    using sstep.open_stream [of "first_session k" 2 open_server B request_proto k "''p''"]
    by (simp add: s1_def first_session_def sessions_init_def)
  moreover have "?step s1 s2" unfolding s2_def by (rule sstep.check) (simp_all add: s1_def)
  moreover have "?step s2 s3" unfolding s3_def by (rule sstep.lock) (simp_all add: defs)
  moreover have "?step s3 s4" unfolding s4_def by (rule sstep.close_old) (simp add: defs)
  moreover have "?step s4 s5" unfolding s5_def by (rule sstep.install) (simp_all add: defs)
  moreover have "?step s5 (handler_tag 2 ?st s5)" by (rule sstep.tag) (simp_all add: defs)
  ultimately have "sreach open_server B request_proto (handler_tag 2 ?st s5)"
    using first_session_reach sreach_step by meson
  then show ?thesis by (simp add: second_session_def s5_def s4_def s3_def s2_def s1_def Let_def)
qed

text \<open>The old monitor, woken by the closed dispatcher, runs its clean-up.\<close>

lemma old_cleanup_steps:
  assumes "monitors s i = Some M_Run" and "sessions s i = Some cs"
  defines "s1 \<equiv> s\<lparr>monitors := (monitors s)(i \<mapsto> M_Delete)\<rparr>"
  shows "sstep S B Q s s1" and "sstep S B Q s1 (monitor_delete i cs s1)"
    and "(sstep S B Q)\<^sup>*\<^sup>* (monitor_delete i cs s1) (monitor_close i cs (monitor_untag i cs (monitor_delete i cs s1)))"
proof -
  have "sessions (monitor_delete i cs s') = sessions s'" "monitors (monitor_delete i cs s') i = Some M_Untag" for s'
    by (auto simp: monitor_delete_def Let_def split: option.splits)
  then have d: "sessions (monitor_delete i cs s1) = sessions s"
    "monitors (monitor_delete i cs s1) i = Some M_Untag" by (auto simp: s1_def)
  show "sstep S B Q s s1" unfolding s1_def by (rule sstep.mon_return [OF assms(1)])
  show "sstep S B Q s1 (monitor_delete i cs s1)" by (rule sstep.mon_delete) (simp_all add: s1_def assms(2))
  have "sstep S B Q (monitor_delete i cs s1) (monitor_untag i cs (monitor_delete i cs s1))"
    by (rule sstep.mon_untag) (simp_all add: assms(2) d)
  moreover have "sstep S B Q (monitor_untag i cs (monitor_delete i cs s1))
      (monitor_close i cs (monitor_untag i cs (monitor_delete i cs s1)))"
    by (rule sstep.mon_close) (simp_all add: assms(2) d monitor_untag_def)
  ultimately show "(sstep S B Q)\<^sup>*\<^sup>* (monitor_delete i cs s1) (monitor_close i cs (monitor_untag i cs (monitor_delete i cs s1)))"
    by (meson converse_rtranclp_into_rtranclp r_into_rtranclp)
qed

lemma old_cleanup:
  assumes "sreach S B Q s" and "monitors s i = Some M_Run" and "sessions s i = Some cs"
  shows "sreach S B Q (monitor_close i cs (monitor_untag i cs (monitor_delete i cs (s\<lparr>monitors := (monitors s)(i \<mapsto> M_Delete)\<rparr>))))"
  using assms(1) old_cleanup_steps [OF assms(2,3)]
  by (meson sreach_def converse_rtranclp_into_rtranclp rtranclp_trans)

lemma second_session_eq:
  "second_session k = sessions_init\<lparr>
     streams := [1 \<mapsto> \<lparr>st_kind = k, st_peer = ''p'', st_open = (k \<noteq> Libp2p)\<rparr>,
                 2 \<mapsto> \<lparr>st_kind = k, st_peer = ''p'', st_open = True\<rparr>],
     handlers := [1 \<mapsto> H_Done, 2 \<mapsto> H_Done],
     sessions := [1 \<mapsto> \<lparr>peerID = ''p'', controlStream = if k = Libp2p then Some 1 else None\<rparr>,
                  2 \<mapsto> \<lparr>peerID = ''p'', controlStream = if k = Libp2p then Some 2 else None\<rparr>],
     authenticatedClients := [''p'' \<mapsto> 2], monitors := [1 \<mapsto> M_Run, 2 \<mapsto> M_Run], tags := {''p''},
     dispClosed := {1}, auths := {(1, Inr (zero_message\<lparr>m_Type := AUTH_REQUEST\<rparr>))}\<rparr>"
  by (cases k) (auto simp: second_session_def first_session_def sessions_init_def Let_def
      handler_check_def handler_lock_def handler_close_old_def handler_install_def handler_tag_def
      close_control_def close_stream_def new_session_def fun_eq_iff)

text \<open>Replacing a libp2p session harms the new one. There is a reachable state in which the
  table holds the new session and its monitor runs, but the clean-up of the old session has closed the
  peer's connections and with them the new control stream, and the peer's protection from connection
  pruning is gone.\<close>

theorem replaced_session_closes_new_stream:
  "\<exists>s st. sreach open_server B request_proto s \<and> authenticatedClients s ''p'' = Some 2 \<and>
     monitors s 2 = Some M_Run \<and> streams s 2 = Some st \<and> \<not> st_open st \<and> ''p'' \<notin> tags s"
proof -
  let ?cs = "\<lparr>peerID = ''p'', controlStream = Some 1\<rparr>"
  let ?s = "(second_session Libp2p)\<lparr>monitors := (monitors (second_session Libp2p))(1 \<mapsto> M_Delete)\<rparr>"
  let ?t = "monitor_close 1 ?cs (monitor_untag 1 ?cs (monitor_delete 1 ?cs ?s))"
  have "sreach open_server B request_proto ?t"
    by (rule old_cleanup [OF second_session_reach]) (simp_all add: second_session_eq)
  moreover have "authenticatedClients ?t ''p'' = Some 2" "monitors ?t 2 = Some M_Run" "''p'' \<notin> tags ?t"
    "streams ?t 2 = Some \<lparr>st_kind = Libp2p, st_peer = ''p'', st_open = False\<rparr>"
    by (simp_all add: second_session_eq sessions_init_def monitor_close_def monitor_untag_def monitor_delete_def
        Let_def close_control_def close_stream_def ClosePeer_def)
  ultimately show ?thesis by (intro exI [of _ ?t]) simp
qed

text \<open>C39: replacing a session of a direct QUIC connection removes the new session from the table.
  Both sessions have a nil control stream, which the clean-up of the old one compares equal. The
  theorem gives a reachable state in which a peer has two QUIC control streams, both of them open, the
  session of the second has replaced that of the first in the table and its handler is done, and the
  old monitor has begun its clean-up. The first step of the clean-up, which is meant to leave a session
  that has replaced the old one alone, takes the new session out of the table; when the
  clean-up is over, the new control stream is open and monitored, its session and dispatcher are alive and the table
  has no entry for the peer, so that its data streams are refused.\<close>

theorem replaced_quic_session_removed:
  "\<exists>s s' t old new.
     sreach open_server B request_proto s \<and>
     streams s 1 = Some \<lparr>st_kind = QUIC, st_peer = ''p'', st_open = True\<rparr> \<and>
     streams s 2 = Some \<lparr>st_kind = QUIC, st_peer = ''p'', st_open = True\<rparr> \<and> handlers s 2 = Some H_Done \<and>
     sessions s 1 = Some old \<and> sessions s 2 = Some new \<and> peerID old = ''p'' \<and> peerID new = ''p'' \<and>
     authenticatedClients s ''p'' = Some 2 \<and> monitors s 1 = Some M_Delete \<and> monitors s 2 = Some M_Run \<and>
     s' = monitor_delete 1 old s \<and> sstep open_server B request_proto s s' \<and> authenticatedClients s' ''p'' = None \<and>
     (sstep open_server B request_proto)\<^sup>*\<^sup>* s' t \<and> monitors t 1 = Some M_Done \<and>
     authenticatedClients t ''p'' = None \<and> monitors t 2 = Some M_Run \<and> sessions t 2 = Some new \<and> 2 \<notin> dispClosed t \<and>
     streams t 2 = Some \<lparr>st_kind = QUIC, st_peer = ''p'', st_open = True\<rparr>"
proof -
  let ?cs = "\<lparr>peerID = ''p'', controlStream = None\<rparr>"
  let ?s = "(second_session QUIC)\<lparr>monitors := (monitors (second_session QUIC))(1 \<mapsto> M_Delete)\<rparr>"
  let ?s1 = "monitor_delete 1 ?cs ?s"
  let ?t = "monitor_close 1 ?cs (monitor_untag 1 ?cs ?s1)"
  note run = old_cleanup_steps [of "second_session QUIC" 1 ?cs open_server B request_proto]
  note state = second_session_eq sessions_init_def monitor_close_def monitor_untag_def monitor_delete_def
    Let_def close_control_def close_stream_def ClosePeer_def
  have "sreach open_server B request_proto ?s"
    by (rule sreach_step [OF second_session_reach run(1)]) (simp_all add: second_session_eq)
  moreover have "sstep open_server B request_proto ?s ?s1" "(sstep open_server B request_proto)\<^sup>*\<^sup>* ?s1 ?t"
    by (rule run(2,3); simp add: second_session_eq)+
  moreover have "authenticatedClients ?s1 ''p'' = None" by (simp add: state)
  moreover have "monitors ?t 1 = Some M_Done" "authenticatedClients ?t ''p'' = None" "monitors ?t 2 = Some M_Run"
    "sessions ?t 2 = Some ?cs" "2 \<notin> dispClosed ?t" "streams ?t 2 = Some \<lparr>st_kind = QUIC, st_peer = ''p'', st_open = True\<rparr>"
    by (simp_all add: state)
  ultimately show ?thesis
    by (intro exI [of _ ?s] exI [of _ ?s1] exI [of _ ?t] exI [of _ ?cs]) (simp add: second_session_eq)
qed

end
