(* ===== verification/F2P_STUN.thy ===== *)
theory F2P_STUN
  imports F2P_Prelude "HOL-Library.Monad_Syntax"
begin

text \<open>
  \<^verbatim>\<open>internal/holepunch/types.go\<close> (NAT types and methods) and \<^verbatim>\<open>internal/holepunch/stun.go\<close>: the STUN
  binding request and the parser of the response, which reads a datagram from the network, and the
  classification of the NAT from the answers of several servers. Index and slice expressions of the
  parser that would panic give \<open>None\<close>. The lemmas show that the parser panics on no input, that it
  reads back the address a server encoded, plain or XORed, behind any attributes it does not know,
  and what the classification says of the mappings it has seen.
\<close>

section \<open>NAT types\<close>

text \<open>Both types are integers in Go and are read from the peer's JSON: the last constructor is a number
  without a name.\<close>

datatype NATType =
    NATUnknown | NATOpen | NATCone | NATSymmetricEasyInc | NATSymmetricEasyDec | NATSymmetricHard
  | NATType_other int

fun NATType_String :: "NATType \<Rightarrow> string" where
  "NATType_String NATOpen = ''Open''"
| "NATType_String NATCone = ''Cone''"
| "NATType_String NATSymmetricEasyInc = ''SymmetricEasyInc''"
| "NATType_String NATSymmetricEasyDec = ''SymmetricEasyDec''"
| "NATType_String NATSymmetricHard = ''SymmetricHard''"
| "NATType_String _ = ''Unknown''"

definition IsCone :: "NATType \<Rightarrow> bool" where
  "IsCone n \<longleftrightarrow> n = NATCone \<or> n = NATOpen"

definition IsSymmetric :: "NATType \<Rightarrow> bool" where
  "IsSymmetric n \<longleftrightarrow> n = NATSymmetricEasyInc \<or> n = NATSymmetricEasyDec \<or> n = NATSymmetricHard"

definition IsEasySymmetric :: "NATType \<Rightarrow> bool" where
  "IsEasySymmetric n \<longleftrightarrow> n = NATSymmetricEasyInc \<or> n = NATSymmetricEasyDec"

datatype PunchMethod = PunchNone | PunchConeToCone | PunchSymToCone | PunchEasySymToEasySym
  | PunchMethod_other int

definition DeterminePunchMethod :: "NATType \<Rightarrow> NATType \<Rightarrow> PunchMethod" where
  "DeterminePunchMethod clientNAT serverNAT =
     (if clientNAT = NATUnknown \<or> serverNAT = NATUnknown then PunchNone
      else if clientNAT = NATOpen \<or> serverNAT = NATOpen then PunchNone
      else if IsCone clientNAT \<and> IsCone serverNAT then PunchConeToCone
      else if IsSymmetric clientNAT \<and> IsCone serverNAT then PunchSymToCone
      else if IsCone clientNAT \<and> IsSymmetric serverNAT then PunchSymToCone
      else if IsEasySymmetric clientNAT \<and> IsEasySymmetric serverNAT then PunchEasySymToEasySym
      else PunchNone)"

record NATInfo =
  nat_Type :: NATType
  PublicIP :: string
  PublicPort :: int

section \<open>Binding request and response\<close>

definition stunMagicCookie :: uint32 where "stunMagicCookie = 0x2112A442"
definition stunBindingRequest :: uint16 where "stunBindingRequest = 0x0001"
definition stunBindingSuccess :: uint16 where "stunBindingSuccess = 0x0101"
definition stunAttrMappedAddr :: uint16 where "stunAttrMappedAddr = 0x0001"
definition stunAttrXorMapped :: uint16 where "stunAttrXorMapped = 0x0020"
definition stunHeaderSize :: nat where "stunHeaderSize = 20"

record stunMappedAddr =
  IP :: bytes
  Port :: int

text \<open>The random transaction identifier is the argument.\<close>

definition buildSTUNBindingRequest :: "bytes \<Rightarrow> bytes" where
  "buildSTUNBindingRequest txID =
     put_uint16 stunBindingRequest @ put_uint16 0 @ put_uint32 stunMagicCookie @ txID"

text \<open>\<open>None\<close> is a panic, \<open>Some None\<close> the nil pointer.\<close>

definition parseXorMappedAddress :: "bytes \<Rightarrow> bytes \<Rightarrow> bytes \<Rightarrow> stunMappedAddr option option" where
  "parseXorMappedAddress data magicBytes txID =
     (if length data < 8 then Some None
      else do {
        family \<leftarrow> idx data 1;
        if family \<noteq> 0x01 then Some None
        else do {
          d1 \<leftarrow> slice data 2 4;
          xport \<leftarrow> get_uint16 d1;
          magic \<leftarrow> get_uint32 magicBytes;
          xip \<leftarrow> slice data 4 8;
          ipx \<leftarrow> get_uint32 xip;
          let port = xport XOR ucast (drop_bit 16 magic);
              ipVal = ipx XOR magic
          in Some (Some \<lparr>IP = put_uint32 ipVal, Port = uint port\<rparr>)
        }
      })"

definition parseMappedAddress :: "bytes \<Rightarrow> stunMappedAddr option option" where
  "parseMappedAddress data =
     (if length data < 8 then Some None
      else do {
        family \<leftarrow> idx data 1;
        if family \<noteq> 0x01 then Some None
        else do {
          d1 \<leftarrow> slice data 2 4;
          port \<leftarrow> get_uint16 d1;
          ip \<leftarrow> slice data 4 8;
          Some (Some \<lparr>IP = ip, Port = uint port\<rparr>)
        }
      })"

text \<open>The loop over the attributes, from \<open>pos\<close> with the mapped address found so far.\<close>

function parse_attrs :: "bytes \<Rightarrow> nat \<Rightarrow> nat \<Rightarrow> stunMappedAddr option \<Rightarrow> (error + stunMappedAddr) option" where
  "parse_attrs data end pos mapped =
     (if pos + 4 \<le> end then do {
        t \<leftarrow> slice data pos (pos + 2);
        attrType \<leftarrow> get_uint16 t;
        l \<leftarrow> slice data (pos + 2) (pos + 4);
        al \<leftarrow> get_uint16 l;
        let attrLen = unat al;
            pos1 = pos + 4;
            finish = (case mapped of
                        Some m \<Rightarrow> Some (Inr m)
                      | None \<Rightarrow> Some (Inl (Errorf ''no mapped address in STUN response'' [])));
            pad = attrLen mod 4;
            pos2 = pos1 + attrLen + (if pad \<noteq> 0 then 4 - pad else 0)
        in if pos1 + attrLen > end then finish
           else if attrType = stunAttrXorMapped then do {
             body \<leftarrow> slice data pos1 (pos1 + attrLen);
             magicBytes \<leftarrow> slice data 4 8;
             tx \<leftarrow> slice data 8 20;
             r \<leftarrow> parseXorMappedAddress body magicBytes tx;
             case r of Some m \<Rightarrow> Some (Inr m) | None \<Rightarrow> parse_attrs data end pos2 mapped }
           else if attrType = stunAttrMappedAddr then
             (if mapped = None then do {
                body \<leftarrow> slice data pos1 (pos1 + attrLen);
                r \<leftarrow> parseMappedAddress body;
                parse_attrs data end pos2 r }
              else parse_attrs data end pos2 mapped)
           else parse_attrs data end pos2 mapped }
      else (case mapped of
              Some m \<Rightarrow> Some (Inr m)
            | None \<Rightarrow> Some (Inl (Errorf ''no mapped address in STUN response'' []))))"
  by pat_completeness auto

termination parse_attrs
  by (relation "measure (\<lambda>(data, end, pos, mapped). end + 4 - pos)") auto

declare parse_attrs.simps [simp del]

definition parseSTUNBindingResponse :: "bytes \<Rightarrow> bytes \<Rightarrow> (error + stunMappedAddr) option" where
  "parseSTUNBindingResponse data txID =
     (if length data < stunHeaderSize
      then Some (Inl (Errorf ''response too short: %d bytes'' [FInt (int (length data))]))
      else do {
        t \<leftarrow> slice data 0 2;
        msgType \<leftarrow> get_uint16 t;
        if msgType \<noteq> stunBindingSuccess
        then Some (Inl (Errorf ''unexpected STUN message type: 0x%04x'' [FInt (uint msgType)]))
        else do {
          c \<leftarrow> slice data 4 8;
          cookie \<leftarrow> get_uint32 c;
          if cookie \<noteq> stunMagicCookie
          then Some (Inl (Errorf ''invalid magic cookie: 0x%08x'' [FInt (uint cookie)]))
          else do {
            tx \<leftarrow> slice data 8 20;
            if tx \<noteq> txID then Some (Inl (Errorf ''transaction ID mismatch'' []))
            else do {
              l \<leftarrow> slice data 2 4;
              msgLen \<leftarrow> get_uint16 l;
              if length data < stunHeaderSize + unat msgLen
              then Some (Inl (Errorf ''truncated response'' []))
              else parse_attrs data (stunHeaderSize + unat msgLen) stunHeaderSize None
            } } } })"

section \<open>Queries and classification\<close>

definition STUNTimeout :: duration where "STUNTimeout = 3 * second"

text \<open>One exchange with a server: the results of resolving, writing and reading are arguments, the
  last one the datagram received.\<close>

definition stunQuery ::
    "error option \<Rightarrow> error option \<Rightarrow> error + bytes \<Rightarrow> string \<Rightarrow> bytes \<Rightarrow> (error + stunMappedAddr) option" where
  "stunQuery resolved written received serverAddr txID =
     (case resolved of
        Some e \<Rightarrow> Some (Inl (Errorf ''resolve %s: %w'' [FStr serverAddr, FWrap e]))
      | None \<Rightarrow>
          (case written of
             Some e \<Rightarrow> Some (Inl (Errorf ''write to %s: %w'' [FStr serverAddr, FWrap e]))
           | None \<Rightarrow>
               (case received of
                  Inl e \<Rightarrow> Some (Inl (Errorf ''read from %s: %w'' [FStr serverAddr, FWrap e]))
                | Inr buf \<Rightarrow> parseSTUNBindingResponse (take 1024 buf) txID)))"

text \<open>\<^verbatim>\<open>net.IP.String\<close> for an IPv4 address.\<close>

fun ip_String :: "bytes \<Rightarrow> string" where
  "ip_String [a, b, c, d] =
     itoa (unat a) @ ''.'' @ itoa (unat b) @ ''.'' @ itoa (unat c) @ ''.'' @ itoa (unat d)"
| "ip_String _ = ''?''"

fun unique_loop :: "string list \<Rightarrow> string set \<Rightarrow> string list \<Rightarrow> string list" where
  "unique_loop [] seen out = out"
| "unique_loop (s # ss) seen out =
     (if s \<notin> seen then unique_loop ss (insert s seen) (out @ [s]) else unique_loop ss seen out)"

definition uniqueStrings :: "string list \<Rightarrow> string list" where
  "uniqueStrings ss = unique_loop ss {} []"

text \<open>The answers that arrived, in the order of the servers; \<open>query k s\<close> is the result of the \<open>k\<close>-th query, to
  the server \<open>s\<close>.\<close>

fun collect :: "(nat \<Rightarrow> string \<Rightarrow> error + stunMappedAddr) \<Rightarrow> nat \<Rightarrow> string list \<Rightarrow> stunMappedAddr list" where
  "collect query k [] = []"
| "collect query k (s # ss) =
     (case query k s of Inl _ \<Rightarrow> collect query (Suc k) ss | Inr m \<Rightarrow> m # collect query (Suc k) ss)"

text \<open>\<open>listen1\<close> and \<open>listen2\<close> are the errors of opening the two sockets, \<open>query\<close> the answers on the
  first socket, \<open>extra\<close> the answer of the first server on the second socket. The result is the pair of
  the source's return values.\<close>

definition DetectNAT ::
    "error option \<Rightarrow> (nat \<Rightarrow> string \<Rightarrow> error + stunMappedAddr) \<Rightarrow> error option \<Rightarrow> error + stunMappedAddr \<Rightarrow>
     string list \<Rightarrow> NATInfo option \<times> error option" where
  "DetectNAT listen1 query listen2 extra stunServers =
     (if length stunServers < 2
      then (None, Some (Errorf ''need at least 2 STUN servers, got %d'' [FInt (int (length stunServers))]))
      else case listen1 of
        Some e \<Rightarrow> (None, Some (Errorf ''listen udp: %w'' [FWrap e]))
      | None \<Rightarrow>
          (case collect query 0 stunServers of
             [] \<Rightarrow> (None, Some (Errorf ''no STUN responses received'' []))
           | [r] \<Rightarrow> (Some \<lparr>nat_Type = NATUnknown, PublicIP = ip_String (IP r), PublicPort = Port r\<rparr>,
                    Some (Errorf ''only got response from 1 STUN server (need 2+)'' []))
           | r # rs \<Rightarrow>
               let results = r # rs;
                   uniqueIPs = uniqueStrings (map (\<lambda>m. ip_String (IP m)) results);
                   allSamePort = list_all (\<lambda>m. Port m = Port r) rs;
                   info = \<lparr>nat_Type = NATUnknown, PublicIP = ip_String (IP r), PublicPort = Port r\<rparr>;
                   ports = sort (map Port results);
                   maxPort = last ports;
                   minPort = hd ports
               in if allSamePort then (Some (info\<lparr>nat_Type := NATCone\<rparr>), None)
                  else if length uniqueIPs > 1 then (Some (info\<lparr>nat_Type := NATSymmetricHard\<rparr>), None)
                  else if maxPort - minPort > 100 then (Some (info\<lparr>nat_Type := NATSymmetricHard\<rparr>), None)
                  else (case listen2 of
                     Some _ \<Rightarrow> (Some (info\<lparr>nat_Type := NATSymmetricHard\<rparr>), None)
                   | None \<Rightarrow>
                       (case extra of
                          Inl _ \<Rightarrow> (Some (info\<lparr>nat_Type := NATSymmetricHard\<rparr>), None)
                        | Inr extraMapped \<Rightarrow>
                            let incDiff = Port extraMapped - maxPort;
                                decDiff = minPort - Port extraMapped
                            in if incDiff > 0 \<and> incDiff < 100
                               then (Some (info\<lparr>nat_Type := NATSymmetricEasyInc, PublicPort := Port extraMapped\<rparr>), None)
                               else if decDiff > 0 \<and> decDiff < 100
                               then (Some (info\<lparr>nat_Type := NATSymmetricEasyDec, PublicPort := Port extraMapped\<rparr>), None)
                               else (Some (info\<lparr>nat_Type := NATSymmetricHard\<rparr>), None)))))"

section \<open>The parser\<close>

lemma get_uint16_slice:
  "i + 2 \<le> length data \<Longrightarrow> \<exists>w. (slice data i (i + 2) \<bind> get_uint16) = Some w"
  using get_uint16_total [of "take 2 (drop i data)"] by (simp add: slice_Some)

lemma parseXorMappedAddress_total:
  "4 \<le> length magic \<Longrightarrow> \<exists>r. parseXorMappedAddress data magic tx = Some r"
proof (cases "length data < 8")
  case False
  moreover assume "4 \<le> length magic"
  ultimately obtain w v u where "get_uint16 (take 2 (drop 2 data)) = Some w" "get_uint32 magic = Some v"
      "get_uint32 (take 4 (drop 4 data)) = Some u"
    using get_uint16_total [of "take 2 (drop 2 data)"] get_uint32_total [of magic]
      get_uint32_total [of "take 4 (drop 4 data)"] by auto
  with False show ?thesis by (simp add: parseXorMappedAddress_def go_simps Let_def)
qed (simp add: parseXorMappedAddress_def)

lemma parseMappedAddress_total: "\<exists>r. parseMappedAddress data = Some r"
proof (cases "length data < 8")
  case False
  then obtain w where "get_uint16 (take 2 (drop 2 data)) = Some w"
    using get_uint16_total [of "take 2 (drop 2 data)"] by auto
  with False show ?thesis by (simp add: parseMappedAddress_def go_simps)
qed (simp add: parseMappedAddress_def)

text \<open>One attribute read: its type, its body and where the nxt one starts.\<close>

definition attr_at :: "bytes \<Rightarrow> nat \<Rightarrow> uint16 \<Rightarrow> bytes \<Rightarrow> nat \<Rightarrow> bool" where
  "attr_at data pos t body nxt \<longleftrightarrow>
     (\<exists>l. pos + 4 + unat l \<le> length data \<and>
        take 4 (drop pos data) = put_uint16 t @ put_uint16 l \<and>
        body = take (unat l) (drop (pos + 4) data) \<and>
        nxt = pos + 4 + unat l + (if unat l mod 4 \<noteq> 0 then 4 - unat l mod 4 else 0))"

definition attrs_end :: "stunMappedAddr option \<Rightarrow> error + stunMappedAddr" where
  "attrs_end mapped = (case mapped of Some m \<Rightarrow> Inr m
     | None \<Rightarrow> Inl (Errorf ''no mapped address in STUN response'' []))"

lemma parse_attrs_stop: "\<not> pos + 4 \<le> end \<Longrightarrow> parse_attrs data end pos mapped = Some (attrs_end mapped)"
  by (simp add: parse_attrs.simps [of data "end" pos] attrs_end_def split: option.splits)

lemma two_uint16:
  assumes "pos + 4 \<le> length data"
  obtains t l where "take 4 (drop pos data) = put_uint16 t @ put_uint16 l"
    and "get_uint16 (take 2 (drop pos data)) = Some t"
    and "get_uint16 (take 2 (drop (pos + 2) data)) = Some l"
proof -
  have "length (drop pos data) \<ge> 4" using assms by simp
  then obtain a b c d rest where d: "drop pos data = a # b # c # d # rest"
    by (cases "drop pos data" rule: get_uint32.cases) auto
  have "drop (pos + 2) data = drop 2 (drop pos data)" by (simp add: add.commute)
  then have "drop (pos + 2) data = c # d # rest" by (simp add: d)
  with d that [of "join_uint16 a b" "join_uint16 c d"] show thesis by (simp add: wire_simps)
qed

lemma parse_attrs_step:
  assumes "pos + 4 \<le> end" and "end \<le> length data" and "20 \<le> length data"
  obtains (cut) "parse_attrs data end pos mapped = Some (attrs_end mapped)"
  | (xor) t body nxt where "attr_at data pos t body nxt" and "t = stunAttrXorMapped"
      and "parse_attrs data end pos mapped =
        (parseXorMappedAddress body (take 4 (drop 4 data)) (take 12 (drop 8 data)) \<bind>
          (\<lambda>r. case r of Some m \<Rightarrow> Some (Inr m) | None \<Rightarrow> parse_attrs data end nxt mapped))"
  | (plain) t body nxt where "attr_at data pos t body nxt" and "t = stunAttrMappedAddr"
      and "parse_attrs data end pos mapped =
        (if mapped = None then parseMappedAddress body \<bind> parse_attrs data end nxt
         else parse_attrs data end nxt mapped)"
  | (other) t body nxt where "attr_at data pos t body nxt" and "t \<notin> {stunAttrXorMapped, stunAttrMappedAddr}"
      and "parse_attrs data end pos mapped = parse_attrs data end nxt mapped"
proof -
  have "pos + 4 \<le> length data" using assms by linarith
  then obtain t l where tl: "take 4 (drop pos data) = put_uint16 t @ put_uint16 l"
    "get_uint16 (take 2 (drop pos data)) = Some t" "get_uint16 (take 2 (drop (pos + 2) data)) = Some l"
    by (rule two_uint16)
  define nx where "nx = pos + 4 + unat l + (if unat l mod 4 \<noteq> 0 then 4 - unat l mod 4 else 0)"
  define body where "body = take (unat l) (drop (pos + 4) data)"
  have s: "slice data pos (pos + 2) = Some (take 2 (drop pos data))"
    "slice data (pos + 2) (pos + 4) = Some (take 2 (drop (pos + 2) data))"
    "slice data 4 8 = Some (take 4 (drop 4 data))" "slice data 8 20 = Some (take 12 (drop 8 data))"
    using assms by (simp_all add: slice_Some)
  show thesis
  proof (cases "pos + 4 + unat l \<le> end")
    case False
    then show thesis using assms s tl
      by (intro cut, subst parse_attrs.simps) (simp add: Let_def attrs_end_def split: option.splits)
  next
    case True
    have at: "attr_at data pos t body nx"
      unfolding attr_at_def using True assms tl(1) by (intro exI [of _ l]) (simp add: nx_def body_def)
    have sb: "slice data (pos + 4) (pos + 4 + unat l) = Some body"
      using True assms by (simp add: slice_Some body_def)
    note step = parse_attrs.simps [of data "end" pos mapped]
    consider "t = stunAttrXorMapped" | "t = stunAttrMappedAddr" "t \<noteq> stunAttrXorMapped"
      | "t \<notin> {stunAttrXorMapped, stunAttrMappedAddr}" by blast
    then show thesis
    proof cases
      case 1
      then show thesis using assms(1) s tl sb True
        by (intro xor [OF at 1]) (subst step, simp add: Let_def nx_def)
    next
      case 2
      then show thesis using assms(1) s tl sb True
        by (intro plain [OF at 2(1)]) (subst step, simp add: Let_def nx_def)
    next
      case 3
      then show thesis using assms(1) s tl sb True
        by (intro other [OF at 3]) (subst step, simp add: Let_def nx_def)
    qed
  qed
qed

lemma attr_at_next: "attr_at data pos t body nxt \<Longrightarrow> pos + 4 \<le> nxt"
  by (auto simp: attr_at_def)

lemma parse_attrs_total:
  assumes "end \<le> length data" and "20 \<le> length data"
  shows "\<exists>r. parse_attrs data end pos mapped = Some r"
proof (induction "end + 4 - pos" arbitrary: pos mapped rule: less_induct)
  case less
  show ?case
  proof (cases "pos + 4 \<le> end")
    case True
    then have rec: "\<exists>r. parse_attrs data end nxt m = Some r" if "attr_at data pos t b nxt" for t b nxt m
      using less attr_at_next [OF that] by auto
    from True assms show ?thesis
    proof (cases rule: parse_attrs_step [of pos "end" data mapped])
      case (xor t body nxt)
      obtain r where "parseXorMappedAddress body (take 4 (drop 4 data)) (take 12 (drop 8 data)) = Some r"
        using parseXorMappedAddress_total [of "take 4 (drop 4 data)"] assms by auto
      then show ?thesis using xor rec by (cases r) auto
    next
      case (plain t body nxt)
      obtain r where "parseMappedAddress body = Some r" using parseMappedAddress_total by blast
      then show ?thesis using plain rec by auto
    qed (use rec in auto)
  qed (simp add: parse_attrs_stop)
qed

section \<open>A reference for responses\<close>

definition padding :: "bytes \<Rightarrow> bytes" where
  "padding body = replicate (if length body mod 4 \<noteq> 0 then 4 - length body mod 4 else 0) 0"

definition encode_attr :: "uint16 \<times> bytes \<Rightarrow> bytes" where
  "encode_attr a = put_uint16 (fst a) @ put_uint16 (of_nat (length (snd a))) @ snd a @ padding (snd a)"

definition stun_response :: "bytes \<Rightarrow> (uint16 \<times> bytes) list \<Rightarrow> bytes" where
  "stun_response txID as =
     (let attrs = concat (map encode_attr as)
      in put_uint16 stunBindingSuccess @ put_uint16 (of_nat (length attrs)) @ put_uint32 stunMagicCookie
         @ txID @ attrs)"

definition xor_body :: "bytes \<Rightarrow> uint16 \<Rightarrow> bytes" where
  "xor_body ip port =
     (case get_uint32 ip of
        Some v \<Rightarrow> [0, 1] @ put_uint16 (port XOR ucast (drop_bit 16 stunMagicCookie))
                  @ put_uint32 (v XOR stunMagicCookie)
      | None \<Rightarrow> [])"

definition plain_body :: "bytes \<Rightarrow> uint16 \<Rightarrow> bytes" where
  "plain_body ip port = [0, 1] @ put_uint16 port @ ip"

text \<open>The address a list of attributes stands for: the first readable XOR-MAPPED-ADDRESS, else the
  first readable MAPPED-ADDRESS.\<close>

definition xor_address :: "bytes \<Rightarrow> stunMappedAddr option" where
  "xor_address body =
     (case parseXorMappedAddress body (put_uint32 stunMagicCookie) [] of Some r \<Rightarrow> r | None \<Rightarrow> None)"

definition plain_address :: "bytes \<Rightarrow> stunMappedAddr option" where
  "plain_address body = (case parseMappedAddress body of Some r \<Rightarrow> r | None \<Rightarrow> None)"

definition response_address :: "(uint16 \<times> bytes) list \<Rightarrow> stunMappedAddr option" where
  "response_address as =
     (case List.map_filter (\<lambda>(t, b). if t = stunAttrXorMapped then xor_address b else None) as of
        m # _ \<Rightarrow> Some m
      | [] \<Rightarrow> (case List.map_filter (\<lambda>(t, b). if t = stunAttrMappedAddr then plain_address b else None) as of
                m # _ \<Rightarrow> Some m | [] \<Rightarrow> None))"

lemma parseXor_tx: "parseXorMappedAddress body magic tx = parseXorMappedAddress body magic tx'"
  by (simp add: parseXorMappedAddress_def)

lemma xor_address_eq: "parseXorMappedAddress body (put_uint32 stunMagicCookie) tx = Some (xor_address body)"
  using parseXorMappedAddress_total [of "put_uint32 stunMagicCookie" body "[]"] parseXor_tx [of body _ tx "[]"]
  by (auto simp: xor_address_def)

lemma plain_address_eq: "parseMappedAddress body = Some (plain_address body)"
  using parseMappedAddress_total [of body] by (auto simp: plain_address_def)

lemma stun_attr_types: "stunAttrXorMapped \<noteq> stunAttrMappedAddr"
  by (simp add: stunAttrXorMapped_def stunAttrMappedAddr_def)

lemma unat_of_nat_16: "n < 65536 \<Longrightarrow> unat (of_nat n :: uint16) = n"
  by (simp add: unsigned_of_nat take_bit_nat_eq_self)

lemma slice_append: "slice (pre @ xs @ suf) (length pre) (length pre + length xs) = Some xs"
  by (simp add: slice_def)

lemma slice_append_at:
  "length pre = i \<Longrightarrow> length xs = j - i \<Longrightarrow> i \<le> j \<Longrightarrow> slice (pre @ xs @ suf) i j = Some xs"
  using slice_append [of pre xs suf] by simp

fun attrs_result :: "(uint16 \<times> bytes) list \<Rightarrow> stunMappedAddr option \<Rightarrow> error + stunMappedAddr" where
  "attrs_result [] mapped = attrs_end mapped"
| "attrs_result ((t, b) # as) mapped =
     (if t = stunAttrXorMapped then
        (case xor_address b of Some m \<Rightarrow> Inr m | None \<Rightarrow> attrs_result as mapped)
      else if t = stunAttrMappedAddr \<and> mapped = None then attrs_result as (plain_address b)
      else attrs_result as mapped)"

lemma parse_attrs_read:
  assumes "pos + 4 \<le> en" and "pos + 4 + unat l \<le> en" and "slice data pos (pos + 2) = Some (put_uint16 t)"
    and "slice data (pos + 2) (pos + 4) = Some (put_uint16 l)"
    and "slice data (pos + 4) (pos + 4 + unat l) = Some body"
    and "slice data 4 8 = Some magic" and "slice data 8 20 = Some tx"
    and nx: "nx = pos + 4 + unat l + (if unat l mod 4 \<noteq> 0 then 4 - unat l mod 4 else 0)"
  shows "parse_attrs data en pos mapped =
    (if t = stunAttrXorMapped then
       parseXorMappedAddress body magic tx \<bind>
         (\<lambda>r. case r of Some m \<Rightarrow> Some (Inr m) | None \<Rightarrow> parse_attrs data en nx mapped)
     else if t = stunAttrMappedAddr \<and> mapped = None then parseMappedAddress body \<bind> parse_attrs data en nx
     else parse_attrs data en nx mapped)"
proof -
  have g: "get_uint16 (put_uint16 w) = Some w" for w using get_put_uint16 [of w "[]"] by simp
  show ?thesis
    unfolding nx using assms(1-7)
    by (subst parse_attrs.simps) (simp add: g Let_def del: add_2_eq_Suc')
qed

lemma parse_attrs_encoded:
  assumes "20 \<le> length pre" and "take 4 (drop 4 pre) = put_uint32 stunMagicCookie"
    and "\<forall>(t, b) \<in> set as. length b < 65536"
  shows "parse_attrs (pre @ concat (map encode_attr as) @ suf) (length pre + length (concat (map encode_attr as)))
           (length pre) mapped = Some (attrs_result as mapped)"
  using assms
proof (induction as arbitrary: pre mapped)
  case Nil
  then show ?case by (simp add: parse_attrs_stop)
next
  case (Cons a as)
  obtain t b where a: "a = (t, b)" by (cases a)
  define rest where "rest = concat (map encode_attr as)"
  define data where "data = pre @ encode_attr a @ rest @ suf"
  define pre' where "pre' = pre @ encode_attr a"
  have data': "data = pre' @ rest @ suf" by (simp add: data_def pre'_def)
  have lb: "unat (of_nat (length b) :: uint16) = length b" using Cons.prems(3) a by (simp add: unat_of_nat_16)
  have nx: "length pre + 4 + length b + (if length b mod 4 \<noteq> 0 then 4 - length b mod 4 else 0) = length pre'"
    by (simp add: pre'_def encode_attr_def a padding_def)
  define en where "en = length pre' + length rest"
  have IH: "parse_attrs data en (length pre') m = Some (attrs_result as m)" for m
    using Cons.IH [of pre' m] Cons.prems unfolding data' en_def rest_def
    by (simp add: pre'_def)
  have s1: "slice data (length pre) (length pre + 2) = Some (put_uint16 t)"
    unfolding data_def encode_attr_def a by (simp add: slice_append_at)
  have s2: "slice data (length pre + 2) (length pre + 4) = Some (put_uint16 (of_nat (length b)))"
    using slice_append_at [of "pre @ put_uint16 t" "length pre + 2" "put_uint16 (of_nat (length b))" "length pre + 4"]
    unfolding data_def encode_attr_def a by simp
  have s3: "slice data (length pre + 4) (length pre + 4 + length b) = Some b"
    using slice_append [of "pre @ put_uint16 t @ put_uint16 (of_nat (length b))" b "padding b @ rest @ suf"]
    unfolding data_def encode_attr_def a by simp
  have s4: "slice data 4 8 = Some (put_uint32 stunMagicCookie)" "\<exists>tx. slice data 8 20 = Some tx"
    using Cons.prems(1,2) unfolding data_def by (simp_all add: slice_def)
  have le: "length pre + 4 \<le> en" "length pre + 4 + length b \<le> en"
    unfolding en_def nx [symmetric] by simp_all
  obtain tx where tx: "slice data 8 20 = Some tx" using s4 by blast
  have "parse_attrs data en (length pre) mapped = Some (attrs_result (a # as) mapped)"
    by (subst parse_attrs_read [OF le(1) _ s1 s2 _ s4(1) tx, unfolded lb, OF le(2) s3 nx [symmetric]])
      (auto simp: IH a xor_address_eq plain_address_eq split: option.splits)
  moreover have "en = length pre + length (concat (map encode_attr (a # as)))"
    by (simp add: en_def pre'_def rest_def)
  ultimately show ?case by (simp add: data_def rest_def)
qed

lemma attrs_result_eq:
  "attrs_result as mapped =
     (case List.map_filter (\<lambda>(t, b). if t = stunAttrXorMapped then xor_address b else None) as of
        m # _ \<Rightarrow> Inr m
      | [] \<Rightarrow> attrs_end (case mapped of Some m \<Rightarrow> Some m
          | None \<Rightarrow> (case List.map_filter (\<lambda>(t, b). if t = stunAttrMappedAddr then plain_address b else None) as of
              m # _ \<Rightarrow> Some m | [] \<Rightarrow> None)))"
proof (induction as arbitrary: mapped)
  case Nil
  then show ?case by (cases mapped) (simp_all add: List.map_filter_def)
next
  case (Cons a as)
  obtain t b where "a = (t, b)" by (cases a)
  with Cons stun_attr_types show ?case
    by (cases mapped; cases "xor_address b"; cases "plain_address b")
      (auto simp: map_filter_simps split: list.splits)
qed

lemma attrs_result_response:
  "attrs_result as None = attrs_end (response_address as)"
  unfolding attrs_result_eq response_address_def by (auto simp: attrs_end_def split: list.splits)

text \<open>C26: the parser of STUN responses neither panics nor loops on any datagram and any expected
  transaction identifier: every index and slice expression is in range.\<close>

theorem stun_parser_total: "parseSTUNBindingResponse data txID \<noteq> None"
proof (cases "length data < stunHeaderSize")
  case False
  then have l: "20 \<le> length data" by (simp add: stunHeaderSize_def)
  obtain t where t: "get_uint16 (take 2 data) = Some t" using get_uint16_total [of "take 2 data"] l by auto
  obtain ln where ln: "get_uint16 (take 2 (drop 2 data)) = Some ln"
    using get_uint16_total [of "take 2 (drop 2 data)"] l by auto
  obtain c where c: "get_uint32 (take 4 (drop 4 data)) = Some c"
    using get_uint32_total [of "take 4 (drop 4 data)"] l by auto
  show ?thesis
    using False l t ln c parse_attrs_total [of "20 + unat ln" data 20 None]
    by (auto simp: parseSTUNBindingResponse_def stunHeaderSize_def slice_def)
qed (simp add: parseSTUNBindingResponse_def)

lemma parse_stun_response:
  assumes "length txID = 12" and "length (concat (map encode_attr as)) < 65536"
  shows "parseSTUNBindingResponse (stun_response txID as @ trailing) txID =
           Some (attrs_end (response_address as))"
proof -
  let ?attrs = "concat (map encode_attr as)"
  let ?pre = "put_uint16 stunBindingSuccess @ put_uint16 (of_nat (length ?attrs)) @ put_uint32 stunMagicCookie @ txID"
  have data: "stun_response txID as @ trailing = ?pre @ ?attrs @ trailing"
    by (simp add: stun_response_def Let_def)
  have b: "\<forall>(t, b) \<in> set as. length b < 65536"
  proof (clarify)
    fix t b assume "(t, b) \<in> set as"
    then have "length (encode_attr (t, b)) \<le> length ?attrs"
      by (induction as) auto
    then show "length b < 65536" using assms(2) by (simp add: encode_attr_def)
  qed
  have g: "get_uint16 (put_uint16 w) = Some w" "get_uint32 (put_uint32 v) = Some v" for w v
    using get_put_uint16 [of w "[]"] get_put_uint32 [of v "[]"] by simp_all
  have pre: "length ?pre = 20" using assms(1) by simp
  have "parse_attrs (?pre @ ?attrs @ trailing) (20 + length ?attrs) 20 None = Some (attrs_result as None)"
    using parse_attrs_encoded [of ?pre as trailing None] b pre assms(1) by simp
  then show ?thesis
    unfolding data attrs_result_response [symmetric]
    using assms unat_of_nat_16 [OF assms(2)]
    by (simp add: parseSTUNBindingResponse_def stunHeaderSize_def slice_def g)
qed

text \<open>C25: on every well-formed success response (any list of attributes of any types, each padded
  to four bytes) that carries the expected transaction identifier, the parser returns the address of
  the first readable XOR-MAPPED-ADDRESS attribute, failing that of the first readable MAPPED-ADDRESS
  attribute, and an error if there is neither; bytes behind the message are ignored.\<close>

theorem stun_parser_reference:
  assumes "length txID = 12" and "length (concat (map encode_attr as)) < 65536"
  shows "parseSTUNBindingResponse (stun_response txID as @ trailing) txID =
           Some (attrs_end (response_address as))"
  by (rule parse_stun_response [OF assms])

lemma xor_address_body:
  assumes "length ip = 4"
  shows "xor_address (xor_body ip port) = Some \<lparr>IP = ip, Port = uint port\<rparr>"
proof -
  obtain a b c d where ip: "ip = [a, b, c, d]"
    using assms by (cases ip rule: get_uint32.cases) auto
  have g: "get_uint16 (put_uint16 w) = Some w" "get_uint32 (put_uint32 v) = Some v" for w v
    using get_put_uint16 [of w "[]"] get_put_uint32 [of v "[]"] by simp_all
  let ?p = "put_uint16 (port XOR ucast (drop_bit 16 stunMagicCookie))"
  let ?v = "put_uint32 (join_uint32 a b c d XOR stunMagicCookie)"
  have "slice ([0, 1] @ ?p @ ?v) 2 4 = Some ?p" "slice ([0, 1] @ ?p @ ?v) 4 8 = Some ?v"
    by (simp_all add: slice_def)
  then show ?thesis
    by (simp add: xor_address_def xor_body_def ip parseXorMappedAddress_def g idx_def Let_def
        xor.assoc put_join_uint32)
qed

text \<open>The address that a server puts into a XOR-MAPPED-ADDRESS attribute is the address the
  client reads, whatever attributes of other types precede or follow it.\<close>

theorem stun_address_roundtrip:
  assumes "length txID = 12" and "length ip = 4"
    and "\<forall>(t, b) \<in> set before. t \<noteq> stunAttrXorMapped"
    and "length (concat (map encode_attr (before @ (stunAttrXorMapped, xor_body ip port) # after))) < 65536"
  shows "parseSTUNBindingResponse
           (stun_response txID (before @ (stunAttrXorMapped, xor_body ip port) # after)) txID =
         Some (Inr \<lparr>IP = ip, Port = uint port\<rparr>)"
proof -
  have "List.map_filter (\<lambda>(t, b). if t = stunAttrXorMapped then xor_address b else None) before = []"
    using assms(3) by (induction before) (auto simp: map_filter_simps)
  then have "response_address (before @ (stunAttrXorMapped, xor_body ip port) # after) = Some \<lparr>IP = ip, Port = uint port\<rparr>"
    using xor_address_body [OF assms(2)]
    by (simp add: response_address_def List.map_filter_def)
  then show ?thesis
    using parse_stun_response [OF assms(1,4), of "[]"] by (simp add: attrs_end_def)
qed

definition example_tx :: bytes where "example_tx = [1, 2, 3, 4, 5, 6, 7, 8, 9, 10, 11, 12]"

theorem stun_parser_reference_witness:
  "parseSTUNBindingResponse (stun_response example_tx [(0x8022, [65, 66, 67]), (stunAttrMappedAddr, plain_body [192, 0, 2, 1] 4000)] @ [7])
     example_tx = Some (attrs_end (response_address [(0x8022, [65, 66, 67]), (stunAttrMappedAddr, plain_body [192, 0, 2, 1] 4000)]))"
  by (rule stun_parser_reference) (simp_all add: example_tx_def encode_attr_def padding_def plain_body_def)

theorem stun_address_roundtrip_witness:
  "parseSTUNBindingResponse (stun_response example_tx ([(0x8022, [65, 66, 67])] @ (stunAttrXorMapped, xor_body [192, 0, 2, 1] 4000) # []))
     example_tx = Some (Inr \<lparr>IP = [192, 0, 2, 1], Port = uint (4000 :: uint16)\<rparr>)"
  by (rule stun_address_roundtrip)
    (simp_all add: example_tx_def encode_attr_def padding_def xor_body_def stunAttrXorMapped_def)

section \<open>Classification\<close>

lemma unique_loop_spec:
  "set out = seen \<Longrightarrow> distinct out \<Longrightarrow>
   set (unique_loop ss seen out) = seen \<union> set ss \<and> distinct (unique_loop ss seen out)"
  by (induction ss seen out rule: unique_loop.induct) auto

lemma uniqueStrings_spec: "set (uniqueStrings ss) = set ss \<and> distinct (uniqueStrings ss)"
  using unique_loop_spec [of "[]" "{}" ss] by (simp add: uniqueStrings_def)

lemma uniqueStrings_gt1: "length (uniqueStrings ss) > 1 \<longleftrightarrow> (\<exists>x \<in> set ss. \<exists>y \<in> set ss. x \<noteq> y)"
proof -
  have "length (uniqueStrings ss) = card (set ss)"
    using uniqueStrings_spec [of ss] by (metis distinct_card)
  moreover have "card (set ss) > 1 \<longleftrightarrow> (\<exists>x \<in> set ss. \<exists>y \<in> set ss. x \<noteq> y)"
    by (metis One_nat_def card_le_Suc0_iff_eq finite_set not_less)
  ultimately show ?thesis by simp
qed

lemma sort_bounds:
  fixes xs :: "int list"
  assumes "xs \<noteq> []"
  shows "last (sort xs) = Max (set xs)" and "hd (sort xs) = Min (set xs)"
proof -
  have ne: "sort xs \<noteq> []" using assms by (metis length_0_conv length_sort)
  have "\<forall>y \<in> set (sort xs). y \<le> last (sort xs)"
    using sorted_sort [of xs] ne by (cases "sort xs" rule: rev_cases) (auto simp: sorted_append)
  then show "last (sort xs) = Max (set xs)"
    using last_in_set [OF ne] by (intro Max_eqI [symmetric]) auto
  have "\<forall>y \<in> set (sort xs). hd (sort xs) \<le> y"
    using sorted_sort [of xs] ne by (cases "sort xs") auto
  then show "hd (sort xs) = Min (set xs)"
    using hd_in_set [OF ne] by (intro Min_eqI [symmetric]) auto
qed

text \<open>C32: what a successful NAT detection means. At least two servers answered; the type is Cone
  exactly if all answers named the same port; it is Easy only if all answers named the same address,
  their ports spread over at most 100, and a second socket was mapped to a port less than 100 above
  (incremental) or below (decremental) all of them, which is then the port reported; it is Hard in
  every other case, and never Open or Unknown.\<close>

theorem detect_nat_meaning:
  assumes "DetectNAT listen1 query listen2 extra servers = (Some info, None)"
  defines "results \<equiv> collect query 0 servers"
  defines "ports \<equiv> set (map Port results)"
  shows "length results \<ge> 2 \<and>
    nat_Type info \<in> {NATCone, NATSymmetricEasyInc, NATSymmetricEasyDec, NATSymmetricHard} \<and>
    (nat_Type info = NATCone \<longleftrightarrow> Max ports = Min ports) \<and>
    (nat_Type info = NATSymmetricEasyInc \<longrightarrow>
       Max ports - Min ports \<le> 100 \<and> PublicPort info \<in> {Max ports <..< Max ports + 100}) \<and>
    (nat_Type info = NATSymmetricEasyDec \<longrightarrow>
       Max ports - Min ports \<le> 100 \<and> PublicPort info \<in> {Min ports - 100 <..< Min ports}) \<and>
    (nat_Type info \<in> {NATSymmetricEasyInc, NATSymmetricEasyDec} \<longrightarrow>
       (\<forall>m \<in> set results. ip_String (IP m) = PublicIP info) \<and>
       (\<exists>e. extra = Inr e \<and> PublicPort info = Port e)) \<and>
    (nat_Type info \<in> {NATCone, NATSymmetricHard} \<longrightarrow> PublicPort info = Port (hd results))"
proof -
  obtain r r' rs where R: "results = r # r' # rs"
    using assms(1) unfolding results_def DetectNAT_def
    by (auto split: if_splits option.splits list.splits)
  have ports: "ports \<noteq> {}" "finite ports" "Port r \<in> ports" by (auto simp: ports_def R)
  have same: "list_all (\<lambda>m. Port m = Port r) (r' # rs) \<longleftrightarrow> Max ports = Min ports"
  proof
    assume "list_all (\<lambda>m. Port m = Port r) (r' # rs)"
    then have "ports = {Port r}" by (auto simp: ports_def R list_all_iff)
    then show "Max ports = Min ports" by simp
  next
    assume eq: "Max ports = Min ports"
    have "p = Port r" if "p \<in> ports" for p
      using Max_ge [OF ports(2) that] Min_le [OF ports(2) that] Max_ge [OF ports(2,3)] Min_le [OF ports(2,3)] eq
      by simp
    then show "list_all (\<lambda>m. Port m = Port r) (r' # rs)" by (auto simp: list_all_iff ports_def R)
  qed
  have b: "last (sort (map Port results)) = Max ports" "hd (sort (map Port results)) = Min ports"
    using sort_bounds [of "map Port results"] by (auto simp: ports_def R)
  have u: "\<not> length (uniqueStrings (map (\<lambda>m. ip_String (IP m)) results)) > 1 \<Longrightarrow>
      \<forall>m \<in> set results. ip_String (IP m) = ip_String (IP r)"
  proof -
    assume n: "\<not> length (uniqueStrings (map (\<lambda>m. ip_String (IP m)) results)) > 1"
    have r: "ip_String (IP r) \<in> set (map (\<lambda>m. ip_String (IP m)) results)" unfolding R set_map by simp
    show ?thesis
    proof
      fix m assume "m \<in> set results"
      then have "ip_String (IP m) \<in> set (map (\<lambda>m. ip_String (IP m)) results)" unfolding set_map by blast
      with r n show "ip_String (IP m) = ip_String (IP r)" unfolding uniqueStrings_gt1 by blast
    qed
  qed
  define U where "U \<longleftrightarrow> length (uniqueStrings (map (\<lambda>m. ip_String (IP m)) results)) > 1"
  define base where "base = \<lparr>nat_Type = NATUnknown, PublicIP = ip_String (IP r), PublicPort = Port r\<rparr>"
  have D: "(Some info, None) =
      (if Max ports = Min ports then (Some (base\<lparr>nat_Type := NATCone\<rparr>), None)
       else if U then (Some (base\<lparr>nat_Type := NATSymmetricHard\<rparr>), None)
       else if Max ports - Min ports > 100 then (Some (base\<lparr>nat_Type := NATSymmetricHard\<rparr>), None)
       else (case listen2 of
          Some _ \<Rightarrow> (Some (base\<lparr>nat_Type := NATSymmetricHard\<rparr>), None)
        | None \<Rightarrow>
            (case extra of
               Inl _ \<Rightarrow> (Some (base\<lparr>nat_Type := NATSymmetricHard\<rparr>), None)
             | Inr e \<Rightarrow>
                 if Port e - Max ports > 0 \<and> Port e - Max ports < 100
                 then (Some (base\<lparr>nat_Type := NATSymmetricEasyInc, PublicPort := Port e\<rparr>), None)
                 else if Min ports - Port e > 0 \<and> Min ports - Port e < 100
                 then (Some (base\<lparr>nat_Type := NATSymmetricEasyDec, PublicPort := Port e\<rparr>), None)
                 else (Some (base\<lparr>nat_Type := NATSymmetricHard\<rparr>), None :: error option))))"
  proof -
    have "\<not> length servers < 2" "listen1 = None"
      using assms(1) by (auto simp: DetectNAT_def split: if_splits option.splits)
    then have "(Some info, None) = DetectNAT None query listen2 extra servers" using assms(1) by simp
    also have "\<dots> = (if list_all (\<lambda>m. Port m = Port r) (r' # rs) then (Some (base\<lparr>nat_Type := NATCone\<rparr>), None)
       else if U then (Some (base\<lparr>nat_Type := NATSymmetricHard\<rparr>), None)
       else if Max ports - Min ports > 100 then (Some (base\<lparr>nat_Type := NATSymmetricHard\<rparr>), None)
       else (case listen2 of
          Some _ \<Rightarrow> (Some (base\<lparr>nat_Type := NATSymmetricHard\<rparr>), None)
        | None \<Rightarrow>
            (case extra of
               Inl _ \<Rightarrow> (Some (base\<lparr>nat_Type := NATSymmetricHard\<rparr>), None)
             | Inr e \<Rightarrow>
                 if Port e - Max ports > 0 \<and> Port e - Max ports < 100
                 then (Some (base\<lparr>nat_Type := NATSymmetricEasyInc, PublicPort := Port e\<rparr>), None)
                 else if Min ports - Port e > 0 \<and> Min ports - Port e < 100
                 then (Some (base\<lparr>nat_Type := NATSymmetricEasyDec, PublicPort := Port e\<rparr>), None)
                 else (Some (base\<lparr>nat_Type := NATSymmetricHard\<rparr>), None))))"
      using \<open>\<not> length servers < 2\<close>
      unfolding DetectNAT_def results_def [symmetric] R list.case option.case Let_def b [unfolded R]
        U_def base_def if_False by simp
    finally show ?thesis unfolding same .
  qed
  have u': "\<not> U \<Longrightarrow> \<forall>m \<in> set results. ip_String (IP m) = PublicIP base"
    using u by (simp add: U_def base_def)
  have p: "PublicPort base = Port (hd results)" by (simp add: base_def R)
  have len: "length results \<ge> 2" by (simp add: R)
  show ?thesis
    using D u' p len by (auto split: if_splits option.splits sum.splits)
qed

definition example_query :: "nat \<Rightarrow> string \<Rightarrow> error + stunMappedAddr" where
  "example_query k s = (if s = ''stun1'' then Inr \<lparr>IP = [192, 0, 2, 1], Port = 1000\<rparr>
     else Inr \<lparr>IP = [192, 0, 2, 1], Port = 1010\<rparr>)"

theorem detect_nat_meaning_witness:
  "\<exists>info. DetectNAT None example_query None (Inr \<lparr>IP = [192, 0, 2, 1], Port = 1020\<rparr>) [''stun1'', ''stun2''] = (Some info, None) \<and>
     nat_Type info = NATSymmetricEasyInc \<and> PublicPort info = 1020 \<and>
     PublicPort info \<in> {Max (set (map Port (collect example_query 0 [''stun1'', ''stun2'']))) <..<
       Max (set (map Port (collect example_query 0 [''stun1'', ''stun2'']))) + 100}"
proof -
  let ?i = "\<lparr>nat_Type = NATSymmetricEasyInc, PublicIP = ip_String [192, 0, 2, 1], PublicPort = 1020\<rparr>"
  have "DetectNAT None example_query None (Inr \<lparr>IP = [192, 0, 2, 1], Port = 1020\<rparr>) [''stun1'', ''stun2''] = (Some ?i, None)"
    by (simp add: DetectNAT_def example_query_def uniqueStrings_def Let_def)
  from this detect_nat_meaning [OF this] show ?thesis by (intro exI [of _ ?i]) simp
qed

end
