(* ===== verification/F2P_Punch.thy ===== *)
theory F2P_Punch
  imports F2P_STUN "HOL-Library.Multiset"
begin

text \<open>
  \<^verbatim>\<open>internal/holepunch/punch.go\<close> and the punch packets of \<^verbatim>\<open>types.go\<close>. Sockets are numbers, the set of
  open sockets is threaded through the operations that open and close them, and every operation
  returns the datagrams it sent. What the network does is an argument: the results of
  \<^verbatim>\<open>net.ListenUDP\<close>, and for each turn of a loop what the listener goroutines have read by the time of
  its \<^verbatim>\<open>select\<close> and how long the turn took, the timer of the \<^verbatim>\<open>select\<close> not counted. The clock is read
  at the beginning of a turn, as in the conditions of the loops, and every punch returns the time
  at which it ended. The lemmas show that a punch packet is recognised exactly by its
  transaction, that the shuffle permutes all ports, that every loop ends in time, that no socket is
  left open when a punch fails, and which datagrams leave.
\<close>

section \<open>Packets\<close>

definition PunchMagic :: bytes where "PunchMagic = [0xF2, 0x50, 0x48, 0x50]"
definition PunchPacketSize :: nat where "PunchPacketSize = 64"

definition MakePunchPacket :: "uint32 \<Rightarrow> bytes" where
  "MakePunchPacket tid =
     PunchMagic @ [ucast (drop_bit 24 tid), ucast (drop_bit 16 tid), ucast (drop_bit 8 tid), ucast tid]
     @ replicate (PunchPacketSize - 8) 0"

text \<open>\<open>None\<close> is the run-time panic, the pair the results \<^verbatim>\<open>tid\<close> and \<^verbatim>\<open>ok\<close>.\<close>

definition ParsePunchPacket :: "bytes \<Rightarrow> (uint32 \<times> bool) option" where
  "ParsePunchPacket data =
     (if length data < 8 then Some (0, False)
      else do {
        a \<leftarrow> idx data 0; b \<leftarrow> idx data 1; c \<leftarrow> idx data 2; d \<leftarrow> idx data 3;
        if a \<noteq> PunchMagic ! 0 \<or> b \<noteq> PunchMagic ! 1 \<or> c \<noteq> PunchMagic ! 2 \<or> d \<noteq> PunchMagic ! 3
        then Some (0, False)
        else do {
          e \<leftarrow> idx data 4; f \<leftarrow> idx data 5; g \<leftarrow> idx data 6; h \<leftarrow> idx data 7;
          Some (join_uint32 e f g h, True) } })"

definition SymToConeSocketCount :: nat where "SymToConeSocketCount = 84"
definition BothEasySymSocketCount :: nat where "BothEasySymSocketCount = 25"
definition EasySymPortOffset :: int where "EasySymPortOffset = 20"
definition BirthdayMinPackets :: int where "BirthdayMinPackets = 600"
definition BirthdayMaxPackets :: int where "BirthdayMaxPackets = 800"
definition PunchTimeout :: duration where "PunchTimeout = 30 * second"
definition PunchRoundDuration :: duration where "PunchRoundDuration = 5 * second"
definition PunchSendInterval :: duration where "PunchSendInterval = 100 * millisecond"
definition PunchMaxRounds :: nat where "PunchMaxRounds = 5"
definition PunchConfirmDuration :: duration where "PunchConfirmDuration = 1 * second"
definition PunchConfirmInterval :: duration where "PunchConfirmInterval = 50 * millisecond"

section \<open>Addresses\<close>

text \<open>\<^verbatim>\<open>net.ParseIP\<close>: the first dot or colon decides between the IPv4 and the IPv6 syntax; an IPv4
  address is four decimal numbers below 256 without leading zeros and is returned in its 16-byte
  form. \<open>acc\<close>, \<open>v\<close> and \<open>dl\<close> are the fields read, the value and the digits of the current one. The
  result for the IPv6 syntax is the argument \<open>v6\<close>; \<open>[]\<close> is nil.\<close>

definition is_digit :: "char \<Rightarrow> bool" where
  "is_digit c \<longleftrightarrow> 48 \<le> (of_char c :: nat) \<and> (of_char c :: nat) \<le> 57"

fun ipv4_fields :: "string \<Rightarrow> bytes \<Rightarrow> nat \<Rightarrow> nat \<Rightarrow> bytes option" where
  "ipv4_fields [] acc v dl =
     (if length acc < 3 \<or> dl = 0 then None else Some (acc @ [of_nat v]))"
| "ipv4_fields (c # s) acc v dl =
     (if is_digit c then
        (if dl = 1 \<and> v = 0 then None
         else let v' = v * 10 + (of_char c - 48)
              in if v' > 255 then None else ipv4_fields s acc v' (Suc dl))
      else if c = CHR ''.'' then
        (if dl = 0 \<or> length acc = 3 then None else ipv4_fields s (acc @ [of_nat v]) 0 0)
      else None)"

definition v4_in_v6 :: "bytes \<Rightarrow> bytes" where
  "v4_in_v6 ip = replicate 10 0 @ [0xFF, 0xFF] @ ip"

definition ParseIP :: "(string \<Rightarrow> bytes) \<Rightarrow> string \<Rightarrow> bytes" where
  "ParseIP v6 s =
     (case List.find (\<lambda>c. c \<in> {CHR ''.'', CHR '':'', CHR ''%''}) s of
        Some c \<Rightarrow>
          if c = CHR ''.'' then (case ipv4_fields s [] 0 0 of Some ip \<Rightarrow> v4_in_v6 ip | None \<Rightarrow> [])
          else if c = CHR '':'' then v6 s
          else []
      | None \<Rightarrow> [])"

section \<open>Sockets\<close>

type_synonym sock = nat

record udp_addr =
  ua_IP :: bytes
  ua_Port :: int

text \<open>\<^verbatim>\<open>WriteTo\<close> refuses a port that does not fit into 16 bits.\<close>

definition port_valid :: "int \<Rightarrow> bool" where
  "port_valid p \<longleftrightarrow> 0 \<le> p \<and> p \<le> 65535"

text \<open>The datagrams that leave: socket, contents and destination.\<close>

type_synonym sends = "(sock \<times> bytes \<times> udp_addr) list"

definition WriteTo :: "sock \<Rightarrow> bytes \<Rightarrow> udp_addr \<Rightarrow> sends" where
  "WriteTo s data addr = (if port_valid (ua_Port addr) then [(s, data, addr)] else [])"

definition close_all :: "sock list \<Rightarrow> sock set \<Rightarrow> sock set" where
  "close_all socks opened = opened - set socks"

text \<open>\<open>listen\<close> gives the results of the successive calls of \<^verbatim>\<open>net.ListenUDP\<close>.\<close>

fun new_sockets :: "(nat \<Rightarrow> error + sock) \<Rightarrow> nat \<Rightarrow> nat \<Rightarrow> sock list \<Rightarrow> sock set \<Rightarrow>
    (error + sock list) \<times> sock set" where
  "new_sockets listen i 0 arr opened = (Inr arr, opened)"
| "new_sockets listen i (Suc n) arr opened =
     (case listen i of
        Inl e \<Rightarrow> (Inl (Errorf ''listen socket %d: %w'' [FInt (int i), FWrap e]), close_all arr opened)
      | Inr s \<Rightarrow> new_sockets listen (Suc i) n (arr @ [s]) (insert s opened))"

definition NewUDPSocketArray ::
    "(nat \<Rightarrow> error + sock) \<Rightarrow> nat \<Rightarrow> sock set \<Rightarrow> (error + sock list) \<times> sock set" where
  "NewUDPSocketArray listen n opened = new_sockets listen 0 n [] opened"

text \<open>Errors of sending are logged only.\<close>

definition SendAll :: "sock list \<Rightarrow> bytes \<Rightarrow> udp_addr \<Rightarrow> sends" where
  "SendAll socks data addr = concat (map (\<lambda>s. WriteTo s data addr) socks)"

definition closeSockets :: "sock list \<Rightarrow> sock \<Rightarrow> sock set \<Rightarrow> sock set" where
  "closeSockets socks keep opened = opened - {s \<in> set socks. s \<noteq> keep}"

section \<open>Listeners\<close>

text \<open>What a listener reads: a datagram with its sender, or a read that failed or timed out.\<close>

datatype datagram = Datagram bytes udp_addr | ReadTimeout

text \<open>A listener reports the sender of the first punch packet of the transaction (its buffer holds
  256 bytes); \<open>None\<close> is a panic.\<close>

fun listener :: "uint32 \<Rightarrow> datagram list \<Rightarrow> udp_addr option option" where
  "listener tid [] = Some None"
| "listener tid (ReadTimeout # ds) = listener tid ds"
| "listener tid (Datagram buf raddr # ds) =
     (case ParsePunchPacket (take 256 buf) of
        None \<Rightarrow> None
      | Some (rxTID, ok) \<Rightarrow> if ok \<and> rxTID = tid then Some (Some raddr) else listener tid ds)"

text \<open>The first result in the channel of the listeners of \<open>arr\<close>; \<open>reads\<close> lists what they have read, in
  the order in which they stopped.\<close>

fun arrived :: "sock list \<Rightarrow> uint32 \<Rightarrow> (sock \<times> datagram list) list \<Rightarrow> (sock \<times> udp_addr) option" where
  "arrived arr tid [] = None"
| "arrived arr tid ((s, ds) # reads) =
     (case listener tid ds of
        Some (Some a) \<Rightarrow> if s \<in> set arr then Some (s, a) else arrived arr tid reads
      | _ \<Rightarrow> arrived arr tid reads)"

section \<open>The punching loops\<close>

record PunchedSocket =
  pk_Conn :: sock
  pk_LocalAddr :: udp_addr
  pk_RemoteAddr :: udp_addr

text \<open>One turn of a loop: what has been read when its \<^verbatim>\<open>select\<close> is entered or waits, and the time the turn
  takes. When nothing arrives, the send interval for which the \<^verbatim>\<open>select\<close> waits comes on top of it.\<close>

datatype turn = Turn "(sock \<times> datagram list) list" duration

text \<open>\<open>out\<close> are the datagrams sent in one turn. The result is the channel's value, the time at which
  the loop ended and all datagrams sent; \<open>None\<close>: the turns given are used up and the loop still runs.\<close>

type_synonym loop_result = "((sock \<times> udp_addr) option \<times> time \<times> sends) option"

function sym_loop :: "sock list \<Rightarrow> uint32 \<Rightarrow> sends \<Rightarrow> time \<Rightarrow> nat \<Rightarrow> time \<Rightarrow> time \<Rightarrow> turn list \<Rightarrow> sends \<Rightarrow> loop_result" where
  "sym_loop arr tid out deadline round roundEnd now turns sent =
     (if now < roundEnd \<and> now < deadline then
        (case turns of
           [] \<Rightarrow> None
         | Turn reads dt # ts \<Rightarrow>
             (case arrived arr tid reads of
                Some r \<Rightarrow> Some (Some r, now + dt, sent @ out)
              | None \<Rightarrow> sym_loop arr tid out deadline round roundEnd (now + dt + PunchSendInterval) ts (sent @ out)))
      else if Suc round < PunchMaxRounds \<and> now < deadline
      then sym_loop arr tid out deadline (Suc round) (now + PunchRoundDuration) now turns sent
      else Some (None, now, sent))"
  by pat_completeness auto

termination sym_loop
  by (relation "measures [\<lambda>(a, t, o', d, r, e, n, ts, s). length ts,
        \<lambda>(a, t, o', d, r, e, n, ts, s). PunchMaxRounds - r]") auto

declare sym_loop.simps [simp del]

text \<open>The loops that send until the deadline.\<close>

fun until_deadline :: "sock list \<Rightarrow> uint32 \<Rightarrow> sends \<Rightarrow> time \<Rightarrow> time \<Rightarrow> turn list \<Rightarrow> sends \<Rightarrow> loop_result" where
  "until_deadline arr tid out deadline now [] sent = (if now < deadline then None else Some (None, now, sent))"
| "until_deadline arr tid out deadline now (Turn reads dt # ts) sent =
     (if now < deadline then
        (case arrived arr tid reads of
           Some r \<Rightarrow> Some (Some r, now + dt, sent @ out)
         | None \<Rightarrow> until_deadline arr tid out deadline (now + dt + PunchSendInterval) ts (sent @ out))
      else Some (None, now, sent))"

text \<open>What the network and the clock do: the results of \<^verbatim>\<open>net.ListenUDP\<close>, the local address of a socket,
  the time at which a punch computes its deadline and the turns of its loop; for the birthday attack
  from the cone side, what the listener has read after \<open>k\<close> packets and by the end of the pause of round
  \<open>r\<close>, the time that sending the \<open>k\<close>-th packet takes and that the pause of round \<open>r\<close> takes (on top of its
  second when nothing arrives), the random draws, and the time each confirmation takes on top of its
  interval.\<close>

record net_env =
  ne_listen :: "nat \<Rightarrow> error + sock"
  ne_local :: "sock \<Rightarrow> udp_addr"
  ne_now :: time
  ne_turns :: "turn list"
  ne_heard :: "nat \<Rightarrow> datagram list"
  ne_heard_end :: "nat \<Rightarrow> datagram list"
  ne_took :: "nat \<Rightarrow> duration"
  ne_pause :: "nat \<Rightarrow> duration"
  ne_rnd :: "nat \<Rightarrow> nat \<Rightarrow> nat"
  ne_confirm :: "duration list"

text \<open>What a punch leaves behind: all datagrams that it sent and the time at which it returned.\<close>

type_synonym punch_trace = "sends \<times> time"

type_synonym punch_result = "((error + PunchedSocket) \<times> sock set \<times> punch_trace) option"

definition punched :: "net_env \<Rightarrow> sock \<Rightarrow> udp_addr \<Rightarrow> PunchedSocket" where
  "punched E s a = \<lparr>pk_Conn = s, pk_LocalAddr = ne_local E s, pk_RemoteAddr = a\<rparr>"

definition punchSymToCone :: "net_env \<Rightarrow> udp_addr \<Rightarrow> uint32 \<Rightarrow> sock set \<Rightarrow> punch_result" where
  "punchSymToCone E serverAddr tid opened =
     (case NewUDPSocketArray (ne_listen E) SymToConeSocketCount opened of
        (Inl e, opened') \<Rightarrow> Some (Inl (Errorf ''create socket array: %w'' [FWrap e]), opened', [], ne_now E)
      | (Inr arr, opened') \<Rightarrow>
          let pkt = MakePunchPacket tid;
              deadline = ne_now E + PunchTimeout
          in map_option (\<lambda>(r, t, sent). case r of
                Some (s, a) \<Rightarrow> (Inr (punched E s a), closeSockets arr s opened', sent, t)
              | None \<Rightarrow> (Inl (Errorf ''punch timeout after %v'' [FInt PunchTimeout]), close_all arr opened', sent, t))
            (sym_loop arr tid (SendAll arr pkt serverAddr) deadline 0 (ne_now E + PunchRoundDuration)
               (ne_now E) (ne_turns E) []))"

definition predictedPeerPort :: "udp_addr \<Rightarrow> bool \<Rightarrow> int" where
  "predictedPeerPort peerAddr peerIncremental =
     (if peerIncremental then ua_Port peerAddr + EasySymPortOffset else ua_Port peerAddr - EasySymPortOffset)"

definition punchBothEasySym ::
    "net_env \<Rightarrow> udp_addr \<Rightarrow> bool \<Rightarrow> bool \<Rightarrow> int \<Rightarrow> uint32 \<Rightarrow> sock set \<Rightarrow> punch_result" where
  "punchBothEasySym E peerAddr myIncremental peerIncremental myCurrentPort tid opened =
     (let targetAddr = \<lparr>ua_IP = ua_IP peerAddr, ua_Port = predictedPeerPort peerAddr peerIncremental\<rparr>
      in case NewUDPSocketArray (ne_listen E) BothEasySymSocketCount opened of
        (Inl e, opened') \<Rightarrow> Some (Inl (Errorf ''create socket array: %w'' [FWrap e]), opened', [], ne_now E)
      | (Inr arr, opened') \<Rightarrow>
          let pkt = MakePunchPacket tid;
              deadline = ne_now E + PunchTimeout
          in map_option (\<lambda>(r, t, sent). case r of
                Some (s, a) \<Rightarrow> (Inr (punched E s a), closeSockets arr s opened', sent, t)
              | None \<Rightarrow> (Inl (Errorf ''both easy sym punch timeout'' []), close_all arr opened', sent, t))
            (until_deadline arr tid (SendAll arr pkt targetAddr) deadline (ne_now E) (ne_turns E) []))"

definition punchConeToCone :: "net_env \<Rightarrow> sock \<Rightarrow> udp_addr \<Rightarrow> uint32 \<Rightarrow> sock set \<Rightarrow> punch_result" where
  "punchConeToCone E mySocket peerAddr tid opened =
     (let pkt = MakePunchPacket tid;
          deadline = ne_now E + PunchTimeout
      in map_option (\<lambda>(r, t, sent). case r of
            Some (_, a) \<Rightarrow> (Inr (punched E mySocket a), opened, sent, t)
          | None \<Rightarrow> (Inl (Errorf ''cone-to-cone punch timeout'' []), opened, sent, t))
        (until_deadline [mySocket] tid (WriteTo mySocket pkt peerAddr) deadline (ne_now E) (ne_turns E) []))"

section \<open>The birthday attack from the cone side\<close>

text \<open>\<^verbatim>\<open>randomInt\<close>: the \<open>k\<close>-th draw below a bound is \<open>rnd k bound\<close>.\<close>

definition randomInt :: "(nat \<Rightarrow> nat \<Rightarrow> nat) \<Rightarrow> nat \<Rightarrow> int \<Rightarrow> int \<Rightarrow> int" where
  "randomInt rnd k mn mx = int (rnd k (nat (mx - mn))) + mn"

fun shuffle_loop :: "(nat \<Rightarrow> nat \<Rightarrow> nat) \<Rightarrow> nat \<Rightarrow> int list \<Rightarrow> int list" where
  "shuffle_loop rnd 0 ports = ports"
| "shuffle_loop rnd (Suc i) ports =
     (let j = nat (randomInt rnd (Suc i) 0 (int (Suc i) + 1));
          ports' = ports[Suc i := ports ! j, j := ports ! Suc i]
      in shuffle_loop rnd i ports')"

definition generateShuffledPorts :: "(nat \<Rightarrow> nat \<Rightarrow> nat) \<Rightarrow> int list" where
  "generateShuffledPorts rnd =
     (let ports = map (\<lambda>i. int i + 1) [0..<65535]
      in shuffle_loop rnd (length ports - 1) ports)"

text \<open>The confirmations: their number and the time after them, \<open>None\<close> when the times given are used up.\<close>

fun confirm_loop :: "time \<Rightarrow> time \<Rightarrow> duration list \<Rightarrow> (nat \<times> time) option" where
  "confirm_loop confirmEnd now [] = (if now < confirmEnd then None else Some (0, now))"
| "confirm_loop confirmEnd now (d # ds) =
     (if now < confirmEnd
      then map_option (\<lambda>(n, t). (Suc n, t)) (confirm_loop confirmEnd (now + d + PunchConfirmInterval) ds)
      else Some (0, now))"

text \<open>One round: \<open>k\<close> packets have been sent before the \<open>i\<close>-th of this round, \<open>sent\<close> lists the indices
  of the ports used. It ends with the sender found, or with \<open>k\<close> and the port index, and the time.
  \<open>found k\<close> is what the receive channel holds after \<open>k\<close> packets, \<open>took k\<close> the time that sending the
  \<open>k\<close>-th takes.\<close>

function cone_round ::
    "(nat \<Rightarrow> udp_addr option) \<Rightarrow> (nat \<Rightarrow> duration) \<Rightarrow> time \<Rightarrow> nat \<Rightarrow> nat \<Rightarrow> nat \<Rightarrow> nat \<Rightarrow> nat \<Rightarrow> time \<Rightarrow> nat list \<Rightarrow>
     (udp_addr + (nat \<times> nat)) \<times> time \<times> nat list" where
  "cone_round found took deadline nports n i k portIdx now sent =
     (if i < n \<and> now < deadline then
        (let idx0 = (if portIdx \<ge> nports then 0 else portIdx);
             sent' = sent @ [idx0];
             now' = now + took k
         in if i mod 100 = 99 then
              (case found (Suc k) of
                 Some a \<Rightarrow> (Inl a, now', sent')
               | None \<Rightarrow> cone_round found took deadline nports n (Suc i) (Suc k) (Suc idx0) now' sent')
            else cone_round found took deadline nports n (Suc i) (Suc k) (Suc idx0) now' sent')
      else (Inr (k, portIdx), now, sent))"
  by pat_completeness auto

termination cone_round
  by (relation "measure (\<lambda>(f, l, d, np, n, i, k, p, t, s). n - i)") auto

declare cone_round.simps [simp del]

text \<open>The rounds. The pause of a round waits a second for the receive channel.\<close>

fun cone_rounds ::
    "(nat \<Rightarrow> udp_addr option) \<Rightarrow> (nat \<Rightarrow> udp_addr option) \<Rightarrow> (nat \<Rightarrow> duration) \<Rightarrow> (nat \<Rightarrow> duration) \<Rightarrow> time \<Rightarrow>
     (nat \<Rightarrow> nat) \<Rightarrow> nat \<Rightarrow> nat \<Rightarrow> nat \<Rightarrow> nat \<Rightarrow> nat \<Rightarrow> time \<Rightarrow> nat list \<Rightarrow> udp_addr option \<times> time \<times> nat list" where
  "cone_rounds found found_end took pause deadline packets nports 0 r k portIdx now sent = (None, now, sent)"
| "cone_rounds found found_end took pause deadline packets nports (Suc rounds) r k portIdx now sent =
     (if \<not> now < deadline then (None, now, sent)
      else (case cone_round found took deadline nports (packets r) 0 k portIdx now sent of
          (Inl a, now', sent') \<Rightarrow> (Some a, now', sent')
        | (Inr (k', portIdx'), now', sent') \<Rightarrow>
            (case found_end r of
               Some a \<Rightarrow> (Some a, now' + pause r, sent')
             | None \<Rightarrow> cone_rounds found found_end took pause deadline packets nports rounds (Suc r) k' portIdx'
                 (now' + pause r + second) sent')))"

definition cone_packets :: "(nat \<Rightarrow> nat \<Rightarrow> nat) \<Rightarrow> nat \<Rightarrow> nat" where
  "cone_packets rnd r = nat (randomInt rnd (65535 + r) BirthdayMinPackets BirthdayMaxPackets)"

definition heard_tid :: "uint32 \<Rightarrow> (nat \<Rightarrow> datagram list) \<Rightarrow> nat \<Rightarrow> udp_addr option" where
  "heard_tid tid heard k = (case listener tid (heard k) of Some r \<Rightarrow> r | None \<Rightarrow> None)"

definition punchConeToSym :: "net_env \<Rightarrow> sock \<Rightarrow> bytes \<Rightarrow> uint32 \<Rightarrow> sock set \<Rightarrow> punch_result" where
  "punchConeToSym E serverSocket clientIP tid opened =
     (let pkt = MakePunchPacket tid;
          shuffledPorts = generateShuffledPorts (ne_rnd E);
          deadline = ne_now E + PunchTimeout;
          (r, now, sent) = cone_rounds (heard_tid tid (ne_heard E)) (heard_tid tid (ne_heard_end E)) (ne_took E) (ne_pause E)
            deadline (cone_packets (ne_rnd E)) (length shuffledPorts) PunchMaxRounds 0 0 0 (ne_now E) [];
          out = concat (map (\<lambda>i. WriteTo serverSocket pkt
            \<lparr>ua_IP = clientIP, ua_Port = shuffledPorts ! i\<rparr>) sent)
      in case r of
        None \<Rightarrow> Some (Inl (Errorf ''server punch timeout'' []), opened, out, now)
      | Some remoteAddr \<Rightarrow>
          map_option (\<lambda>(n, t). (Inr (punched E serverSocket remoteAddr), opened,
              out @ concat (replicate n (WriteTo serverSocket pkt remoteAddr)), t))
            (confirm_loop (now + PunchConfirmDuration) now (ne_confirm E)))"

section \<open>Choosing the strategy\<close>

definition CreatePunchSocket ::
    "error + sock \<Rightarrow> (sock \<Rightarrow> error + stunMappedAddr) \<Rightarrow> sock set \<Rightarrow> (error + (sock \<times> NATInfo)) \<times> sock set" where
  "CreatePunchSocket listened query opened =
     (case listened of
        Inl e \<Rightarrow> (Inl (Errorf ''listen: %w'' [FWrap e]), opened)
      | Inr conn \<Rightarrow>
          let opened' = insert conn opened
          in case query conn of
             Inl e \<Rightarrow> (Inl (Errorf ''STUN query: %w'' [FWrap e]), close_all [conn] opened')
           | Inr mapped \<Rightarrow>
               (Inr (conn, \<lparr>nat_Type = NATUnknown, PublicIP = ip_String (IP mapped), PublicPort = Port mapped\<rparr>),
                opened'))"

definition peer_addr :: "(string \<Rightarrow> bytes) \<Rightarrow> NATInfo \<Rightarrow> udp_addr" where
  "peer_addr v6 peerNAT = \<lparr>ua_IP = ParseIP v6 (PublicIP peerNAT), ua_Port = PublicPort peerNAT\<rparr>"

fun method_int :: "PunchMethod \<Rightarrow> int" where
  "method_int PunchNone = 0"
| "method_int PunchConeToCone = 1"
| "method_int PunchSymToCone = 2"
| "method_int PunchEasySymToEasySym = 3"
| "method_int (PunchMethod_other n) = n"

definition ExecutePunch ::
    "net_env \<Rightarrow> (string \<Rightarrow> bytes) \<Rightarrow> NATInfo \<Rightarrow> NATInfo \<Rightarrow> PunchMethod \<Rightarrow> uint32 \<Rightarrow> sock option \<Rightarrow> sock set \<Rightarrow> punch_result" where
  "ExecutePunch E v6 myNAT peerNAT method tid punchSock opened =
     (let peerAddr = peer_addr v6 peerNAT
      in case method of
        PunchConeToCone \<Rightarrow>
          (case punchSock of
             None \<Rightarrow> Some (Inl (Errorf ''ConeToCone requires a punch socket'' []), opened, [], ne_now E)
           | Some s \<Rightarrow> punchConeToCone E s peerAddr tid opened)
      | PunchSymToCone \<Rightarrow>
          if IsSymmetric (nat_Type myNAT) then punchSymToCone E peerAddr tid opened
          else (case punchSock of
             None \<Rightarrow> Some (Inl (Errorf ''ConeToSym requires a punch socket'' []), opened, [], ne_now E)
           | Some s \<Rightarrow> punchConeToSym E s (ParseIP v6 (PublicIP peerNAT)) tid opened)
      | PunchEasySymToEasySym \<Rightarrow>
          punchBothEasySym E peerAddr (nat_Type myNAT = NATSymmetricEasyInc)
            (nat_Type peerNAT = NATSymmetricEasyInc) (PublicPort myNAT) tid opened
      | _ \<Rightarrow> Some (Inl (Errorf ''unsupported punch method: %d'' [FInt (method_int method)]), opened, [], ne_now E))"

section \<open>Recognising packets\<close>

lemma put_uint32_bytes:
  "put_uint32 tid = [ucast (drop_bit 24 tid), ucast (drop_bit 16 tid), ucast (drop_bit 8 tid), ucast tid]"
  by (simp add: put_uint32_def)

lemma MakePunchPacket_eq: "MakePunchPacket tid = PunchMagic @ put_uint32 tid @ replicate 56 0"
  by (simp add: MakePunchPacket_def put_uint32_bytes PunchPacketSize_def)

lemma ParsePunchPacket_total: "ParsePunchPacket data \<noteq> None"
proof (cases "length data < 8")
  case False
  then have "\<And>i. i < 8 \<Longrightarrow> idx data i = Some (data ! i)" by (simp add: idx_Some)
  then show ?thesis by (auto simp: ParsePunchPacket_def simp del: not_None_eq)
qed (auto simp: ParsePunchPacket_def)

lemma ParsePunchPacket_iff:
  "ParsePunchPacket data = Some (tid, True) \<longleftrightarrow> (\<exists>rest. data = PunchMagic @ put_uint32 tid @ rest)"
proof
  assume P: "ParsePunchPacket data = Some (tid, True)"
  then have "8 \<le> length data" by (auto simp: ParsePunchPacket_def split: if_splits)
  then obtain a b c d e f g h rest where D: "data = a # b # c # d # e # f # g # h # rest"
    by (auto simp: numeral_eq_Suc Suc_le_length_iff)
  show "\<exists>rest. data = PunchMagic @ put_uint32 tid @ rest"
    using P by (auto simp: D ParsePunchPacket_def idx_def PunchMagic_def put_join_uint32 split: if_splits)
next
  assume "\<exists>rest. data = PunchMagic @ put_uint32 tid @ rest"
  then obtain rest where D: "data = PunchMagic @ put_uint32 tid @ rest" by blast
  show "ParsePunchPacket data = Some (tid, True)"
    using join_put_uint32 [of tid]
    by (simp add: D ParsePunchPacket_def idx_def PunchMagic_def put_uint32_bytes)
qed

lemma listener_total: "listener tid ds \<noteq> None"
proof (induction tid ds rule: listener.induct)
  case (3 tid buf raddr ds)
  then show ?case using ParsePunchPacket_total [of "take 256 buf"] by auto
qed auto

text \<open>The first datagram of the transaction.\<close>

definition punch_datagram :: "uint32 \<Rightarrow> datagram \<Rightarrow> bool" where
  "punch_datagram tid d = (case d of Datagram buf _ \<Rightarrow> take 8 buf = PunchMagic @ put_uint32 tid | ReadTimeout \<Rightarrow> False)"

lemma take8_iff:
  "take 8 buf = PunchMagic @ put_uint32 tid \<longleftrightarrow> (\<exists>rest. take 256 buf = PunchMagic @ put_uint32 tid @ rest)"
proof
  assume "take 8 buf = PunchMagic @ put_uint32 tid"
  then have "take 256 buf = PunchMagic @ put_uint32 tid @ take 248 (drop 8 buf)"
    using take_add [of 8 248 buf] by simp
  then show "\<exists>rest. take 256 buf = PunchMagic @ put_uint32 tid @ rest" by blast
next
  assume "\<exists>rest. take 256 buf = PunchMagic @ put_uint32 tid @ rest"
  then obtain rest where T: "take 256 buf = PunchMagic @ put_uint32 tid @ rest" by blast
  have "take 8 buf = take 8 (take 256 buf)" by simp
  also have "\<dots> = PunchMagic @ put_uint32 tid" unfolding T by (simp add: PunchMagic_def)
  finally show "take 8 buf = PunchMagic @ put_uint32 tid" .
qed

lemma listener_find:
  "listener tid ds = Some (case List.find (punch_datagram tid) ds of Some (Datagram _ a) \<Rightarrow> Some a | _ \<Rightarrow> None)"
proof (induction tid ds rule: listener.induct)
  case (3 tid buf raddr ds)
  obtain t ok where P: "ParsePunchPacket (take 256 buf) = Some (t, ok)"
    using ParsePunchPacket_total [of "take 256 buf"] by auto
  have "punch_datagram tid (Datagram buf raddr) \<longleftrightarrow> ok \<and> t = tid"
    using ParsePunchPacket_iff [of "take 256 buf" tid] P by (auto simp: punch_datagram_def take8_iff)
  then show ?case using 3 P by auto
qed (auto simp: punch_datagram_def)

text \<open>A listener never panics and reports exactly the sender of the first datagram that starts with
  the magic number and the transaction's identifier; in particular it reports the sender of a packet
  made by the peer for the same transaction and ignores one of another transaction.\<close>

theorem listener_spec:
  "listener tid ds = Some (case List.find (punch_datagram tid) ds of Some (Datagram _ a) \<Rightarrow> Some a | _ \<Rightarrow> None) \<and>
   (punch_datagram tid (Datagram (MakePunchPacket tid') a) \<longleftrightarrow> tid' = tid)"
proof -
  have "PunchMagic @ put_uint32 tid' = PunchMagic @ put_uint32 tid \<longleftrightarrow> tid' = tid"
    by (metis append_Nil2 get_put_uint32 option.inject same_append_eq)
  moreover have "take 8 (MakePunchPacket tid') = PunchMagic @ put_uint32 tid'"
    by (simp add: MakePunchPacket_eq PunchMagic_def)
  ultimately show ?thesis by (simp add: listener_find punch_datagram_def)
qed

lemma listener_sound:
  "listener tid ds = Some (Some a) \<Longrightarrow> \<exists>buf. Datagram buf a \<in> set ds \<and> punch_datagram tid (Datagram buf a)"
  by (auto simp: listener_find find_Some_iff split: option.splits datagram.splits) (metis nth_mem)

lemma arrived_sound:
  "arrived arr tid reads = Some (s, a) \<Longrightarrow>
   s \<in> set arr \<and> (\<exists>ds. (s, ds) \<in> set reads \<and> listener tid ds = Some (Some a))"
  by (induction arr tid reads rule: arrived.induct) (auto split: option.splits if_splits)

section \<open>Addresses in text\<close>

lemma of_char_digit: "d < 10 \<Longrightarrow> (of_char (digit_char d) :: nat) = 48 + d"
  by (simp add: digit_char_def of_char_of)

lemma ipv4_digit:
  assumes "d < 10" "\<not> (dl = 1 \<and> v = 0)" "v * 10 + d \<le> 255"
  shows "ipv4_fields (digit_char d # s) acc v dl = ipv4_fields s acc (v * 10 + d) (Suc dl)"
  using assms by (auto simp: is_digit_def of_char_digit Let_def)

lemma ipv4_octet:
  assumes "n \<le> 255"
  shows "\<exists>dl > 0. ipv4_fields (itoa n @ s) acc 0 0 = ipv4_fields s acc n dl"
proof -
  have two: "itoa m = [digit_char (m div 10), digit_char (m mod 10)]" if "10 \<le> m" "m < 100" for m
  proof -
    have "m div 10 < 10" using that by simp
    then show ?thesis using that by (subst itoa.simps, subst itoa.simps) simp
  qed
  consider (a) "n < 10" | (b) "10 \<le> n" "n < 100" | (c) "100 \<le> n" by linarith
  then show ?thesis
  proof cases
    case a
    then show ?thesis by (intro exI [of _ 1]) (simp add: itoa.simps [of n] ipv4_digit del: ipv4_fields.simps)
  next
    case b
    then show ?thesis by (intro exI [of _ 2]) (simp add: two ipv4_digit numeral_2_eq_2 del: ipv4_fields.simps)
  next
    case c
    have n: "itoa n = [digit_char (n div 10 div 10), digit_char (n div 10 mod 10), digit_char (n mod 10)]"
      using c assms by (subst itoa.simps) (simp add: two)
    have "n div 10 div 10 < 10" "n div 10 div 10 \<noteq> 0" "n div 10 div 10 * 10 + n div 10 mod 10 = n div 10"
      using c assms by (simp_all, linarith?)
    then show ?thesis using c assms by (intro exI [of _ 3]) (simp add: n ipv4_digit numeral_3_eq_3 del: ipv4_fields.simps)
  qed
qed

lemma ipv4_dot: "dl > 0 \<Longrightarrow> length acc < 3 \<Longrightarrow>
  ipv4_fields (CHR ''.'' # s) acc v dl = ipv4_fields s (acc @ [of_nat v]) 0 0"
  by (simp add: is_digit_def)

lemma itoa_digits: "c \<in> set (itoa n) \<Longrightarrow> is_digit c"
proof (induction n rule: itoa.induct)
  case (1 n)
  then show ?case
    by (subst (asm) itoa.simps) (auto simp: is_digit_def of_char_digit split: if_splits)
qed

lemma ipv4_fields_String: "ipv4_fields (ip_String [a, b, c, d]) [] 0 0 = Some [a, b, c, d]"
proof -
  have u: "unat x \<le> 255" for x :: byte using unsigned_less [of x, where 'a = nat] by simp
  have last: "ipv4_fields (itoa (unat d)) [a, b, c] 0 0 = Some [a, b, c, d]"
    using ipv4_octet [OF u, of d "[]" "[a, b, c]"] by auto
  have step: "ipv4_fields (itoa (unat x) @ CHR ''.'' # s) acc 0 0 = ipv4_fields s (acc @ [x]) 0 0"
    if "length acc < 3" for x :: byte and s acc
    using ipv4_octet [OF u, of x "CHR ''.'' # s" acc] ipv4_dot [OF _ that] by auto
  show ?thesis by (simp add: step last)
qed

text \<open>An IPv4 address printed by one side is parsed back to the same address by the other.\<close>

theorem ip_roundtrip: "ParseIP v6 (ip_String [a, b, c, d]) = v4_in_v6 [a, b, c, d]"
proof -
  have d: "\<not> is_digit (CHR ''.'')" "\<not> is_digit (CHR '':'')" "\<not> is_digit (CHR ''%'')"
    by (simp_all add: is_digit_def)
  have "List.find (\<lambda>c. c \<in> {CHR ''.'', CHR '':'', CHR ''%''}) (itoa n) = None" for n
    using d itoa_digits [of _ n] by (auto simp: find_None_iff)
  then have "List.find (\<lambda>c. c \<in> {CHR ''.'', CHR '':'', CHR ''%''}) (ip_String [a, b, c, d]) = Some (CHR ''.'')"
    by (simp add: find_append)
  then show ?thesis by (simp only: ParseIP_def option.case if_True ipv4_fields_String refl)
qed

section \<open>The shuffle\<close>

definition draws_below :: "(nat \<Rightarrow> nat \<Rightarrow> nat) \<Rightarrow> bool" where
  "draws_below rnd \<longleftrightarrow> (\<forall>k b. 0 < b \<longrightarrow> rnd k b < b)"

lemma mset_shuffle_loop:
  "draws_below rnd \<Longrightarrow> i < length ports \<Longrightarrow> mset (shuffle_loop rnd i ports) = mset ports"
proof (induction rnd i ports rule: shuffle_loop.induct)
  case (2 rnd i ports)
  define j where "j = nat (randomInt rnd (Suc i) 0 (int (Suc i) + 1))"
  have "rnd (Suc i) (Suc (Suc i)) < Suc (Suc i)" using 2(2) by (simp add: draws_below_def)
  moreover have "nat (int (Suc i) + 1 - 0) = Suc (Suc i)" by simp
  ultimately have "j \<le> Suc i" unfolding j_def randomInt_def by simp
  then have swap: "mset (ports[Suc i := ports ! j, j := ports ! Suc i]) = mset ports"
    using 2(3) mset_swap [of j ports "Suc i"] by simp
  have "mset (shuffle_loop rnd i (ports[Suc i := ports ! j, j := ports ! Suc i])) =
        mset (ports[Suc i := ports ! j, j := ports ! Suc i])"
    using 2(2,3) by (intro 2(1)) (auto simp: j_def)
  then show ?case by (simp only: shuffle_loop.simps Let_def j_def [symmetric] swap)
qed simp

lemma generateShuffledPorts_props:
  assumes "draws_below rnd"
  shows "set (generateShuffledPorts rnd) = {1..65535} \<and> distinct (generateShuffledPorts rnd) \<and>
    length (generateShuffledPorts rnd) = 65535"
proof -
  let ?ports = "map (\<lambda>i. int i + 1) [0..<65535]"
  have m: "mset (generateShuffledPorts rnd) = mset ?ports"
    unfolding generateShuffledPorts_def Let_def by (rule mset_shuffle_loop [OF assms]) simp
  have "set ?ports = {1..65535}"
  proof (rule set_eqI)
    fix x :: int
    show "x \<in> set ?ports \<longleftrightarrow> x \<in> {1..65535}"
      by (auto simp: image_iff intro!: bexI [of _ "nat (x - 1)"])
  qed
  moreover have "distinct ?ports" by (simp add: distinct_map inj_on_def)
  ultimately show ?thesis
    using m mset_eq_setD [OF m] mset_eq_imp_distinct_iff [OF m] mset_eq_length [OF m] by simp
qed

section \<open>The loops\<close>

text \<open>What both loops return: the value of the channel after one of the turns, and one batch of datagrams
  for each turn.\<close>

definition turn_reads :: "turn \<Rightarrow> (sock \<times> datagram list) list" where
  "turn_reads t = (case t of Turn reads _ \<Rightarrow> reads)"

definition turn_time :: "turn \<Rightarrow> duration" where
  "turn_time t = (case t of Turn _ dt \<Rightarrow> dt)"

lemma turn_sel [simp]: "turn_reads (Turn reads dt) = reads" "turn_time (Turn reads dt) = dt"
  by (simp_all add: turn_reads_def turn_time_def)

definition loop_ok :: "sock list \<Rightarrow> uint32 \<Rightarrow> sends \<Rightarrow> turn list \<Rightarrow> (sock \<times> udp_addr) option \<Rightarrow> sends \<Rightarrow> sends \<Rightarrow> bool" where
  "loop_ok arr tid out turns r sent0 sent \<longleftrightarrow>
     (\<forall>s a. r = Some (s, a) \<longrightarrow> s \<in> set arr \<and>
        (\<exists>t \<in> set turns. \<exists>ds. (s, ds) \<in> set (turn_reads t) \<and> listener tid ds = Some (Some a))) \<and>
     (\<exists>n. sent = sent0 @ concat (replicate n out))"

lemma loop_ok_done: "loop_ok arr tid out turns None sent sent"
  by (auto simp: loop_ok_def intro: exI [of _ 0])

lemma loop_ok_hit:
  "arrived arr tid (turn_reads t) = Some r \<Longrightarrow> loop_ok arr tid out (t # ts) (Some r) sent (sent @ out)"
  using arrived_sound [of arr tid "turn_reads t" "fst r" "snd r"]
  by (auto simp: loop_ok_def intro: exI [of _ 1])

lemma loop_ok_turn: "loop_ok arr tid out ts r (sent0 @ out) sent \<Longrightarrow> loop_ok arr tid out (t # ts) r sent0 sent"
  unfolding loop_ok_def
  by (metis append_assoc concat.simps(2) list.set_intros(2) replicate_Suc)

lemma sym_loop_ok:
  "sym_loop arr tid out deadline round roundEnd now turns sent0 = Some (r, t', sent) \<Longrightarrow>
   loop_ok arr tid out turns r sent0 sent"
proof (induction arr tid out deadline round roundEnd now turns sent0 rule: sym_loop.induct)
  case (1 arr tid out deadline round roundEnd now turns sent0)
  consider (turn) "now < roundEnd" "now < deadline"
    | (round) "\<not> (now < roundEnd \<and> now < deadline)" "Suc round < PunchMaxRounds \<and> now < deadline"
    | (stop) "\<not> (now < roundEnd \<and> now < deadline)" "\<not> (Suc round < PunchMaxRounds \<and> now < deadline)"
    by blast
  then show ?case
  proof cases
    case turn
    then obtain reads dt ts where T: "turns = Turn reads dt # ts"
      using "1.prems" by (cases turns; cases "hd turns") (auto simp: sym_loop.simps)
    show ?thesis
    proof (cases "arrived arr tid reads")
      case None
      then have "sym_loop arr tid out deadline round roundEnd (now + dt + PunchSendInterval) ts (sent0 @ out) = Some (r, t', sent)"
        using "1.prems" turn by (subst (asm) sym_loop.simps) (simp add: T)
      then show ?thesis using "1.IH"(1) [OF _ T refl] turn None by (auto intro: loop_ok_turn simp: T)
    next
      case (Some r')
      then show ?thesis using "1.prems" turn loop_ok_hit [of arr tid "Turn reads dt" r']
        by (subst (asm) sym_loop.simps) (auto simp: T)
    qed
  next
    case round
    then show ?thesis using "1.prems" "1.IH"(2) by (subst (asm) sym_loop.simps) auto
  next
    case stop
    then show ?thesis using "1.prems" by (subst (asm) sym_loop.simps) (auto simp: loop_ok_done)
  qed
qed

lemma until_deadline_ok:
  "until_deadline arr tid out deadline now turns sent0 = Some (r, t', sent) \<Longrightarrow>
   loop_ok arr tid out turns r sent0 sent"
proof (induction arr tid out deadline now turns sent0 rule: until_deadline.induct)
  case (2 arr tid out deadline now reads dt ts sent0)
  then show ?case
    using loop_ok_hit [of arr tid "Turn reads dt" _ out ts sent0]
    by (auto simp: loop_ok_done split: if_splits option.splits intro: loop_ok_turn)
qed (auto simp: loop_ok_done split: if_splits)



lemma until_deadline_returns:
  "\<forall>t \<in> set turns. 0 \<le> turn_time t \<Longrightarrow> deadline - now \<le> int (length turns) * PunchSendInterval \<Longrightarrow>
   until_deadline arr tid out deadline now turns sent \<noteq> None"
proof (induction arr tid out deadline now turns sent rule: until_deadline.induct)
  case (2 arr tid out deadline now reads dt ts sent)
  have "0 \<le> dt" "\<forall>t \<in> set ts. 0 \<le> turn_time t" using 2(2) by auto
  then have "deadline - (now + dt + PunchSendInterval) \<le> int (length ts) * PunchSendInterval"
    using 2(3) by (simp add: algebra_simps)
  then show ?case using 2(1) \<open>\<forall>t \<in> set ts. 0 \<le> turn_time t\<close> by (auto split: option.splits)
qed auto






section \<open>Sockets\<close>

text \<open>\<^verbatim>\<open>net.ListenUDP\<close> never returns a socket that is still open.\<close>

definition fresh_sockets :: "(nat \<Rightarrow> error + sock) \<Rightarrow> sock set \<Rightarrow> bool" where
  "fresh_sockets listen opened \<longleftrightarrow>
     (\<forall>i s. listen i = Inr s \<longrightarrow> s \<notin> opened \<and> (\<forall>j. j \<noteq> i \<longrightarrow> listen j \<noteq> Inr s))"

lemma new_sockets_spec:
  "new_sockets listen i n arr opened = (r, opened') \<Longrightarrow> fresh_sockets listen opened0 \<Longrightarrow>
   opened = opened0 \<union> set arr \<Longrightarrow> set arr \<inter> opened0 = {} \<Longrightarrow>
   (case r of Inl _ \<Rightarrow> opened' = opened0
    | Inr arr' \<Rightarrow> opened' = opened0 \<union> set arr' \<and> set arr' \<inter> opened0 = {} \<and> length arr' = length arr + n)"
proof (induction listen i n arr opened rule: new_sockets.induct)
  case (2 listen i n arr opened)
  show ?case
  proof (cases "listen i")
    case (Inl e)
    then show ?thesis using 2 by (auto simp: close_all_def)
  next
    case (Inr s)
    then have "s \<notin> opened0" using 2(3) by (auto simp: fresh_sockets_def)
    then show ?thesis using 2(1) [OF Inr] 2(2-5) Inr by (cases r) auto
  qed
qed auto

lemma NewUDPSocketArray_spec:
  assumes "NewUDPSocketArray listen n opened = (r, opened')" "fresh_sockets listen opened"
  shows "case r of Inl _ \<Rightarrow> opened' = opened
    | Inr arr \<Rightarrow> opened' = opened \<union> set arr \<and> set arr \<inter> opened = {} \<and> length arr = n"
  using new_sockets_spec [of listen 0 n "[]" opened r opened' opened] assms
  by (cases r) (auto simp: NewUDPSocketArray_def)

text \<open>The open sockets after a punch with result \<open>r\<close>.\<close>

definition sockets_after :: "error + PunchedSocket \<Rightarrow> sock set \<Rightarrow> sock set" where
  "sockets_after r opened = (case r of Inl _ \<Rightarrow> opened | Inr p \<Rightarrow> insert (pk_Conn p) opened)"

lemma sym_sockets:
  assumes "punchSymToCone E addr tid opened = Some (r, opened', sent)" "fresh_sockets (ne_listen E) opened"
  shows "opened' = sockets_after r opened"
proof (cases "NewUDPSocketArray (ne_listen E) SymToConeSocketCount opened")
  case (Pair q opened1)
  note spec = NewUDPSocketArray_spec [OF Pair assms(2)]
  show ?thesis
  proof (cases q)
    case (Inl e)
    then show ?thesis using assms(1) spec Pair by (auto simp: punchSymToCone_def sockets_after_def)
  next
    case (Inr arr)
    then show ?thesis using assms(1) spec Pair
      by (auto simp: punchSymToCone_def sockets_after_def punched_def closeSockets_def close_all_def Let_def
          dest!: sym_loop_ok split: option.splits) (auto simp: loop_ok_def)
  qed
qed

lemma easy_sockets:
  assumes "punchBothEasySym E addr mi pi p tid opened = Some (r, opened', sent)" "fresh_sockets (ne_listen E) opened"
  shows "opened' = sockets_after r opened"
proof (cases "NewUDPSocketArray (ne_listen E) BothEasySymSocketCount opened")
  case (Pair q opened1)
  note spec = NewUDPSocketArray_spec [OF Pair assms(2)]
  show ?thesis
  proof (cases q)
    case (Inl e)
    then show ?thesis using assms(1) spec Pair by (auto simp: punchBothEasySym_def sockets_after_def)
  next
    case (Inr arr)
    then show ?thesis using assms(1) spec Pair
      by (auto simp: punchBothEasySym_def sockets_after_def punched_def closeSockets_def close_all_def Let_def
          dest!: until_deadline_ok split: option.splits) (auto simp: loop_ok_def)
  qed
qed

lemma cone_sockets:
  "punchConeToCone E s addr tid opened = Some (r, opened', sent) \<Longrightarrow> s \<in> opened \<Longrightarrow> opened' = sockets_after r opened"
  "punchConeToSym E s ip tid opened = Some (r, opened', sent) \<Longrightarrow> s \<in> opened \<Longrightarrow> opened' = sockets_after r opened"
  by (auto simp: punchConeToCone_def punchConeToSym_def sockets_after_def punched_def Let_def
      split: option.splits prod.splits)

lemma punch_sockets_after:
  assumes "ExecutePunch E v6 myNAT peerNAT method tid punchSock opened = Some (r, opened', sent)"
    and "fresh_sockets (ne_listen E) opened"
    and "\<And>s. punchSock = Some s \<Longrightarrow> s \<in> opened"
  shows "opened' = sockets_after r opened"
  using assms sym_sockets easy_sockets cone_sockets
  by (auto simp: ExecutePunch_def Let_def sockets_after_def split: PunchMethod.splits option.splits if_splits)

text \<open>C21: a punch that fails leaves exactly the sockets open that were open before; one that succeeds
  leaves the punched socket open and closes all others that it has opened.\<close>

theorem punch_sockets:
  assumes "ExecutePunch E v6 myNAT peerNAT method tid punchSock opened = Some (r, opened', sent)"
    and "fresh_sockets (ne_listen E) opened"
    and "\<And>s. punchSock = Some s \<Longrightarrow> s \<in> opened"
  shows "opened' = (case r of Inl _ \<Rightarrow> opened | Inr p \<Rightarrow> insert (pk_Conn p) opened)"
  using punch_sockets_after [OF assms] by (simp add: sockets_after_def)

section \<open>Whom a punch returns\<close>

text \<open>\<open>ds\<close> was read from socket \<open>s\<close> during the punch.\<close>

definition was_read :: "net_env \<Rightarrow> sock \<Rightarrow> datagram list \<Rightarrow> bool" where
  "was_read E s ds \<longleftrightarrow> (\<exists>t \<in> set (ne_turns E). (s, ds) \<in> set (turn_reads t)) \<or>
     ds \<in> range (ne_heard E) \<or> ds \<in> range (ne_heard_end E)"

lemma heard_tid_sound: "heard_tid tid heard k = Some a \<Longrightarrow> listener tid (heard k) = Some (Some a)"
  by (auto simp: heard_tid_def split: option.splits)

lemma cone_round_found:
  "cone_round found took deadline nports n i k portIdx now sent = (Inl a, t', sent') \<Longrightarrow> \<exists>k'. found k' = Some a"
  by (induction found took deadline nports n i k portIdx now sent rule: cone_round.induct)
    (subst (asm) (2) cone_round.simps, auto simp: Let_def split: if_splits option.splits)

lemma cone_rounds_found:
  "cone_rounds found found_end took pause deadline packets nports rounds r k portIdx now sent = (Some a, t', sent') \<Longrightarrow>
   (\<exists>k'. found k' = Some a) \<or> (\<exists>r'. found_end r' = Some a)"
proof (induction rounds arbitrary: r k portIdx now sent)
  case (Suc rounds)
  then show ?case
    using cone_round_found [of found took deadline nports "packets r" 0 k portIdx now sent]
    by (auto split: if_splits prod.splits sum.splits option.splits)
qed simp

lemma sym_returns_reader:
  assumes "punchSymToCone E addr tid opened = Some (Inr p, opened', sent)"
  shows "\<exists>ds. was_read E (pk_Conn p) ds \<and> listener tid ds = Some (Some (pk_RemoteAddr p))"
  using assms
  by (auto simp: punchSymToCone_def punched_def Let_def dest!: sym_loop_ok split: prod.splits sum.splits option.splits)
    (auto simp: loop_ok_def was_read_def)

lemma easy_returns_reader:
  assumes "punchBothEasySym E addr mi pi q tid opened = Some (Inr p, opened', sent)"
  shows "\<exists>ds. was_read E (pk_Conn p) ds \<and> listener tid ds = Some (Some (pk_RemoteAddr p))"
  using assms
  by (auto simp: punchBothEasySym_def punched_def Let_def dest!: until_deadline_ok split: prod.splits sum.splits option.splits)
    (auto simp: loop_ok_def was_read_def)

lemma cone_returns_reader:
  assumes "punchConeToCone E s addr tid opened = Some (Inr p, opened', sent)"
  shows "\<exists>ds. was_read E (pk_Conn p) ds \<and> listener tid ds = Some (Some (pk_RemoteAddr p))"
  using assms
  by (auto simp: punchConeToCone_def punched_def Let_def dest!: until_deadline_ok split: prod.splits option.splits)
    (auto simp: loop_ok_def was_read_def)

lemma cone_sym_returns_reader:
  assumes "punchConeToSym E s ip tid opened = Some (Inr p, opened', sent)"
  shows "\<exists>ds. was_read E (pk_Conn p) ds \<and> listener tid ds = Some (Some (pk_RemoteAddr p))"
proof -
  obtain now idxs where
    "cone_rounds (heard_tid tid (ne_heard E)) (heard_tid tid (ne_heard_end E)) (ne_took E) (ne_pause E) (ne_now E + PunchTimeout)
      (cone_packets (ne_rnd E)) (length (generateShuffledPorts (ne_rnd E))) PunchMaxRounds 0 0 0 (ne_now E) [] =
      (Some (pk_RemoteAddr p), now, idxs)"
    using assms by (auto simp: punchConeToSym_def punched_def Let_def split: prod.splits option.splits)
  from cone_rounds_found [OF this] show ?thesis
    by (auto simp: was_read_def dest!: heard_tid_sound)
qed

text \<open>C23: the remote address of a punched socket is the sender of a datagram that was read during the
  punch and carries the magic number and this transaction's identifier.\<close>

theorem punch_returns_peer:
  assumes "ExecutePunch E v6 myNAT peerNAT method tid punchSock opened = Some (Inr p, opened', sent)"
  shows "\<exists>ds buf. was_read E (pk_Conn p) ds \<and> Datagram buf (pk_RemoteAddr p) \<in> set ds \<and>
    take 8 buf = PunchMagic @ put_uint32 tid"
proof -
  have "\<exists>ds. was_read E (pk_Conn p) ds \<and> listener tid ds = Some (Some (pk_RemoteAddr p))"
    using assms sym_returns_reader easy_returns_reader cone_returns_reader cone_sym_returns_reader
    by (auto simp: ExecutePunch_def Let_def split: PunchMethod.splits option.splits if_splits)
  then show ?thesis using listener_sound [of tid] by (fastforce simp: punch_datagram_def)
qed

section \<open>What a punch sends\<close>

lemma cone_round_sent:
  "cone_round found took deadline nports n i k portIdx now sent = (q, t', sent') \<Longrightarrow> i \<le> n \<Longrightarrow>
   portIdx + (n - i) \<le> nports \<Longrightarrow> sent = [0..<portIdx] \<Longrightarrow>
   \<exists>m \<le> n - i. sent' = [0..<portIdx + m] \<and> (\<forall>k' p'. q = Inr (k', p') \<longrightarrow> p' = portIdx + m)"
proof (induction found took deadline nports n i k portIdx now sent rule: cone_round.induct)
  case (1 found took deadline nports n i k portIdx now sent)
  show ?case
  proof (cases "i < n \<and> now < deadline")
    case False
    then have "q = Inr (k, portIdx) \<and> sent' = sent" using "1.prems"(1) by (subst (asm) cone_round.simps) auto
    then show ?thesis using "1.prems"(4) by (intro exI [of _ 0]) simp
  next
    case True
    then have p: "\<not> nports \<le> portIdx" using "1.prems"(3) by linarith
    have s: "sent @ [portIdx] = [0..<Suc portIdx]" using "1.prems"(4) by simp
    have "q = Inl a \<Longrightarrow> sent' = sent @ [portIdx] \<Longrightarrow> ?thesis" for a
      using True s by (intro exI [of _ 1]) auto
    moreover have ?thesis
      if R: "cone_round found took deadline nports n (Suc i) (Suc k) (Suc portIdx) (now + took k) (sent @ [portIdx]) = (q, t', sent')"
        "i mod 100 = 99 \<Longrightarrow> found (Suc k) = None"
    proof -
      have "\<exists>m\<le>n - Suc i. sent' = [0..<Suc portIdx + m] \<and> (\<forall>k' p'. q = Inr (k', p') \<longrightarrow> p' = Suc portIdx + m)"
        using True p R "1.prems"(2,3) s "1.IH" by (cases "i mod 100 = 99") auto
      then obtain m where "m \<le> n - Suc i" "sent' = [0..<Suc portIdx + m]"
        "\<forall>k' p'. q = Inr (k', p') \<longrightarrow> p' = Suc portIdx + m" by blast
      then show ?thesis using True by (intro exI [of _ "Suc m"]) auto
    qed
    ultimately show ?thesis
      using "1.prems"(1) True p by (subst (asm) cone_round.simps) (auto simp: Let_def split: if_splits option.splits)
  qed
qed

lemma cone_rounds_sent:
  assumes "\<And>r. packets r \<le> B"
  shows "cone_rounds found found_end took pause deadline packets nports rounds r k portIdx now sent = (q, t', sent') \<Longrightarrow>
    portIdx + B * rounds \<le> nports \<Longrightarrow> sent = [0..<portIdx] \<Longrightarrow>
    \<exists>m. m \<le> portIdx + B * rounds \<and> sent' = [0..<m]"
proof (induction rounds arbitrary: r k portIdx now sent)
  case (Suc rounds)
  obtain q1 t1 sent1 where R: "cone_round found took deadline nports (packets r) 0 k portIdx now sent = (q1, t1, sent1)"
    by (cases "cone_round found took deadline nports (packets r) 0 k portIdx now sent")
  have le: "portIdx + (packets r - 0) \<le> nports" using Suc.prems(2) assms [of r] by simp
  obtain m where m: "m \<le> packets r" "sent1 = [0..<portIdx + m]" "\<forall>k' p'. q1 = Inr (k', p') \<longrightarrow> p' = portIdx + m"
    using cone_round_sent [OF R _ le Suc.prems(3)] by auto
  have mB: "m \<le> B" using m(1) assms [of r] by simp
  show ?case
  proof (cases "now < deadline")
    case False
    then show ?thesis using Suc.prems by (intro exI [of _ portIdx]) auto
  next
    case L: True
    show ?thesis
    proof (cases q1)
      case (Inl a)
      then show ?thesis using Suc.prems(1) L R m mB by (intro exI [of _ "portIdx + m"]) auto
    next
      case (Inr kp)
      then obtain k' where kp: "kp = (k', portIdx + m)" using m(3) by (cases kp) auto
      show ?thesis
      proof (cases "found_end r")
        case None
        then have "cone_rounds found found_end took pause deadline packets nports rounds (Suc r) k' (portIdx + m)
            (t1 + pause r + second) sent1 = (q, t', sent')"
          using Suc.prems(1) L R Inr kp by simp
        moreover have "portIdx + m + B * rounds \<le> nports" using Suc.prems(2) mB by simp
        ultimately obtain l where "l \<le> portIdx + m + B * rounds" "sent' = [0..<l]" using Suc.IH m(2) by blast
        then show ?thesis using mB by (intro exI [of _ l]) simp
      next
        case (Some a)
        then show ?thesis using Suc.prems(1) L R Inr kp m(2) mB by (intro exI [of _ "portIdx + m"]) auto
      qed
    qed
  qed
qed auto

lemma cone_packets_bound: "draws_below rnd \<Longrightarrow> cone_packets rnd r \<le> 799"
proof -
  assume "draws_below rnd"
  then have "rnd (65535 + r) 200 < 200" by (simp add: draws_below_def)
  then show ?thesis by (simp add: cone_packets_def randomInt_def BirthdayMinPackets_def BirthdayMaxPackets_def)
qed

lemma generateShuffledPorts_nth:
  assumes "draws_below rnd" "i < 65535"
  shows "generateShuffledPorts rnd ! i \<in> {1..65535}"
  using generateShuffledPorts_props [OF assms(1)] nth_mem [of i "generateShuffledPorts rnd"] assms(2) by simp

text \<open>The cone side of the birthday attack sends its packets to at most 3995 pairwise different
  ports between 1 and 65535 of the peer, all from the punch socket and carrying the transaction, and
  then, when the peer was heard, only confirmations to the address heard.\<close>

theorem cone_side_sends:
  assumes "punchConeToSym E s ip tid opened = Some (r, opened', sent, t)" and "draws_below (ne_rnd E)"
  shows "\<exists>ports n.
    sent = map (\<lambda>p. (s, MakePunchPacket tid, \<lparr>ua_IP = ip, ua_Port = p\<rparr>)) ports @
      (case r of Inl _ \<Rightarrow> []
       | Inr p \<Rightarrow> concat (replicate n (WriteTo s (MakePunchPacket tid) (pk_RemoteAddr p)))) \<and>
    distinct ports \<and> length ports \<le> 3995 \<and> set ports \<subseteq> {1..65535}"
proof -
  let ?g = "generateShuffledPorts (ne_rnd E)"
  let ?rounds = "cone_rounds (heard_tid tid (ne_heard E)) (heard_tid tid (ne_heard_end E)) (ne_took E) (ne_pause E)
      (ne_now E + PunchTimeout) (cone_packets (ne_rnd E)) (length ?g) PunchMaxRounds 0 0 0 (ne_now E) []"
  obtain q now idxs where R: "?rounds = (q, now, idxs)" by (cases ?rounds)
  note g = generateShuffledPorts_props [OF assms(2)]
  obtain m where m: "m \<le> 3995" "idxs = [0..<m]"
    using cone_rounds_sent [OF cone_packets_bound [OF assms(2)] R] g by (auto simp: PunchMaxRounds_def)
  let ?ports = "map (\<lambda>i. ?g ! i) idxs"
  have ports: "?ports = take m ?g" using g m by (intro nth_equalityI) auto
  have valid: "port_valid (?g ! i)" if "i \<in> set idxs" for i
    using generateShuffledPorts_nth [OF assms(2), of i] that m by (auto simp: port_valid_def)
  have "concat (map (\<lambda>i. WriteTo s (MakePunchPacket tid) \<lparr>ua_IP = ip, ua_Port = ?g ! i\<rparr>) idxs) =
      concat (map (\<lambda>i. [(s, MakePunchPacket tid, \<lparr>ua_IP = ip, ua_Port = ?g ! i\<rparr>)]) idxs)"
    using valid by (intro arg_cong [of _ _ concat] map_cong) (auto simp: WriteTo_def)
  also have "\<dots> = map (\<lambda>p. (s, MakePunchPacket tid, \<lparr>ua_IP = ip, ua_Port = p\<rparr>)) ?ports"
    by (simp add: concat_map_singleton)
  finally have out: "concat (map (\<lambda>i. WriteTo s (MakePunchPacket tid) \<lparr>ua_IP = ip, ua_Port = ?g ! i\<rparr>) idxs) =
      map (\<lambda>p. (s, MakePunchPacket tid, \<lparr>ua_IP = ip, ua_Port = p\<rparr>)) ?ports" .
  have "\<exists>n. sent = map (\<lambda>p. (s, MakePunchPacket tid, \<lparr>ua_IP = ip, ua_Port = p\<rparr>)) ?ports @
      (case r of Inl _ \<Rightarrow> []
       | Inr p \<Rightarrow> concat (replicate n (WriteTo s (MakePunchPacket tid) (pk_RemoteAddr p))))"
    using assms(1) R out by (cases q) (auto simp: punchConeToSym_def Let_def punched_def)
  moreover have "distinct ?ports" "length ?ports \<le> 3995" "set ?ports \<subseteq> {1..65535}"
    unfolding ports using g m set_take_subset [of m ?g] by (auto simp: distinct_take)
  ultimately show ?thesis by blast
qed

lemma loop_sends:
  "loop_ok arr tid out turns r [] sent \<Longrightarrow> set sent \<subseteq> set out"
  by (auto simp: loop_ok_def)

text \<open>A punch for two easily predictable symmetric NATs sends nothing when the predicted port does not
  fit into 16 bits: the peer's port is near the end of the range.\<close>

theorem predicted_port_out_of_range:
  assumes "punchBothEasySym E peerAddr mi pi port tid opened = Some (r, opened', sent, t)"
    and "pi \<and> 65515 < ua_Port peerAddr \<or> \<not> pi \<and> ua_Port peerAddr < 20"
  shows "sent = []"
proof -
  have "SendAll arr pkt \<lparr>ua_IP = ip, ua_Port = predictedPeerPort peerAddr pi\<rparr> = []" for arr pkt ip
    using assms(2) by (auto simp: SendAll_def WriteTo_def port_valid_def predictedPeerPort_def EasySymPortOffset_def)
  then show ?thesis
    using assms(1) by (auto simp: punchBothEasySym_def Let_def dest!: until_deadline_ok loop_sends
        split: prod.splits sum.splits option.splits)
qed


section \<open>A punch ends\<close>







lemma sym_loop_round:
  "now + int j * PunchSendInterval \<le> deadline \<Longrightarrow>
   sym_loop arr tid out deadline round (now + int j * PunchSendInterval) now
     (replicate (j + k) (Turn [] 0)) sent =
   sym_loop arr tid out deadline round (now + int j * PunchSendInterval) (now + int j * PunchSendInterval)
     (replicate k (Turn [] 0)) (sent @ concat (replicate j out))"
proof (induction j arbitrary: now sent)
  case (Suc j)
  have S: "0 < PunchSendInterval" by (simp add: PunchSendInterval_def)
  have lt: "now < now + int (Suc j) * PunchSendInterval" using S by (simp add: zero_less_mult_iff)
  have eq: "now + int (Suc j) * PunchSendInterval = (now + PunchSendInterval) + int j * PunchSendInterval"
    by (simp add: algebra_simps)
  have "now < deadline" using Suc.prems lt by linarith
  then have "sym_loop arr tid out deadline round (now + int (Suc j) * PunchSendInterval) now
     (replicate (Suc j + k) (Turn [] 0)) sent =
     sym_loop arr tid out deadline round (now + int (Suc j) * PunchSendInterval) (now + PunchSendInterval)
     (replicate (j + k) (Turn [] 0)) (sent @ out)"
    using lt by (subst sym_loop.simps) simp
  also have "\<dots> = sym_loop arr tid out deadline round (now + int (Suc j) * PunchSendInterval)
     (now + int (Suc j) * PunchSendInterval)
     (replicate k (Turn [] 0)) ((sent @ out) @ concat (replicate j out))"
    unfolding eq by (rule Suc.IH) (use Suc.prems eq in simp)
  finally show ?case by simp
qed simp

lemma sym_loop_rounds:
  "round < 5 \<Longrightarrow> now + int (5 - round) * PunchRoundDuration \<le> deadline \<Longrightarrow>
   sym_loop arr tid out deadline round (now + PunchRoundDuration) now
     (replicate (50 * (5 - round) + k) (Turn [] 0)) sent =
   Some (None, now + int (5 - round) * PunchRoundDuration, sent @ concat (replicate (50 * (5 - round)) out))"
proof (induction "5 - round" arbitrary: round now sent)
  case (Suc r)
  have D: "PunchRoundDuration = int 50 * PunchSendInterval" "0 < PunchRoundDuration"
    by (simp_all add: PunchRoundDuration_def PunchSendInterval_def)
  have len: "50 * (5 - round) + k = 50 + (50 * r + k)" using Suc.hyps(2) by simp
  have n: "now + int (5 - round) * PunchRoundDuration = now + PunchRoundDuration + int r * PunchRoundDuration"
    using Suc.hyps(2) by (simp flip: Suc.hyps(2) add: algebra_simps)
  have le: "now + PunchRoundDuration \<le> deadline"
    using Suc.prems(2) n D(2) by (smt (verit) mult_nonneg_nonneg of_nat_0_le_iff)
  have step: "sym_loop arr tid out deadline round (now + PunchRoundDuration) now
      (replicate (50 * (5 - round) + k) (Turn [] 0)) sent =
    sym_loop arr tid out deadline round (now + PunchRoundDuration) (now + PunchRoundDuration)
      (replicate (50 * r + k) (Turn [] 0)) (sent @ concat (replicate 50 out))"
    unfolding len D(1) by (rule sym_loop_round) (use le D in simp)
  show ?case
  proof (cases "r = 0")
    case True
    then have "round = 4" using Suc.hyps(2) Suc.prems by simp
    then show ?thesis unfolding step n by (subst sym_loop.simps) (simp add: True PunchMaxRounds_def)
  next
    case False
    then have r: "Suc round < 5" "r = 5 - Suc round" using Suc.hyps(2) by auto
    have "now + PunchRoundDuration < deadline"
      using Suc.prems(2) n D(2) False by (smt (verit) mult_pos_pos of_nat_0_less_iff not_gr_zero)
    then have "sym_loop arr tid out deadline round (now + PunchRoundDuration) (now + PunchRoundDuration)
        (replicate (50 * r + k) (Turn [] 0)) (sent @ concat (replicate 50 out)) =
      sym_loop arr tid out deadline (Suc round) (now + PunchRoundDuration + PunchRoundDuration) (now + PunchRoundDuration)
        (replicate (50 * (5 - Suc round) + k) (Turn [] 0)) (sent @ concat (replicate 50 out))"
      using r by (subst sym_loop.simps) (simp add: PunchMaxRounds_def)
    also have "\<dots> = Some (None, now + PunchRoundDuration + int (5 - Suc round) * PunchRoundDuration,
        (sent @ concat (replicate 50 out)) @ concat (replicate (50 * (5 - Suc round)) out))"
      by (rule Suc.hyps(1) [OF r(2) r(1)]) (use Suc.prems(2) n r(2) in simp)
    also have "\<dots> = Some (None, now + int (5 - round) * PunchRoundDuration, sent @ concat (replicate (50 * (5 - round)) out))"
    proof -
      have "50 * (5 - round) = 50 + 50 * (5 - Suc round)" using r(1) by simp
      then have "concat (replicate (50 * (5 - round)) out) =
          concat (replicate 50 out) @ concat (replicate (50 * (5 - Suc round)) out)"
        by (simp only: replicate_add concat_append)
      then show ?thesis unfolding n r(2) by simp
    qed
    finally show ?thesis unfolding step .
  qed
qed simp


text \<open>A symmetric side that hears nothing gives up after five rounds of five seconds, although its
  error says that it has waited for the punch timeout of thirty seconds.\<close>

theorem sym_gives_up_early:
  assumes "NewUDPSocketArray (ne_listen E) SymToConeSocketCount opened = (Inr arr, opened1)"
    and "ne_turns E = replicate (250 + k) (Turn [] 0)"
  shows "punchSymToCone E serverAddr tid opened =
      Some (Inl (Errorf ''punch timeout after %v'' [FInt (30 * second)]), close_all arr opened1,
        concat (replicate 250 (SendAll arr (MakePunchPacket tid) serverAddr)), ne_now E + 25 * second)"
proof -
  have loop: "sym_loop arr tid o' (u + PunchTimeout) 0 (u + PunchRoundDuration) u (ne_turns E) [] =
      Some (None, u + 25 * second, concat (replicate 250 o'))" for o' u
    using sym_loop_rounds [of 0 u "u + PunchTimeout" arr tid o' k "[]"]
    by (simp add: assms(2) PunchTimeout_def PunchRoundDuration_def)
  show ?thesis by (simp add: loop punchSymToCone_def assms(1) Let_def) (simp add: PunchTimeout_def)
qed

section \<open>Witnesses\<close>

definition example_peer :: udp_addr where
  "example_peer = \<lparr>ua_IP = v4_in_v6 [203, 0, 113, 7], ua_Port = 4000\<rparr>"

definition example_env :: "turn list \<Rightarrow> net_env" where
  "example_env turns = \<lparr>ne_listen = (\<lambda>i. Inr (100 + i)), ne_local = (\<lambda>s. \<lparr>ua_IP = [], ua_Port = int s\<rparr>), ne_now = 0,
     ne_turns = turns, ne_heard = (\<lambda>_. []), ne_heard_end = (\<lambda>_. []), ne_took = (\<lambda>_. 0), ne_pause = (\<lambda>_. 0),
     ne_rnd = (\<lambda>_ _. 0), ne_confirm = replicate 20 0\<rparr>"

definition example_nat :: "NATType \<Rightarrow> NATInfo" where
  "example_nat t = \<lparr>nat_Type = t, PublicIP = ''203.0.113.7'', PublicPort = 4000\<rparr>"

definition example_reply :: turn where
  "example_reply = Turn [(1, [ReadTimeout, Datagram (MakePunchPacket 7) example_peer])] 0"

lemma example_fresh: "fresh_sockets (ne_listen (example_env ts)) {1}"
  by (auto simp: fresh_sockets_def example_env_def)

lemma example_listener: "listener 7 [ReadTimeout, Datagram (MakePunchPacket 7) a] = Some (Some a)"
proof -
  have "take 256 (MakePunchPacket 7) = PunchMagic @ put_uint32 7 @ replicate 56 0"
    by (simp add: MakePunchPacket_eq PunchMagic_def)
  then have "ParsePunchPacket (take 256 (MakePunchPacket 7)) = Some (7, True)"
    using ParsePunchPacket_iff by blast
  then show ?thesis by simp
qed

lemma example_punch:
  "\<exists>sent. ExecutePunch (example_env [example_reply]) v6 (example_nat NATCone) (example_nat NATCone) PunchConeToCone 7 (Some 1) {1} =
     Some (Inr (punched (example_env [example_reply]) 1 example_peer), {1}, sent)"
  using example_listener [of example_peer]
  by (simp add: ExecutePunch_def punchConeToCone_def example_env_def example_reply_def Let_def PunchTimeout_def
      del: listener.simps)

definition no_v6 :: "string \<Rightarrow> bytes" where "no_v6 s = []"

theorem punch_sockets_witness:
  "\<exists>sent opened'. ExecutePunch (example_env [example_reply]) no_v6 (example_nat NATCone) (example_nat NATCone)
     PunchConeToCone 7 (Some 1) {1} = Some (Inr (punched (example_env [example_reply]) 1 example_peer), opened', sent) \<and>
   opened' = insert (pk_Conn (punched (example_env [example_reply]) 1 example_peer)) {1}"
proof -
  obtain sent where X: "ExecutePunch (example_env [example_reply]) no_v6 (example_nat NATCone) (example_nat NATCone)
     PunchConeToCone 7 (Some 1) {1} = Some (Inr (punched (example_env [example_reply]) 1 example_peer), {1}, sent)"
    using example_punch by blast
  show ?thesis using X punch_sockets [OF X example_fresh] by auto
qed

theorem punch_returns_peer_witness:
  "\<exists>ds buf. was_read (example_env [example_reply]) 1 ds \<and> Datagram buf example_peer \<in> set ds \<and>
    take 8 buf = PunchMagic @ put_uint32 7"
proof -
  obtain sent where X: "ExecutePunch (example_env [example_reply]) no_v6 (example_nat NATCone) (example_nat NATCone)
     PunchConeToCone 7 (Some 1) {1} = Some (Inr (punched (example_env [example_reply]) 1 example_peer), {1}, sent)"
    using example_punch by blast
  show ?thesis using punch_returns_peer [OF X] by (simp add: punched_def)
qed

lemma example_cone: "\<exists>sent t. punchConeToSym (example_env []) 1 [] 7 {1} =
    Some (Inl (Errorf ''server punch timeout'' []), {1}, sent, t)"
proof -
  have "cone_rounds (heard_tid 7 (\<lambda>_. [])) (heard_tid 7 (\<lambda>_. [])) took pause dl packets nports n r k p now s \<noteq> (Some a, t, sent)"
    for took pause dl packets nports n r k p now s t sent a
    using cone_rounds_found [of "heard_tid 7 (\<lambda>_. [])" "heard_tid 7 (\<lambda>_. [])" took pause dl packets nports n r k p now s a t sent]
    by (auto simp: heard_tid_def)
  then show ?thesis
    by (simp add: punchConeToSym_def example_env_def Let_def split: prod.splits option.splits)
qed

theorem cone_side_sends_witness:
  "\<exists>sent t ports. punchConeToSym (example_env []) 1 [] 7 {1} = Some (Inl (Errorf ''server punch timeout'' []), {1}, sent, t) \<and>
    sent = map (\<lambda>p. (1, MakePunchPacket 7, \<lparr>ua_IP = [], ua_Port = p\<rparr>)) ports \<and>
    distinct ports \<and> length ports \<le> 3995 \<and> set ports \<subseteq> {1..65535}"
proof -
  obtain sent t where X: "punchConeToSym (example_env []) 1 [] 7 {1} =
    Some (Inl (Errorf ''server punch timeout'' []), {1}, sent, t)" using example_cone by blast
  have "draws_below (ne_rnd (example_env []))" by (simp add: draws_below_def example_env_def)
  from cone_side_sends [OF X this] show ?thesis using X by auto
qed

theorem predicted_port_out_of_range_witness:
  "punchBothEasySym (example_env (replicate 300 (Turn [] 0))) (example_peer\<lparr>ua_Port := 65530\<rparr>)
     True True 0 7 {1} \<noteq> None \<and>
   (\<forall>r opened' sent t. punchBothEasySym (example_env (replicate 300 (Turn [] 0)))
      (example_peer\<lparr>ua_Port := 65530\<rparr>) True True 0 7 {1} = Some (r, opened', sent, t) \<longrightarrow> sent = [])"
proof -
  let ?E = "example_env (replicate 300 (Turn [] 0))"
  let ?N = "\<lparr>nat_Type = NATSymmetricEasyInc, PublicIP = [], PublicPort = 65530\<rparr>"
  have until: "until_deadline arr tid out (0 + PunchTimeout) 0 (replicate 300 (Turn [] 0)) sent \<noteq> None"
    for arr tid out sent
    by (rule until_deadline_returns) (simp_all add: PunchTimeout_def PunchSendInterval_def)
  have "punchBothEasySym ?E (example_peer\<lparr>ua_Port := 65530\<rparr>) True True 0 7 {1} \<noteq> None"
    using until
    by (auto simp: punchBothEasySym_def example_env_def Let_def simp del: not_None_eq split: prod.splits sum.splits)
  then show ?thesis using predicted_port_out_of_range [of ?E "example_peer\<lparr>ua_Port := 65530\<rparr>" True True 0 7 "{1}"] by auto
qed


theorem sym_gives_up_early_witness:
  "\<exists>arr opened1 sent. NewUDPSocketArray (ne_listen (example_env (replicate 251 (Turn [] 0)))) SymToConeSocketCount {1} = (Inr arr, opened1) \<and>
   punchSymToCone (example_env (replicate 251 (Turn [] 0))) example_peer 7 {1} =
     Some (Inl (Errorf ''punch timeout after %v'' [FInt (30 * second)]), close_all arr opened1, sent, 25 * second)"
proof -
  let ?E = "example_env (replicate 251 (Turn [] 0))"
  have total: "\<exists>arr' o'. new_sockets (\<lambda>i. Inr (100 + i)) i n arr opened = (Inr arr', o')" for i n arr opened
    by (induction n arbitrary: i arr opened) auto
  obtain arr opened1 where X: "NewUDPSocketArray (ne_listen ?E) SymToConeSocketCount {1} = (Inr arr, opened1)"
    using total [of 0 SymToConeSocketCount "[]" "{1}"] by (auto simp: NewUDPSocketArray_def example_env_def)
  have "ne_turns ?E = replicate (250 + 1) (Turn [] 0)" by (simp add: example_env_def)
  moreover have "ne_now ?E = 0" by (simp add: example_env_def)
  ultimately show ?thesis using sym_gives_up_early [OF X, of 1 example_peer 7] X by auto
qed

end
