(* ===== verification/F2P_Signaling.thy ===== *)
theory F2P_Signaling
  imports F2P_Punch F2P_IO F2P_Version
begin

text \<open>
  \<^verbatim>\<open>internal/holepunch/signaling.go\<close>: the length-prefixed JSON messages of the signaling stream and the
  two sides of the exchange that prepares a hole punch. \<^verbatim>\<open>encoding/json\<close> is the parameter \<open>json_lib\<close>; a
  property names the messages for which decoding has to undo encoding. The text of an error is the
  parameter \<open>errText\<close>, since an error is kept as its format and arguments. The lemmas show that a message is
  read back over every fragmentation of the stream, that a declared length above 64 KB is refused,
  that both sides of a successful exchange agree on the method, the transaction, the token and the
  addresses, and that a refused client learns the reason.
\<close>

section \<open>Messages\<close>

record SignalMsg =
  sg_NATInfo :: "NATInfo option"
  sg_PunchReady :: bool
  sg_Method :: int
  sg_TID :: uint32
  sg_Success :: bool
  sg_SessionToken :: bytes
  sg_Error :: string

definition zero_signal :: SignalMsg where
  "zero_signal = \<lparr>sg_NATInfo = None, sg_PunchReady = False, sg_Method = 0, sg_TID = 0, sg_Success = False,
     sg_SessionToken = [], sg_Error = []\<rparr>"

record json_lib =
  json_Marshal :: "SignalMsg \<Rightarrow> error + bytes"
  json_Unmarshal :: "bytes \<Rightarrow> error + SignalMsg"

definition writeSignalMsg :: "json_lib \<Rightarrow> 's writer \<Rightarrow> 's \<Rightarrow> SignalMsg \<Rightarrow> (error option \<times> 's) option" where
  "writeSignalMsg J wr s msg =
     (case json_Marshal J msg of
        Inl e \<Rightarrow> Some (Some (Errorf ''marshal: %w'' [FWrap e]), s)
      | Inr data \<Rightarrow>
          let lenBuf = put_uint32 (of_nat (length data))
          in do {
            r \<leftarrow> wr s lenBuf;
            case r of
              ((_, Some e), s1) \<Rightarrow> Some (Some (Errorf ''write length: %w'' [FWrap e]), s1)
            | ((_, None), s1) \<Rightarrow> do {
                r2 \<leftarrow> wr s1 data;
                case r2 of
                  ((_, Some e), s2) \<Rightarrow> Some (Some (Errorf ''write payload: %w'' [FWrap e]), s2)
                | ((_, None), s2) \<Rightarrow> Some (None, s2) } })"

text \<open>The outer option is a call that does not return, as in the stream interfaces; the conversion of
  the four bytes read cannot fail.\<close>

definition readSignalMsg :: "json_lib \<Rightarrow> 's reader \<Rightarrow> 's \<Rightarrow> ((error + SignalMsg) \<times> 's) option" where
  "readSignalMsg J rd s = do {
     r \<leftarrow> ReadFull rd s 4;
     case r of
       ((_, Some e), s1) \<Rightarrow> Some (Inl (Errorf ''read length: %w'' [FWrap e]), s1)
     | ((lenBuf, None), s1) \<Rightarrow>
         (case get_uint32 lenBuf of
            None \<Rightarrow> None
          | Some msgLen \<Rightarrow>
              if msgLen > 2 ^ 16 then Some (Inl (Errorf ''message too large: %d'' [FInt (uint msgLen)]), s1)
              else do {
                r2 \<leftarrow> ReadFull rd s1 (unat msgLen);
                case r2 of
                  ((_, Some e), s2) \<Rightarrow> Some (Inl (Errorf ''read payload: %w'' [FWrap e]), s2)
                | ((data, None), s2) \<Rightarrow>
                    (case json_Unmarshal J data of
                       Inl e \<Rightarrow> Some (Inl (Errorf ''unmarshal: %w'' [FWrap e]), s2)
                     | Inr msg \<Rightarrow> Some (Inr msg, s2)) }) }"

text \<open>\<^verbatim>\<open>PunchMethod(resp.Method)\<close>.\<close>

definition method_of_int :: "int \<Rightarrow> PunchMethod" where
  "method_of_int n =
     (if n = 0 then PunchNone else if n = 1 then PunchConeToCone else if n = 2 then PunchSymToCone
      else if n = 3 then PunchEasySymToEasySym else PunchMethod_other n)"

section \<open>The client\<close>

text \<open>\<open>cl\<close> closes the stream. \<open>stream\<close> is the result of \<^verbatim>\<open>NewStream\<close> for the signaling protocol, \<open>tidBytes\<close> that of
  the random generator. The state is that of the stream when the function returns, \<open>None\<close> if it was
  not opened.\<close>

definition ClientSignaling ::
    "json_lib \<Rightarrow> 's reader \<Rightarrow> 's writer \<Rightarrow> ('s \<Rightarrow> 's) \<Rightarrow> (string \<Rightarrow> error + 's) \<Rightarrow> error + bytes \<Rightarrow> NATInfo \<Rightarrow> string \<Rightarrow>
     ((error + (NATInfo \<times> bytes \<times> PunchMethod \<times> uint32)) \<times> 's option) option" where
  "ClientSignaling J rd wr cl newStream tidBytes myNAT baseProtocol =
     (case newStream (SignalingProtocol baseProtocol) of
        Inl e \<Rightarrow> Some (Inl (Errorf ''open signaling stream: %w'' [FWrap e]), None)
      | Inr s0 \<Rightarrow>
        map_option (\<lambda>(r, s). (r, Some (cl s)))
        (case tidBytes of
           Inl e \<Rightarrow> Some (Inl (Errorf ''generate tid: %w'' [FWrap e]), s0)
         | Inr tb \<Rightarrow>
           (case get_uint32 tb of
              None \<Rightarrow> None
            | Some tid \<Rightarrow> do {
                w \<leftarrow> writeSignalMsg J wr s0 (zero_signal\<lparr>sg_NATInfo := Some myNAT, sg_TID := tid\<rparr>);
                case w of
                  (Some e, s1) \<Rightarrow> Some (Inl (Errorf ''send NAT info: %w'' [FWrap e]), s1)
                | (None, s1) \<Rightarrow> do {
                    q \<leftarrow> readSignalMsg J rd s1;
                    case q of
                      (Inl e, s2) \<Rightarrow> Some (Inl (Errorf ''read server response: %w'' [FWrap e]), s2)
                    | (Inr resp, s2) \<Rightarrow>
                        if sg_Error resp \<noteq> [] then Some (Inl (Errorf ''server error: %s'' [FStr (sg_Error resp)]), s2)
                        else (case sg_NATInfo resp of
                            None \<Rightarrow> Some (Inl (Errorf ''server did not send NAT info'' []), s2)
                          | Some serverNAT \<Rightarrow>
                              if sg_SessionToken resp = []
                              then Some (Inl (Errorf ''server did not send session token'' []), s2)
                              else do {
                                q2 \<leftarrow> readSignalMsg J rd s2;
                                case q2 of
                                  (Inl e, s3) \<Rightarrow> Some (Inl (Errorf ''read ready signal: %w'' [FWrap e]), s3)
                                | (Inr ready, s3) \<Rightarrow>
                                    if \<not> sg_PunchReady ready
                                    then Some (Inl (Errorf ''server not ready: %s'' [FStr (sg_Error ready)]), s3)
                                    else Some (Inr (serverNAT, sg_SessionToken resp,
                                                    method_of_int (sg_Method resp), tid), s3) }) } })))"

section \<open>The server\<close>

text \<open>What \<^verbatim>\<open>onPunchReady\<close> is called with: punch socket, own NAT information, the client's, method and
  transaction.\<close>

type_synonym punch_args = "sock option \<times> NATInfo \<times> NATInfo \<times> PunchMethod \<times> uint32"

definition no_method_text :: "NATType \<Rightarrow> NATType \<Rightarrow> string" where
  "no_method_text c s =
     ''no viable punch method: client='' @ NATType_String c @ '' server='' @ NATType_String s"

definition close_opt :: "sock option \<Rightarrow> sock set \<Rightarrow> sock set" where
  "close_opt so opened = (case so of None \<Rightarrow> opened | Some s \<Rightarrow> close_all [s] opened)"

text \<open>The server's NAT information for this session, with the punch socket of a cone server;
  \<open>create\<close> is \<^verbatim>\<open>CreatePunchSocket\<close> on the STUN server.\<close>

definition session_nat ::
    "(sock set \<Rightarrow> (error + (sock \<times> NATInfo)) \<times> sock set) \<Rightarrow> NATType \<Rightarrow> NATInfo \<Rightarrow> sock set \<Rightarrow>
     (error + (sock option \<times> NATInfo)) \<times> sock set" where
  "session_nat create cachedNATType cachedNATInfo opened =
     (if IsCone cachedNATType \<or> cachedNATType = NATOpen then
        (case create opened of
           (Inl e, opened') \<Rightarrow> (Inl e, opened')
         | (Inr (conn, info), opened') \<Rightarrow> (Inr (Some conn, info\<lparr>nat_Type := cachedNATType\<rparr>), opened'))
      else (Inr (None, \<lparr>nat_Type = cachedNATType, PublicIP = PublicIP cachedNATInfo,
              PublicPort = PublicPort cachedNATInfo\<rparr>), opened))"

text \<open>The result: the error returned, the arguments of \<^verbatim>\<open>onPunchReady\<close> if it was called, the open
  sockets and the stream. Errors of the error replies are dropped, as in the source.\<close>

definition ServerSignalingHandler ::
    "json_lib \<Rightarrow> (error \<Rightarrow> string) \<Rightarrow> 's reader \<Rightarrow> 's writer \<Rightarrow> ('s \<Rightarrow> 's) \<Rightarrow>
     (sock set \<Rightarrow> (error + (sock \<times> NATInfo)) \<times> sock set) \<Rightarrow> (punch_args \<Rightarrow> error option) \<Rightarrow>
     NATType \<Rightarrow> NATInfo \<Rightarrow> bytes \<Rightarrow> sock set \<Rightarrow> 's \<Rightarrow>
     (error option \<times> punch_args option \<times> sock set \<times> 's) option" where
  "ServerSignalingHandler J errText rd wr cl create onPunchReady cachedNATType cachedNATInfo sessionToken opened s0 =
     map_option (\<lambda>(e, started, o', s). (e, started, o', cl s))
     (do {
        q \<leftarrow> readSignalMsg J rd s0;
        case q of
          (Inl e, s1) \<Rightarrow> Some (Some (Errorf ''read client NAT info: %w'' [FWrap e]), None, opened, s1)
        | (Inr msg, s1) \<Rightarrow>
          (case sg_NATInfo msg of
             None \<Rightarrow> do {
               w \<leftarrow> writeSignalMsg J wr s1 (zero_signal\<lparr>sg_Error := ''missing NAT info''\<rparr>);
               Some (Some (Errorf ''client did not send NAT info'' []), None, opened, snd w) }
           | Some clientNAT \<Rightarrow>
             let tid = sg_TID msg;
                 method = DeterminePunchMethod (nat_Type clientNAT) cachedNATType
             in if method = PunchNone then do {
                  w \<leftarrow> writeSignalMsg J wr s1 (zero_signal\<lparr>sg_Error := no_method_text (nat_Type clientNAT) cachedNATType\<rparr>);
                  Some (Some (Errorf (no_method_text (nat_Type clientNAT) cachedNATType) []), None, opened, snd w) }
                else
                (case session_nat create cachedNATType cachedNATInfo opened of
                   (Inl e, opened1) \<Rightarrow> do {
                     w \<leftarrow> writeSignalMsg J wr s1 (zero_signal\<lparr>sg_Error := ''create punch socket: '' @ errText e\<rparr>);
                     Some (Some (Errorf ''create punch socket: %w'' [FWrap e]), None, opened1, snd w) }
                 | (Inr (punchSock, myNAT), opened1) \<Rightarrow> do {
                     w \<leftarrow> writeSignalMsg J wr s1 (zero_signal\<lparr>sg_NATInfo := Some myNAT, sg_Method := method_int method,
                            sg_SessionToken := sessionToken, sg_TID := tid\<rparr>);
                     case w of
                       (Some e, s2) \<Rightarrow> Some (Some (Errorf ''send NAT info: %w'' [FWrap e]), None, close_opt punchSock opened1, s2)
                     | (None, s2) \<Rightarrow>
                       let args = (punchSock, myNAT, clientNAT, method, tid)
                       in (case onPunchReady args of
                          Some e \<Rightarrow> do {
                            w2 \<leftarrow> writeSignalMsg J wr s2 (zero_signal\<lparr>sg_Error := ''server punch setup failed: '' @ errText e\<rparr>);
                            Some (Some (Errorf ''onPunchReady: %w'' [FWrap e]), Some args, close_opt punchSock opened1, snd w2) }
                        | None \<Rightarrow> do {
                            w2 \<leftarrow> writeSignalMsg J wr s2 (zero_signal\<lparr>sg_PunchReady := True\<rparr>);
                            case w2 of
                              (Some e, s3) \<Rightarrow> Some (Some (Errorf ''send ready: %w'' [FWrap e]), Some args, opened1, s3)
                            | (None, s3) \<Rightarrow> Some (None, Some args, opened1, s3) }) })) })"

section \<open>Framing\<close>

text \<open>A message that \<^verbatim>\<open>encoding/json\<close> encodes in at most 64 KB and decodes to itself.\<close>

definition signal_ok :: "json_lib \<Rightarrow> SignalMsg \<Rightarrow> bool" where
  "signal_ok J m \<longleftrightarrow> (case json_Marshal J m of
     Inl _ \<Rightarrow> False | Inr d \<Rightarrow> length d \<le> 65536 \<and> json_Unmarshal J d = Inr m)"

definition signal_bytes :: "json_lib \<Rightarrow> SignalMsg \<Rightarrow> bytes" where
  "signal_bytes J m = (case json_Marshal J m of Inl _ \<Rightarrow> [] | Inr d \<Rightarrow> put_uint32 (of_nat (length d)) @ d)"

lemma signal_okD:
  assumes "signal_ok J m"
  obtains d where "json_Marshal J m = Inr d" "length d \<le> 65536" "json_Unmarshal J d = Inr m"
    "signal_bytes J m = put_uint32 (of_nat (length d)) @ d"
  using assms by (auto simp: signal_ok_def signal_bytes_def split: sum.splits)

context byte_sink
begin

lemma writeSignalMsg_sent:
  assumes "ready s" "writeSignalMsg J wr s m = Some (None, s')"
  shows "sent s' = sent s @ signal_bytes J m \<and> ready s'"
proof -
  obtain d where d: "json_Marshal J m = Inr d"
    using assms(2) by (auto simp: writeSignalMsg_def split: sum.splits)
  show ?thesis
  proof (cases rule: wr_cases [OF assms(1), of "put_uint32 (of_nat (length d))", case_names ok1 failed1])
    case (ok1 s1)
    show ?thesis
      by (cases rule: wr_cases [OF ok1(3), of d, case_names ok2 failed2])
        (use ok1 d assms(2) in \<open>auto simp: writeSignalMsg_def signal_bytes_def Let_def\<close>)
  qed (use d assms(2) in \<open>auto simp: writeSignalMsg_def Let_def\<close>)
qed

end

context reliable_sink
begin

lemma writeSignalMsg_succeeds:
  assumes "ready s" "signal_ok J m"
  obtains s' where "writeSignalMsg J wr s m = Some (None, s')" "sent s' = sent s @ signal_bytes J m" "ready s'"
proof -
  obtain d where d: "json_Marshal J m = Inr d" using signal_okD [OF assms(2)] by metis
  obtain s1 where w1: "wr s (put_uint32 (of_nat (length d))) = Some ((4, None), s1)"
    using wr_succeeds [OF assms(1), of "put_uint32 (of_nat (length d))"] by auto
  have "ready s1" by (cases rule: wr_cases [OF assms(1), of "put_uint32 (of_nat (length d))"]) (use w1 in auto)
  then obtain s2 where w2: "wr s1 d = Some ((length d, None), s2)" using wr_succeeds by blast
  have "writeSignalMsg J wr s m = Some (None, s2)" using d w1 w2 by (simp add: writeSignalMsg_def Let_def)
  then show thesis using that writeSignalMsg_sent [OF assms(1)] by blast
qed

end

context byte_source
begin

lemma readSignalMsg_frame:
  assumes "inv s" and "view s = (signal_bytes J m @ rest, e)" and "signal_ok J m"
  obtains s' where "readSignalMsg J rd s = Some (Inr m, s')" and "view s' = (rest, e)" and "inv s'"
proof -
  obtain d where d: "length d \<le> 65536" "json_Unmarshal J d = Inr m"
    "signal_bytes J m = put_uint32 (of_nat (length d)) @ d" using signal_okD [OF assms(3)] by metis
  let ?n = "of_nat (length d) :: uint32"
  have n: "unat ?n = length d" using d(1) by (simp add: unsigned_of_nat take_bit_nat_eq_self)
  have lim: "\<not> ?n > 2 ^ 16" using d(1) n by (simp add: word_less_nat_alt)
  obtain s1 where r1: "ReadFull rd s 4 = Some ((put_uint32 ?n, None), s1)"
    and v1: "view s1 = (d @ rest, e)" "inv s1"
    using ReadFull_ok [OF assms(1,2), of 4] d by auto
  obtain s2 where r2: "ReadFull rd s1 (unat ?n) = Some ((d, None), s2)"
    and v2: "view s2 = (rest, e)" "inv s2"
    using ReadFull_ok [OF v1(2,1), of "length d"] n by auto
  have "get_uint32 (put_uint32 ?n) = Some ?n" using get_put_uint32 [of ?n "[]"] by simp
  then have "readSignalMsg J rd s = Some (Inr m, s2)"
    using r1 r2 lim d(2) by (simp add: readSignalMsg_def)
  with v2 that show thesis by blast
qed

lemma readSignalMsg_too_large:
  assumes "inv s" and "view s = (put_uint32 n @ rest, e)" and "n > 2 ^ 16"
  obtains s' where "readSignalMsg J rd s = Some (Inl (Errorf ''message too large: %d'' [FInt (uint n)]), s')"
    and "view s' = (rest, e)"
proof -
  obtain s1 where r1: "ReadFull rd s 4 = Some ((put_uint32 n, None), s1)" and v1: "view s1 = (rest, e)"
    using ReadFull_ok [OF assms(1,2), of 4] by auto
  have "get_uint32 (put_uint32 n) = Some n" using get_put_uint32 [of n "[]"] by simp
  then show thesis using that [of s1] r1 v1 assms(3) by (simp add: readSignalMsg_def)
qed

end

text \<open>Writing keeps what is still to be read, reading keeps what was written.\<close>

lemma readSignalMsg_keeps:
  assumes "\<And>s n. I s \<Longrightarrow> keeps I (rd s n)" and "I s"
  shows "keeps I (readSignalMsg J rd s)"
  unfolding readSignalMsg_def
  by (rule keeps_bind [OF ReadFull_keeps [of I rd, OF assms]])
    (auto simp: keeps_def [of I None] split: option.splits sum.splits
      intro!: keeps_bind [OF ReadFull_keeps [of I rd, OF assms(1)]])

lemma writeSignalMsg_keeps:
  assumes "\<And>s p. I s \<Longrightarrow> keeps I (wr s p)" and "I s"
  shows "keeps I (writeSignalMsg J wr s m)"
  using assms(2)
  by (auto simp: writeSignalMsg_def Let_def split: option.splits sum.splits intro!: keeps_bind [OF assms(1)])

lemma conn_write_keeps_view: "conn_view c = v \<Longrightarrow> keeps (\<lambda>c. conn_view c = v) (conn_write c p)"
  by (auto simp: conn_write_def conn_view_def keeps_def split: if_splits option.splits)

definition outward :: "conn \<Rightarrow> bytes \<times> bool" where
  "outward c = (out_bytes c, conn_healthy c)"

lemma conn_read_keeps_out: "outward c = v \<Longrightarrow> keeps (\<lambda>c. outward c = v) (conn_read c n)"
  by (auto simp: conn_read_def outward_def conn_healthy_def keeps_def split: list.splits)

lemma writeSignalMsg_view: "writeSignalMsg J conn_write c m = Some (r, c') \<Longrightarrow> conn_view c' = conn_view c"
  using writeSignalMsg_keeps [of "\<lambda>c'. conn_view c' = conn_view c" conn_write c J m, OF conn_write_keeps_view]
  by (auto simp: keeps_def)

lemma readSignalMsg_out: "readSignalMsg J conn_read c = Some (r, c') \<Longrightarrow> outward c' = outward c"
  using readSignalMsg_keeps [of "\<lambda>c'. outward c' = outward c" conn_read c J, OF conn_read_keeps_out]
  by (auto simp: keeps_def)


section \<open>Agreement\<close>

definition client_msg :: "NATInfo \<Rightarrow> uint32 \<Rightarrow> SignalMsg" where
  "client_msg myNAT tid = zero_signal\<lparr>sg_NATInfo := Some myNAT, sg_TID := tid\<rparr>"

definition server_msg :: "NATInfo \<Rightarrow> PunchMethod \<Rightarrow> bytes \<Rightarrow> uint32 \<Rightarrow> SignalMsg" where
  "server_msg myNAT method token tid = zero_signal\<lparr>sg_NATInfo := Some myNAT, sg_Method := method_int method,
     sg_SessionToken := token, sg_TID := tid\<rparr>"

definition ready_msg :: SignalMsg where
  "ready_msg = zero_signal\<lparr>sg_PunchReady := True\<rparr>"

lemmas signal_msgs = client_msg_def server_msg_def ready_msg_def zero_signal_def

lemma method_of_int_DeterminePunchMethod:
  "method_of_int (method_int (DeterminePunchMethod c s)) = DeterminePunchMethod c s"
  by (auto simp: DeterminePunchMethod_def method_of_int_def)

lemma ServerSignalingHandler_success:
  assumes "ServerSignalingHandler J errText rd wr cl create onPunchReady ct ci token opened s0 =
      Some (None, started, opened', s')"
  obtains msg s1 cNAT ps sNAT m s2 s3 where "readSignalMsg J rd s0 = Some (Inr msg, s1)"
    "sg_NATInfo msg = Some cNAT" "m = DeterminePunchMethod (nat_Type cNAT) ct" "m \<noteq> PunchNone"
    "session_nat create ct ci opened = (Inr (ps, sNAT), opened')"
    "writeSignalMsg J wr s1 (server_msg sNAT m token (sg_TID msg)) = Some (None, s2)"
    "writeSignalMsg J wr s2 ready_msg = Some (None, s3)" "s' = cl s3"
    "started = Some (ps, sNAT, cNAT, m, sg_TID msg)" "onPunchReady (ps, sNAT, cNAT, m, sg_TID msg) = None"
proof -
  obtain q s1 where 1: "readSignalMsg J rd s0 = Some (q, s1)"
    using assms by (cases "readSignalMsg J rd s0") (auto simp: ServerSignalingHandler_def)
  obtain msg where q: "q = Inr msg" using assms 1 by (cases q) (auto simp: ServerSignalingHandler_def)
  obtain cNAT where c: "sg_NATInfo msg = Some cNAT"
    using assms 1 q by (cases "sg_NATInfo msg") (auto simp: ServerSignalingHandler_def bind_eq_Some_conv)
  define m where "m = DeterminePunchMethod (nat_Type cNAT) ct"
  have m: "m \<noteq> PunchNone"
    using assms 1 q c by (auto simp: ServerSignalingHandler_def Let_def m_def bind_eq_Some_conv)
  obtain ps sNAT opened1 where n: "session_nat create ct ci opened = (Inr (ps, sNAT), opened1)"
    using assms 1 q c m
    by (cases "session_nat create ct ci opened"; cases "fst (session_nat create ct ci opened)")
      (auto simp: ServerSignalingHandler_def Let_def m_def bind_eq_Some_conv)
  obtain s2 where w: "writeSignalMsg J wr s1 (server_msg sNAT m token (sg_TID msg)) = Some (None, s2)"
    using assms 1 q c m n
    by (auto simp: ServerSignalingHandler_def Let_def m_def server_msg_def bind_eq_Some_conv split: option.splits)
  have r: "onPunchReady (ps, sNAT, cNAT, m, sg_TID msg) = None"
    using assms 1 q c m n w
    by (auto simp: ServerSignalingHandler_def Let_def m_def [symmetric] server_msg_def bind_eq_Some_conv split: option.splits)
  obtain s3 where w2: "writeSignalMsg J wr s2 ready_msg = Some (None, s3)" "s' = cl s3" "opened' = opened1"
      "started = Some (ps, sNAT, cNAT, m, sg_TID msg)"
    using assms 1 q c m n w r
    by (auto simp: ServerSignalingHandler_def Let_def m_def [symmetric] server_msg_def ready_msg_def bind_eq_Some_conv
        split: option.splits)
  show thesis using that [OF 1 [unfolded q] c m_def m] n w w2 r by blast
qed

lemma ClientSignaling_run:
  assumes "newStream (SignalingProtocol base) = Inr c0" "get_uint32 tb = Some tid"
    and "writeSignalMsg J wr c0 (client_msg myNAT tid) = Some (None, c1)"
    and "readSignalMsg J rd c1 = Some (Inr (server_msg sNAT m token t), c2)"
    and "readSignalMsg J rd c2 = Some (Inr ready_msg, c3)" and "token \<noteq> []"
  shows "ClientSignaling J rd wr cl newStream (Inr tb) myNAT base =
    Some (Inr (sNAT, token, method_of_int (method_int m), tid), Some (cl c3))"
  using assms by (simp add: ClientSignaling_def signal_msgs)

definition shut :: "conn \<Rightarrow> conn" where "shut c = snd (conn_close c)"

lemma shut_out [simp]: "out_bytes (shut c) = out_bytes c"
  by (simp add: shut_def conn_close_def)

text \<open>C13: the two sides of a successful exchange agree. When the server's handler succeeds on a stream
  that carries the client's message, what it started the punch with are the client's NAT information
  and transaction and the method determined from both NAT types, and a client that reads the
  server's bytes, over every fragmentation, returns the NAT information the server punches with, the
  session token, the same method and the same transaction.\<close>

theorem signaling_agreement:
  assumes server: "ServerSignalingHandler J errText conn_read conn_write shut create onPunchReady ct ci token opened sc =
      Some (None, started, opened', sc')"
    and s_in: "conn_view sc = (signal_bytes J (client_msg myNAT tid) @ rest, e)"
    and s_out: "out_bytes sc' = out_bytes sc @ answer"
    and client: "newStream (SignalingProtocol base) = Inr cc" "get_uint32 tb = Some tid" "conn_healthy cc"
    and c_in: "conn_view cc = (answer @ rest', e')"
    and codec: "signal_ok J (client_msg myNAT tid)"
      "\<And>ps sNAT m. started = Some (ps, sNAT, myNAT, m, tid) \<Longrightarrow> signal_ok J (server_msg sNAT m token tid)"
      "signal_ok J ready_msg"
    and "token \<noteq> []"
  shows "\<exists>ps sNAT m cc'. started = Some (ps, sNAT, myNAT, m, tid) \<and>
    m = DeterminePunchMethod (nat_Type myNAT) ct \<and> m \<noteq> PunchNone \<and>
    ClientSignaling J conn_read conn_write shut newStream (Inr tb) myNAT base =
      Some (Inr (sNAT, token, m, tid), Some cc') \<and>
    out_bytes cc' = out_bytes cc @ signal_bytes J (client_msg myNAT tid)"
proof -
  obtain msg s1 cNAT ps sNAT m s2 s3 where S: "readSignalMsg J conn_read sc = Some (Inr msg, s1)"
    "sg_NATInfo msg = Some cNAT" "m = DeterminePunchMethod (nat_Type cNAT) ct" "m \<noteq> PunchNone"
    "writeSignalMsg J conn_write s1 (server_msg sNAT m token (sg_TID msg)) = Some (None, s2)"
    "writeSignalMsg J conn_write s2 ready_msg = Some (None, s3)" "sc' = shut s3"
    "started = Some (ps, sNAT, cNAT, m, sg_TID msg)"
    using ServerSignalingHandler_success [OF server] by metis
  obtain s1' where "readSignalMsg J conn_read sc = Some (Inr (client_msg myNAT tid), s1')"
    using cs.readSignalMsg_frame [OF _ s_in codec(1)] by blast
  then have msg: "msg = client_msg myNAT tid" using S(1) by simp
  then have ids: "cNAT = myNAT" "sg_TID msg = tid" using S(2) by (simp_all add: signal_msgs)
  have "out_bytes s1 = out_bytes sc" using readSignalMsg_out [OF S(1)] by (simp add: outward_def)
  then have ans: "answer = signal_bytes J (server_msg sNAT m token tid) @ signal_bytes J ready_msg"
    using ck.writeSignalMsg_sent [OF _ S(5)] ck.writeSignalMsg_sent [OF _ S(6)] s_out S(7) ids by simp
  obtain c1 where c1: "writeSignalMsg J conn_write cc (client_msg myNAT tid) = Some (None, c1)"
    "out_bytes c1 = out_bytes cc @ signal_bytes J (client_msg myNAT tid)"
    using hk.writeSignalMsg_succeeds [OF client(3) codec(1)] by blast
  have "conn_view c1 = (signal_bytes J (server_msg sNAT m token tid) @ signal_bytes J ready_msg @ rest', e')"
    using writeSignalMsg_view [OF c1(1)] c_in ans by simp
  moreover have "signal_ok J (server_msg sNAT m token tid)" using codec(2) [of ps sNAT m] S(8) ids by simp
  ultimately obtain c2 where c2: "readSignalMsg J conn_read c1 = Some (Inr (server_msg sNAT m token tid), c2)"
    "conn_view c2 = (signal_bytes J ready_msg @ rest', e')"
    using cs.readSignalMsg_frame [of c1 J "server_msg sNAT m token tid"] by blast
  then obtain c3 where c3: "readSignalMsg J conn_read c2 = Some (Inr ready_msg, c3)"
    using cs.readSignalMsg_frame [of c2 J ready_msg] codec(3) by blast
  have "out_bytes (shut c3) = out_bytes cc @ signal_bytes J (client_msg myNAT tid)"
    using readSignalMsg_out [OF c2(1)] readSignalMsg_out [OF c3] c1(2) by (simp add: outward_def)
  moreover have "ClientSignaling J conn_read conn_write shut newStream (Inr tb) myNAT base =
      Some (Inr (sNAT, token, m, tid), Some (shut c3))"
    using ClientSignaling_run [where newStream = newStream and base = base and cl = shut,
        OF client(1,2) c1(1) c2(1) c3 \<open>token \<noteq> []\<close>] S(3)
    by (simp add: method_of_int_DeterminePunchMethod)
  ultimately show ?thesis using S(3,4,8) ids by blast
qed


text \<open>A client for whose NAT type there is no method is told so: the handler returns the error, starts
  no punch and leaves the sockets as they were, and the client that reads its answer returns the
  server's text.\<close>

theorem signaling_refusal:
  assumes s_in: "conn_view sc = (signal_bytes J (client_msg myNAT tid) @ rest, e)" "conn_healthy sc"
    and none: "DeterminePunchMethod (nat_Type myNAT) ct = PunchNone"
    and client: "newStream (SignalingProtocol base) = Inr cc" "get_uint32 tb = Some tid" "conn_healthy cc"
    and codec: "signal_ok J (client_msg myNAT tid)"
      "signal_ok J (zero_signal\<lparr>sg_Error := no_method_text (nat_Type myNAT) ct\<rparr>)"
  shows "\<exists>sc' answer. ServerSignalingHandler J errText conn_read conn_write shut create onPunchReady ct ci token opened sc =
      Some (Some (Errorf (no_method_text (nat_Type myNAT) ct) []), None, opened, sc') \<and>
    out_bytes sc' = out_bytes sc @ answer \<and>
    (conn_view cc = (answer @ rest', e') \<longrightarrow>
     (\<exists>cc'. ClientSignaling J conn_read conn_write shut newStream (Inr tb) myNAT base =
        Some (Inl (Errorf ''server error: %s'' [FStr (no_method_text (nat_Type myNAT) ct)]), Some cc')))"
proof -
  let ?refusal = "zero_signal\<lparr>sg_Error := no_method_text (nat_Type myNAT) ct\<rparr>"
  have nonempty: "no_method_text (nat_Type myNAT) ct \<noteq> []" by (simp add: no_method_text_def)
  obtain s1 where s1: "readSignalMsg J conn_read sc = Some (Inr (client_msg myNAT tid), s1)"
    using cs.readSignalMsg_frame [OF _ s_in(1) codec(1)] by blast
  have "conn_healthy s1" "out_bytes s1 = out_bytes sc"
    using readSignalMsg_out [OF s1] s_in(2) by (simp_all add: outward_def)
  then obtain s2 where s2: "writeSignalMsg J conn_write s1 ?refusal = Some (None, s2)"
    "out_bytes s2 = out_bytes sc @ signal_bytes J ?refusal"
    using hk.writeSignalMsg_succeeds [OF _ codec(2)] by metis
  have server: "ServerSignalingHandler J errText conn_read conn_write shut create onPunchReady ct ci token opened sc =
      Some (Some (Errorf (no_method_text (nat_Type myNAT) ct) []), None, opened, shut s2)"
    using s1 s2 none by (simp add: ServerSignalingHandler_def client_msg_def Let_def)
  have client_run: "\<exists>cc'. ClientSignaling J conn_read conn_write shut newStream (Inr tb) myNAT base =
        Some (Inl (Errorf ''server error: %s'' [FStr (no_method_text (nat_Type myNAT) ct)]), Some cc')"
    if c_in: "conn_view cc = (signal_bytes J ?refusal @ rest', e')"
  proof -
    obtain c1 where c1: "writeSignalMsg J conn_write cc (client_msg myNAT tid) = Some (None, c1)"
      using hk.writeSignalMsg_succeeds [OF client(3) codec(1)] by blast
    obtain c2 where c2: "readSignalMsg J conn_read c1 = Some (Inr ?refusal, c2)"
      using cs.readSignalMsg_frame [of c1 J ?refusal rest' e'] writeSignalMsg_view [OF c1] c_in codec(2) by auto
    show ?thesis using client(1,2) c1 c2 nonempty by (simp add: ClientSignaling_def client_msg_def)
  qed
  show ?thesis using server s2(2) client_run by (intro exI [of _ "shut s2"] exI [of _ "signal_bytes J ?refusal"]) simp
qed

lemma ServerSignalingHandler_run:
  assumes "readSignalMsg J rd s0 = Some (Inr (client_msg cNAT tid), s1)"
    "DeterminePunchMethod (nat_Type cNAT) ct = m" "m \<noteq> PunchNone"
    "session_nat create ct ci opened = (Inr (ps, sNAT), opened')"
    "writeSignalMsg J wr s1 (server_msg sNAT m token tid) = Some (None, s2)"
    "writeSignalMsg J wr s2 ready_msg = Some (None, s3)"
    "onPunchReady (ps, sNAT, cNAT, m, tid) = None"
  shows "ServerSignalingHandler J errText rd wr cl create onPunchReady ct ci token opened s0 =
      Some (None, Some (ps, sNAT, cNAT, m, tid), opened', cl s3)"
  using assms by (simp add: ServerSignalingHandler_def Let_def signal_msgs)

section \<open>Witnesses\<close>

text \<open>A codec for four messages.\<close>

definition example_msgs :: "SignalMsg list" where
  "example_msgs = [client_msg (example_nat NATCone) 7, server_msg (example_nat NATSymmetricHard) PunchSymToCone [9] 7,
     ready_msg, client_msg (example_nat NATSymmetricHard) 7,
     zero_signal\<lparr>sg_Error := no_method_text NATSymmetricHard NATSymmetricHard\<rparr>]"

definition example_json :: json_lib where
  "example_json = \<lparr>json_Marshal = (\<lambda>m. case find (\<lambda>i. example_msgs ! i = m) [0..<5] of
       Some i \<Rightarrow> Inr [of_nat i] | None \<Rightarrow> Inl (EnvError ''json'')),
     json_Unmarshal = (\<lambda>d. case d of [b] \<Rightarrow> if unat b < 5 then Inr (example_msgs ! unat b) else Inl (EnvError ''json'')
       | _ \<Rightarrow> Inl (EnvError ''json''))\<rparr>"

lemma example_signal_ok: "m \<in> set example_msgs \<Longrightarrow> signal_ok example_json m"
  by (auto simp: example_msgs_def signal_ok_def example_json_def signal_msgs example_nat_def upt_rec
      no_method_text_def)

definition example_conn :: "bytes \<Rightarrow> conn" where
  "example_conn bs = fresh_conn\<lparr>in_segs := map (\<lambda>b. [b]) bs\<rparr>"

lemma example_conn [simp]: "conn_view (example_conn bs) = (bs, EOF)" "conn_healthy (example_conn bs)"
    "out_bytes (example_conn bs) = []"
  by (simp_all add: example_conn_def conn_view_def fresh_conn_def conn_healthy_def concat_map_singleton)

lemma example_server:
  "\<exists>sc'. ServerSignalingHandler example_json errText conn_read conn_write shut create (\<lambda>_. None) NATSymmetricHard
     (example_nat NATSymmetricHard) [9] {} (example_conn (signal_bytes example_json (client_msg (example_nat NATCone) 7))) =
     Some (None, Some (None, example_nat NATSymmetricHard, example_nat NATCone, PunchSymToCone, 7), {}, sc') \<and>
   out_bytes sc' = signal_bytes example_json (server_msg (example_nat NATSymmetricHard) PunchSymToCone [9] 7) @
     signal_bytes example_json ready_msg"
proof -
  let ?J = example_json and ?c = "client_msg (example_nat NATCone) 7"
  let ?s = "server_msg (example_nat NATSymmetricHard) PunchSymToCone [9] 7"
  let ?sc = "example_conn (signal_bytes ?J ?c)"
  have ok: "signal_ok ?J ?c" "signal_ok ?J ?s" "signal_ok ?J ready_msg"
    by (rule example_signal_ok; simp add: example_msgs_def)+
  obtain s1 where s1: "readSignalMsg ?J conn_read ?sc = Some (Inr ?c, s1)"
    using cs.readSignalMsg_frame [of ?sc ?J ?c "[]" EOF] ok(1) by auto
  have h1: "conn_healthy s1" "out_bytes s1 = []" using readSignalMsg_out [OF s1] by (simp_all add: outward_def)
  obtain s2 where s2: "writeSignalMsg ?J conn_write s1 ?s = Some (None, s2)" "out_bytes s2 = signal_bytes ?J ?s" "conn_healthy s2"
    using hk.writeSignalMsg_succeeds [OF h1(1) ok(2)] h1(2) by auto
  obtain s3 where s3: "writeSignalMsg ?J conn_write s2 ready_msg = Some (None, s3)"
    "out_bytes s3 = signal_bytes ?J ?s @ signal_bytes ?J ready_msg"
    using hk.writeSignalMsg_succeeds [OF s2(3) ok(3)] s2(2) by auto
  have n: "session_nat create NATSymmetricHard (example_nat NATSymmetricHard) {} = (Inr (None, example_nat NATSymmetricHard), {})"
    by (simp add: session_nat_def IsCone_def example_nat_def)
  have m: "DeterminePunchMethod (nat_Type (example_nat NATCone)) NATSymmetricHard = PunchSymToCone"
    by (simp add: DeterminePunchMethod_def example_nat_def IsCone_def IsSymmetric_def)
  show ?thesis
    using ServerSignalingHandler_run [where cl = shut and errText = errText and onPunchReady = "\<lambda>_. None",
        OF s1 m _ n s2(1) s3(1)] s3(2) by auto
qed

theorem signaling_agreement_witness:
  "\<exists>cc'. ClientSignaling example_json conn_read conn_write shut
      (\<lambda>_. Inr (example_conn (signal_bytes example_json (server_msg (example_nat NATSymmetricHard) PunchSymToCone [9] 7) @
         signal_bytes example_json ready_msg))) (Inr [0, 0, 0, 7]) (example_nat NATCone) ''/f2p'' =
      Some (Inr (example_nat NATSymmetricHard, [9], PunchSymToCone, 7), Some cc')"
proof -
  let ?ans = "signal_bytes example_json (server_msg (example_nat NATSymmetricHard) PunchSymToCone [9] 7) @
         signal_bytes example_json ready_msg"
  let ?sc = "example_conn (signal_bytes example_json (client_msg (example_nat NATCone) 7))"
  obtain sc' where sc: "ServerSignalingHandler example_json (\<lambda>_. []) conn_read conn_write shut (\<lambda>o'. (Inl EOF, o')) (\<lambda>_. None)
     NATSymmetricHard (example_nat NATSymmetricHard) [9] {} ?sc =
     Some (None, Some (None, example_nat NATSymmetricHard, example_nat NATCone, PunchSymToCone, 7), {}, sc')"
    "out_bytes sc' = ?ans" using example_server by blast
  have "\<exists>ps sNAT m cc'. Some (None :: sock option, example_nat NATSymmetricHard, example_nat NATCone, PunchSymToCone, 7 :: uint32) =
      Some (ps, sNAT, example_nat NATCone, m, 7) \<and>
    m = DeterminePunchMethod (nat_Type (example_nat NATCone)) NATSymmetricHard \<and> m \<noteq> PunchNone \<and>
    ClientSignaling example_json conn_read conn_write shut (\<lambda>_. Inr (example_conn ?ans)) (Inr [0, 0, 0, 7]) (example_nat NATCone) ''/f2p'' =
      Some (Inr (sNAT, [9], m, 7), Some cc') \<and>
    out_bytes cc' = out_bytes (example_conn ?ans) @ signal_bytes example_json (client_msg (example_nat NATCone) 7)"
    by (rule signaling_agreement [OF sc(1), where rest = "[]" and rest' = "[]" and e = EOF and e' = EOF and answer = ?ans])
      (auto simp: sc(2) join_uint32_def intro!: example_signal_ok simp: example_msgs_def)
  then show ?thesis by auto
qed

theorem signaling_refusal_witness:
  "\<exists>sc' answer. ServerSignalingHandler example_json (\<lambda>_. []) conn_read conn_write shut (\<lambda>o'. (Inl EOF, o')) (\<lambda>_. None)
     NATSymmetricHard (example_nat NATSymmetricHard) [9] {}
     (example_conn (signal_bytes example_json (client_msg (example_nat NATSymmetricHard) 7))) =
     Some (Some (Errorf (no_method_text NATSymmetricHard NATSymmetricHard) []), None, {}, sc') \<and> out_bytes sc' = answer"
proof -
  let ?sc = "example_conn (signal_bytes example_json (client_msg (example_nat NATSymmetricHard) 7))"
  have t: "nat_Type (example_nat NATSymmetricHard) = NATSymmetricHard" by (simp add: example_nat_def)
  have "signal_ok example_json (client_msg (example_nat NATSymmetricHard) 7)"
    "signal_ok example_json (zero_signal\<lparr>sg_Error := no_method_text (nat_Type (example_nat NATSymmetricHard)) NATSymmetricHard\<rparr>)"
    by (rule example_signal_ok; simp add: example_msgs_def t)+
  then show ?thesis
    using signaling_refusal [where sc = ?sc and J = example_json and myNAT = "example_nat NATSymmetricHard" and tid = 7
      and rest = "[]" and e = EOF and ct = NATSymmetricHard and newStream = "\<lambda>_. Inr ?sc" and cc = ?sc and base = "[]"
      and tb = "[0, 0, 0, 7]" and errText = "\<lambda>_. []" and create = "\<lambda>o'. (Inl EOF, o')" and onPunchReady = "\<lambda>_. None"
      and ci = "example_nat NATSymmetricHard" and token = "[9]" and opened = "{}"]
    by (auto simp: t DeterminePunchMethod_def IsCone_def IsEasySymmetric_def join_uint32_def)
qed

end
