(* ===== verification/F2P_Direct.thy ===== *)
theory F2P_Direct
  imports F2P_Signaling F2P_Service
begin

text \<open>
  \<^verbatim>\<open>internal/holepunch/direct.go\<close> and \<^verbatim>\<open>internal/server/handlers_holepunch.go\<close>: the QUIC connection over
  a punched socket, its authentication by the session token, and the server's handlers that lead
  there and route its streams. quic-go is a parameter: the outcome of dialling, listening and
  accepting, and the streams it delivers. A connection is the value \<^verbatim>\<open>'q\<close> of the library; closing it
  is an entry of a log, with its code and reason. The key and certificate functions of the standard
  library are a parameter. The lemmas show that the TLS configurations of the two sides fit together,
  that the server authenticates exactly a client that sends the token, that both sides agree, that
  streams are routed by their type byte, and which sockets are left open.
\<close>

section \<open>Direct connections\<close>

definition SessionTokenLen :: nat where "SessionTokenLen = 16"

definition StreamTypeControl :: byte where "StreamTypeControl = 0x01"
definition StreamTypeData :: byte where "StreamTypeData = 0x02"
definition StreamTypeDataZstd :: byte where "StreamTypeDataZstd = 0x03"

text \<open>\<open>rand\<close> fills a buffer of the given length. On an error the source still returns its buffer.\<close>

definition GenerateSessionToken :: "(nat \<Rightarrow> bytes \<times> error option) \<Rightarrow> bytes \<times> error option" where
  "GenerateSessionToken rand = rand SessionTokenLen"

subsection \<open>TLS\<close>

definition DirectQUICALPN :: string where "DirectQUICALPN = ''f2p-direct''"

record certificate =
  SerialNumber :: int
  NotBefore :: time
  NotAfter :: time

text \<open>\<^verbatim>\<open>ecdsa.GenerateKey\<close> on P-256, the public part of a key, and \<^verbatim>\<open>x509.CreateCertificate\<close> with the template,
  the parent, the public key of the subject and the private key of the signer.\<close>

record ('k, 'p) crypto_lib =
  GenerateKey :: "error + 'k"
  PublicKey :: "'k \<Rightarrow> 'p"
  CreateCertificate :: "certificate \<Rightarrow> certificate \<Rightarrow> 'p \<Rightarrow> 'k \<Rightarrow> error + bytes"

record 'k tls_config =
  Certificates :: "(bytes list \<times> 'k) list"
  NextProtos :: "string list"
  InsecureSkipVerify :: bool

definition self_signed_template :: "time \<Rightarrow> certificate" where
  "self_signed_template u =
     \<lparr>SerialNumber = 1, NotBefore = u + -1 * (3600 * second), NotAfter = u + 24 * (3600 * second)\<rparr>"

definition generateSelfSignedTLS :: "('k, 'p) crypto_lib \<Rightarrow> time \<Rightarrow> error + 'k tls_config" where
  "generateSelfSignedTLS K u =
     (case GenerateKey K of
        Inl e \<Rightarrow> Inl (Errorf ''generate key: %w'' [FWrap e])
      | Inr key \<Rightarrow>
        (let template = self_signed_template u
         in (case CreateCertificate K template template (PublicKey K key) key of
               Inl e \<Rightarrow> Inl (Errorf ''create certificate: %w'' [FWrap e])
             | Inr certDER \<Rightarrow>
                 Inr \<lparr>Certificates = [([certDER], key)], NextProtos = [DirectQUICALPN], InsecureSkipVerify = False\<rparr>)))"

definition clientTLSConfig :: "'k tls_config" where
  "clientTLSConfig = \<lparr>Certificates = [], NextProtos = [DirectQUICALPN], InsecureSkipVerify = True\<rparr>"

record quic_config =
  MaxIdleTimeout :: duration
  KeepAlivePeriod :: duration

definition defaultQUICConfig :: quic_config where
  "defaultQUICConfig = \<lparr>MaxIdleTimeout = 60 * second, KeepAlivePeriod = 15 * second\<rparr>"

text \<open>The two configurations fit together: the protocol that the server selects is the one the client
  offers, the server presents one certificate that is signed with its own key, and it is valid for
  an hour before and a day after it was made; the client does not verify it, the session token
  authenticates the peers.\<close>

lemma direct_tls_fits:
  assumes "generateSelfSignedTLS K u = Inr conf"
  shows "find (\<lambda>p. p \<in> set (NextProtos (clientTLSConfig :: unit tls_config))) (NextProtos conf) = Some DirectQUICALPN"
    and "\<exists>certDER key T. Certificates conf = [([certDER], key)] \<and> CreateCertificate K T T (PublicKey K key) key = Inr certDER \<and>
      (\<forall>t. u - 3600 * second \<le> t \<and> t \<le> u + 86400 * second \<longrightarrow> NotBefore T \<le> t \<and> t \<le> NotAfter T)"
    and "InsecureSkipVerify (clientTLSConfig :: unit tls_config)"
proof -
  obtain key certDER where k: "CreateCertificate K (self_signed_template u) (self_signed_template u) (PublicKey K key) key = Inr certDER"
      "conf = \<lparr>Certificates = [([certDER], key)], NextProtos = [DirectQUICALPN], InsecureSkipVerify = False\<rparr>"
    using assms by (auto simp: generateSelfSignedTLS_def Let_def split: sum.splits)
  then show "find (\<lambda>p. p \<in> set (NextProtos (clientTLSConfig :: unit tls_config))) (NextProtos conf) = Some DirectQUICALPN"
    "InsecureSkipVerify (clientTLSConfig :: unit tls_config)" by (simp_all add: clientTLSConfig_def)
  have "\<forall>t. u - 3600 * second \<le> t \<and> t \<le> u + 86400 * second \<longrightarrow>
      NotBefore (self_signed_template u) \<le> t \<and> t \<le> NotAfter (self_signed_template u)"
    by (simp add: self_signed_template_def)
  then show "\<exists>certDER key T. Certificates conf = [([certDER], key)] \<and> CreateCertificate K T T (PublicKey K key) key = Inr certDER \<and>
      (\<forall>t. u - 3600 * second \<le> t \<and> t \<le> u + 86400 * second \<longrightarrow> NotBefore T \<le> t \<and> t \<le> NotAfter T)"
    using k by (intro exI [of _ certDER] exI [of _ key] exI [of _ "self_signed_template u"]) simp
qed

subsection \<open>Dialling, listening and accepting\<close>

text \<open>\<^verbatim>\<open>CloseWithError\<close> calls: code and reason.\<close>

type_synonym quic_close = "nat \<times> string"

text \<open>\<open>dial\<close> is \<^verbatim>\<open>Dial\<close> of a transport on the punched socket. The result is the connection or the error, the calls that close the connection, and the
  authentication stream, if it was opened, as it is left.\<close>

definition DirectDialQUIC ::
    "(unit tls_config \<Rightarrow> quic_config \<Rightarrow> error + 'q) \<Rightarrow> error + conn \<Rightarrow> bytes \<Rightarrow>
     ((error + 'q) \<times> quic_close list \<times> conn option) option" where
  "DirectDialQUIC dial opened sessionToken =
     (case dial clientTLSConfig defaultQUICConfig of
        Inl e \<Rightarrow> Some (Inl (Errorf ''QUIC dial: %w'' [FWrap e]), [], None)
      | Inr conn \<Rightarrow>
        (case opened of
           Inl e \<Rightarrow> Some (Inl (Errorf ''open auth stream: %w'' [FWrap e]), [(1, ''open auth stream failed'')], None)
         | Inr authStream \<Rightarrow> do {
             w \<leftarrow> conn_write authStream sessionToken;
             case w of
               ((_, Some e), st1) \<Rightarrow>
                 Some (Inl (Errorf ''write token: %w'' [FWrap e]), [(1, ''write token failed'')], Some st1)
             | ((_, None), st1) \<Rightarrow> do {
                 r \<leftarrow> ReadFull conn_read st1 1;
                 case r of
                   ((_, Some e), st2) \<Rightarrow>
                     Some (Inl (Errorf ''read auth response: %w'' [FWrap e]), [(1, ''read auth response failed'')], Some st2)
                 | ((resp, None), st2) \<Rightarrow>
                     let st3 = shut st2
                     in (case idx resp 0 of
                           None \<Rightarrow> None
                         | Some b \<Rightarrow>
                             if b \<noteq> 0x01
                             then Some (Inl (Errorf ''authentication rejected by server'' []), [(1, ''auth rejected'')], Some st3)
                             else Some (Inr conn, [], Some st3)) } }))"

text \<open>The transport and the listener; \<open>listen\<close> is \<^verbatim>\<open>Listen\<close> of a transport on the punched socket.\<close>

definition DirectListenQUIC ::
    "('k, 'p) crypto_lib \<Rightarrow> time \<Rightarrow> ('k tls_config \<Rightarrow> quic_config \<Rightarrow> error + 'l) \<Rightarrow> error + 'l" where
  "DirectListenQUIC K u listen =
     (case generateSelfSignedTLS K u of
        Inl e \<Rightarrow> Inl (Errorf ''generate TLS: %w'' [FWrap e])
      | Inr tlsConf \<Rightarrow>
        (case listen tlsConf defaultQUICConfig of
           Inl e \<Rightarrow> Inl (Errorf ''QUIC listen: %w'' [FWrap e])
         | Inr ln \<Rightarrow> Inr ln))"

definition AcceptAndAuthQUIC ::
    "error + 'q \<Rightarrow> error + conn \<Rightarrow> bytes \<Rightarrow> ((error + 'q) \<times> quic_close list \<times> conn option) option" where
  "AcceptAndAuthQUIC accepted stream expectedToken =
     (case accepted of
        Inl e \<Rightarrow> Some (Inl (Errorf ''accept QUIC: %w'' [FWrap e]), [], None)
      | Inr conn \<Rightarrow>
        (case stream of
           Inl e \<Rightarrow> Some (Inl (Errorf ''accept auth stream: %w'' [FWrap e]), [(1, ''no auth stream'')], None)
         | Inr authStream \<Rightarrow> do {
             r \<leftarrow> ReadFull conn_read authStream SessionTokenLen;
             case r of
               ((_, Some e), st1) \<Rightarrow>
                 Some (Inl (Errorf ''read token: %w'' [FWrap e]), [(1, ''read token failed'')], Some st1)
             | ((token, None), st1) \<Rightarrow>
                 if token \<noteq> expectedToken then do {
                   w \<leftarrow> conn_write st1 [0x00];
                   Some (Inl (Errorf ''session token mismatch'' []), [(1, ''bad token'')], Some (shut (snd w))) }
                 else do {
                   w \<leftarrow> conn_write st1 [0x01];
                   Some (Inr conn, [], Some (shut (snd w))) } }))"

section \<open>The server's handlers\<close>

definition DefaultSTUNServers :: "string list" where
  "DefaultSTUNServers = [''stun.l.google.com:19302'', ''stun1.l.google.com:19302'', ''stun.cloudflare.com:3478'']"

definition stun_servers :: "string list \<Rightarrow> string list" where
  "stun_servers configured = (if configured = [] then DefaultSTUNServers else configured)"

record nat_state =
  natInfo :: "NATInfo option"
  natDetected :: bool

definition detectNATType :: "(string list \<Rightarrow> NATInfo option \<times> error option) \<Rightarrow> string list \<Rightarrow> nat_state \<Rightarrow> nat_state" where
  "detectNATType detect configured s =
     (case detect (stun_servers configured) of
        (_, Some _) \<Rightarrow> s
      | (info, None) \<Rightarrow> s\<lparr>natInfo := info, natDetected := True\<rparr>)"

text \<open>A reset stream is closed without reading. \<open>create\<close> is \<^verbatim>\<open>CreatePunchSocket\<close> for a STUN server; the
  arguments returned are those of the goroutine \<^verbatim>\<open>handlePunchAndQUIC\<close>, with the session token.\<close>

definition handleHolePunchSignaling ::
    "json_lib \<Rightarrow> (error \<Rightarrow> string) \<Rightarrow> (string \<Rightarrow> sock set \<Rightarrow> (error + (sock \<times> NATInfo)) \<times> sock set) \<Rightarrow>
     (nat \<Rightarrow> bytes \<times> error option) \<Rightarrow> string list \<Rightarrow> nat_state \<Rightarrow> sock set \<Rightarrow> conn \<Rightarrow>
     ((punch_args \<times> bytes) option \<times> sock set \<times> conn) option" where
  "handleHolePunchSignaling J errText create rand configured s opened stream =
     (case natInfo s of
        None \<Rightarrow> Some (None, opened, shut stream)
      | Some info \<Rightarrow>
        if \<not> natDetected s then Some (None, opened, shut stream)
        else (case GenerateSessionToken rand of
            (_, Some e) \<Rightarrow> Some (None, opened, shut stream)
          | (sessionToken, None) \<Rightarrow>
              map_option (\<lambda>(_, started, opened', stream'). (map_option (\<lambda>a. (a, sessionToken)) started, opened', stream'))
                (ServerSignalingHandler J errText conn_read conn_write shut
                   (create (hd (stun_servers configured)))
                   (\<lambda>_. None) (nat_Type info) info sessionToken opened stream)))"

text \<open>The goroutine: the connection that is handed to \<^verbatim>\<open>handleQUICConnection\<close>, if any, and the open
  sockets. \<^verbatim>\<open>ln.Close\<close> does not close the socket of a transport that the caller created.\<close>

definition handlePunchAndQUIC ::
    "net_env \<Rightarrow> (string \<Rightarrow> bytes) \<Rightarrow> ('k, 'p) crypto_lib \<Rightarrow> time \<Rightarrow> ('k tls_config \<Rightarrow> quic_config \<Rightarrow> error + 'l) \<Rightarrow>
     error + 'q \<Rightarrow> error + conn \<Rightarrow> punch_args \<Rightarrow> bytes \<Rightarrow> sock set \<Rightarrow> ('q option \<times> sock set) option" where
  "handlePunchAndQUIC E v6 K u listen accepted stream args sessionToken opened =
     (case args of (punchSock, myNAT, clientNAT, method, tid) \<Rightarrow> do {
        r \<leftarrow> ExecutePunch E v6 myNAT clientNAT method tid punchSock opened;
        case r of
          (Inl e, opened1, _) \<Rightarrow> Some (None, close_opt punchSock opened1)
        | (Inr p, opened1, _) \<Rightarrow>
            (case DirectListenQUIC K u listen of
               Inl e \<Rightarrow> Some (None, close_all [pk_Conn p] opened1)
             | Inr ln \<Rightarrow> do {
                 a \<leftarrow> AcceptAndAuthQUIC accepted stream sessionToken;
                 case a of
                   (Inl e, _) \<Rightarrow> Some (None, opened1)
                 | (Inr quicConn, _) \<Rightarrow> Some (Some quicConn, opened1) }) })"

text \<open>What \<^verbatim>\<open>handleQUICConnection\<close> does with each stream it accepts, in order; \<open>Skipped\<close> streams are closed.
  The list ends when accepting fails.\<close>

datatype routed = ControlStream conn | DataStream conn bool | Skipped conn

fun handleQUICConnection :: "conn list \<Rightarrow> routed list option" where
  "handleQUICConnection [] = Some []"
| "handleQUICConnection (stream # rest) = do {
     r \<leftarrow> ReadFull conn_read stream 1;
     case r of
       ((_, Some e), st1) \<Rightarrow> map_option (Cons (Skipped (shut st1))) (handleQUICConnection rest)
     | ((typeBuf, None), st1) \<Rightarrow>
         (case idx typeBuf 0 of
            None \<Rightarrow> None
          | Some b \<Rightarrow>
              map_option (Cons
                (if b = StreamTypeControl then ControlStream st1
                 else if b = StreamTypeData then DataStream st1 False
                 else if b = StreamTypeDataZstd then DataStream st1 True
                 else Skipped (shut st1))) (handleQUICConnection rest)) }"

definition handleQUICDataStream ::
    "F2P_Service.Server \<Rightarrow> proto_lib \<Rightarrow> zstd_params \<Rightarrow> zstd_lib \<Rightarrow> (string \<Rightarrow> string \<Rightarrow> error + 'c) \<Rightarrow> bool \<Rightarrow> string \<Rightarrow>
     bool \<Rightarrow> conn \<Rightarrow> ((error + 'c proxy_action) option \<times> data_stream) option" where
  "handleQUICDataStream s Q P L dial authenticated clientPeer useZstd stream =
     (if \<not> authenticated then Some (None, Plain (shut stream))
      else map_option (map_prod Some id) (handleDataConnection s Q P L dial stream clientPeer useZstd))"

section \<open>Token authentication\<close>

lemma ReadFull_outward: "ReadFull conn_read c n = Some (r, c') \<Longrightarrow> outward c' = outward c"
  using ReadFull_keeps [of "\<lambda>c'. outward c' = outward c" conn_read c n, OF conn_read_keeps_out]
  by (auto simp: keeps_def)

lemma conn_write_returns: "\<exists>n eo c'. conn_write c p = Some ((n, eo), c')"
  by (auto simp: conn_write_def split: option.splits)

lemma conn_write_healthy:
  "conn_healthy c \<Longrightarrow> \<exists>c'. conn_write c p = Some ((length p, None), c') \<and> conn_view c' = conn_view c \<and>
     out_bytes c' = out_bytes c @ p"
  by (auto simp: conn_write_def conn_healthy_def conn_view_def)

text \<open>Whatever arrives on the authentication stream, the server's side returns, and it returns the
  connection exactly when the first 16 bytes are the session token; otherwise it closes the
  connection with an error.\<close>

theorem quic_auth_exact:
  assumes "conn_view st = (p, e)" and "length tok = SessionTokenLen"
  shows "\<exists>r closes st'. AcceptAndAuthQUIC (Inr q) (Inr st) tok = Some (r, closes, Some st') \<and>
    (r = Inr q \<and> closes = [] \<longleftrightarrow> take SessionTokenLen p = tok) \<and>
    (take SessionTokenLen p \<noteq> tok \<longrightarrow> (\<exists>err reason. r = Inl err \<and> closes = [(1, reason)]))"
proof (cases "SessionTokenLen \<le> length p")
  case False
  then have "length (take SessionTokenLen p) < SessionTokenLen" by simp
  then have "take SessionTokenLen p \<noteq> tok" using assms(2) by auto
  moreover obtain s1 where "ReadFull conn_read st SessionTokenLen = Some ((p, Some (short_read_error p e)), s1)"
    using cs.ReadFull_short [OF _ assms(1), of SessionTokenLen] False by auto
  ultimately show ?thesis by (simp add: AcceptAndAuthQUIC_def)
next
  case True
  obtain s1 where s1: "ReadFull conn_read st SessionTokenLen = Some ((take SessionTokenLen p, None), s1)"
    using cs.ReadFull_ok [OF _ assms(1) True] by auto
  obtain n eo s2 where "conn_write s1 (if take SessionTokenLen p = tok then [1] else [0]) = Some ((n, eo), s2)"
    using conn_write_returns by blast
  then show ?thesis using s1 by (auto simp: AcceptAndAuthQUIC_def split: if_splits)
qed

text \<open>The answer of the server to a token.\<close>

lemma AcceptAndAuthQUIC_answer:
  assumes "conn_view st = (t @ rest, e)" "conn_healthy st" "length t = SessionTokenLen"
  shows "\<exists>r closes st'. AcceptAndAuthQUIC (Inr q) (Inr st) tok = Some (r, closes, Some st') \<and>
    out_bytes st' = out_bytes st @ [if t = tok then 1 else 0] \<and> (r = Inr q \<longleftrightarrow> t = tok)"
proof -
  obtain s1 where s1: "ReadFull conn_read st SessionTokenLen = Some ((t, None), s1)"
    using cs.ReadFull_ok [OF _ assms(1), of SessionTokenLen] assms(3) by auto
  then have "conn_healthy s1" "out_bytes s1 = out_bytes st"
    using ReadFull_outward [OF s1] assms(2) by (simp_all add: outward_def)
  then obtain s2 where "conn_write s1 [if t = tok then 1 else 0] = Some ((1, None), s2)"
      "out_bytes s2 = out_bytes st @ [if t = tok then 1 else 0]"
    using conn_write_healthy [of s1 "[if t = tok then 1 else 0]"] by auto
  then show ?thesis using s1 by (cases "t = tok") (auto simp: AcceptAndAuthQUIC_def)
qed

lemma DirectDialQUIC_answer:
  assumes "conn_view c = (b # rest, e)" "conn_healthy c"
  shows "\<exists>r closes c'. DirectDialQUIC (\<lambda>_ _. Inr q) (Inr c) t = Some (r, closes, Some c') \<and>
    out_bytes c' = out_bytes c @ t \<and> (r = Inr q \<longleftrightarrow> b = 1) \<and> (closes = [] \<longleftrightarrow> b = 1)"
proof -
  obtain c1 where c1: "conn_write c t = Some ((length t, None), c1)" "conn_view c1 = (b # rest, e)"
      "out_bytes c1 = out_bytes c @ t"
    using conn_write_healthy [OF assms(2), of t] assms(1) by auto
  obtain c2 where c2: "ReadFull conn_read c1 1 = Some (([b], None), c2)"
    using cs.ReadFull_ok [OF _ c1(2), of 1] by auto
  then show ?thesis
    using c1 ReadFull_outward [OF c2] by (auto simp: DirectDialQUIC_def idx_def outward_def Let_def)
qed

text \<open>C24: over a healthy connection both sides come to the same decision, which is that the client's
  token is the one the server gave out: the server sees the client's bytes, the client the server's.\<close>

theorem quic_auth_agreement:
  assumes "length t = SessionTokenLen"
    and "conn_view ss = (t @ rest, e)" "conn_healthy ss"
    and "AcceptAndAuthQUIC (Inr q) (Inr ss) tok = Some (rs, closes, Some ss')"
    and "conn_view cs = (drop (length (out_bytes ss)) (out_bytes ss') @ rest', e')" "conn_healthy cs"
  shows "\<exists>rc closes' cs'. DirectDialQUIC (\<lambda>_ _. Inr q') (Inr cs) t = Some (rc, closes', Some cs') \<and>
    out_bytes cs' = out_bytes cs @ t \<and> (rs = Inr q \<longleftrightarrow> t = tok) \<and> (rc = Inr q' \<longleftrightarrow> t = tok)"
proof -
  have "out_bytes ss' = out_bytes ss @ [if t = tok then 1 else 0]" and r: "rs = Inr q \<longleftrightarrow> t = tok"
    using AcceptAndAuthQUIC_answer [OF assms(2,3,1), of q tok] assms(4) by auto
  then have "conn_view cs = ((if t = tok then 1 else 0) # rest', e')" using assms(5) by simp
  from DirectDialQUIC_answer [OF this assms(6), of q' t] r show ?thesis by (auto split: if_splits)
qed

section \<open>Routing\<close>

definition route_of :: "conn \<Rightarrow> routed \<Rightarrow> bool" where
  "route_of st r = (case fst (conn_view st) of
     [] \<Rightarrow> (\<exists>st'. r = Skipped st' \<and> is_closed st')
   | b # p \<Rightarrow> \<exists>st'. conn_view st' = (p, snd (conn_view st)) \<and>
       r = (if b = 1 then ControlStream st' else if b = 2 then DataStream st' False
            else if b = 3 then DataStream st' True else Skipped st') \<and>
       (b \<notin> {1, 2, 3} \<longrightarrow> is_closed st'))"

text \<open>Every stream of a direct connection is routed, in the order of arrival, by its first byte:
  to the control handler, to the data handler without or with compression, and closed when the byte
  is unknown or missing; a routed stream is left at its second byte.\<close>

theorem quic_routing:
  "\<exists>rs. handleQUICConnection streams = Some rs \<and> list_all2 route_of streams rs"
proof (induction streams)
  case (Cons st streams)
  then obtain rs where rs: "handleQUICConnection streams = Some rs" "list_all2 route_of streams rs" by blast
  obtain p e where v: "conn_view st = (p, e)" by (cases "conn_view st")
  have "\<exists>r. handleQUICConnection (st # streams) = Some (r # rs) \<and> route_of st r"
  proof (cases p)
    case Nil
    obtain s1 where "ReadFull conn_read st 1 = Some (([], Some (short_read_error [] e)), s1)"
      using cs.ReadFull_short [OF _ v, of 1] Nil by auto
    then have "handleQUICConnection (st # streams) = Some (Skipped (shut s1) # rs)" using rs(1) by simp
    moreover have "route_of st (Skipped (shut s1))" using v Nil by (simp add: route_of_def shut_def conn_close_def)
    ultimately show ?thesis by blast
  next
    case (Cons b p')
    obtain s1 where s1: "ReadFull conn_read st 1 = Some (([b], None), s1)" "conn_view s1 = (p', e)"
      using cs.ReadFull_ok [OF _ v, of 1] Cons by auto
    let ?r = "if b = 1 then ControlStream s1 else if b = 2 then DataStream s1 False
        else if b = 3 then DataStream s1 True else Skipped (shut s1)"
    have "handleQUICConnection (st # streams) = Some (?r # rs)"
      using s1(1) rs(1) by (simp add: idx_def StreamTypeControl_def StreamTypeData_def StreamTypeDataZstd_def)
    moreover have "conn_view (shut s1) = (p', e)" "is_closed (shut s1)"
      using s1(2) by (simp_all add: shut_def conn_close_def conn_view_def)
    then have "route_of st ?r" using s1(2) by (simp add: route_of_def v Cons)
    ultimately show ?thesis by blast
  qed
  then show ?case using rs(2) by auto
qed simp

section \<open>Data over QUIC\<close>

text \<open>A data stream of a direct connection reaches a target only for an authenticated peer, and only
  the configured target of a request the configuration allows.\<close>

theorem quic_data_stream_target:
  assumes "handleQUICDataStream (NewServer cfg) Q P L dial auth peer useZstd stream =
             Some (Some (Inr (Proxy c)), stream')"
  shows "auth \<and> (\<exists>msg service. first_message Q L useZstd peer stream msg \<and>
      request_allowed cfg msg service \<and> service \<in> set (s_Services (F2P_Config.Config.Server cfg)) \<and>
      m_Protocol msg \<in> {''tcp'', ''udp''} \<and> dial (m_Protocol msg) (sc_Target service) = Inr c)"
proof -
  have a: auth and h: "handleDataConnection (NewServer cfg) Q P L dial stream peer useZstd = Some (Inr (Proxy c), stream')"
    using assms by (auto simp: handleQUICDataStream_def split: if_splits)
  show ?thesis using a data_connection_target [OF h] by simp
qed

section \<open>Sockets of the server\<close>

lemma AcceptAndAuthQUIC_returns: "AcceptAndAuthQUIC accepted stream tok \<noteq> None"
proof (cases stream)
  case (Inr st)
  show ?thesis
  proof (cases accepted)
    case (Inr q)
    obtain p e where v: "conn_view st = (p, e)" by (cases "conn_view st")
    obtain bs eo s1 where r: "ReadFull conn_read st SessionTokenLen = Some ((bs, eo), s1)"
      using cs.ReadFull_ok [OF _ v, of SessionTokenLen] cs.ReadFull_short [OF _ v, of SessionTokenLen]
      by (metis not_le)
    obtain n0 e0 t0 n1 e1 t1 where "conn_write s1 [0] = Some ((n0, e0), t0)" "conn_write s1 [1] = Some ((n1, e1), t1)"
      using conn_write_returns by metis
    then show ?thesis using r Inr \<open>stream = Inr st\<close> by (cases eo) (auto simp: AcceptAndAuthQUIC_def)
  qed (simp add: AcceptAndAuthQUIC_def)
qed (simp add: AcceptAndAuthQUIC_def split: sum.split)

text \<open>C40: a server whose punch fails closes the punch socket of the session and leaves the others as
  they were, and a punched socket on which it cannot listen is closed. When it can listen, the
  goroutine ends with the punched socket still open even if the client does not authenticate:
  nothing closes it any more.\<close>

theorem punched_socket_left_open:
  assumes "ExecutePunch E v6 myNAT cNAT m tid ps opened = Some (r, opened1, sent)"
    and "fresh_sockets (ne_listen E) opened" and "\<And>s. ps = Some s \<Longrightarrow> s \<in> opened"
  shows "case r of
      Inl e \<Rightarrow> handlePunchAndQUIC E v6 K u listen accepted stream (ps, myNAT, cNAT, m, tid) tok opened =
        Some (None, opened - set_option ps)
    | Inr p \<Rightarrow>
        if isl (DirectListenQUIC K u listen)
        then handlePunchAndQUIC E v6 K u listen accepted stream (ps, myNAT, cNAT, m, tid) tok opened =
          Some (None, opened - {pk_Conn p})
        else \<exists>q. handlePunchAndQUIC E v6 K u listen accepted stream (ps, myNAT, cNAT, m, tid) tok opened =
          Some (q, insert (pk_Conn p) opened)"
proof -
  have o1: "opened1 = sockets_after r opened"
    using punch_sockets_after [OF assms] .
  obtain ra x where a: "AcceptAndAuthQUIC accepted stream tok = Some (ra, x)"
    using AcceptAndAuthQUIC_returns [of accepted stream tok] by auto
  show ?thesis
  proof (cases r)
    case (Inl e)
    then show ?thesis using assms(1) o1
      by (auto simp: handlePunchAndQUIC_def close_opt_def close_all_def sockets_after_def split: option.splits)
  next
    case (Inr p)
    then show ?thesis using assms(1) o1 a
      by (auto simp: handlePunchAndQUIC_def close_all_def sockets_after_def isl_def
          split: option.splits sum.splits)
  qed
qed

section \<open>NAT detection of the server\<close>

text \<open>Punching is offered only after a detection that gave NAT information.\<close>

lemma DetectNAT_info: "DetectNAT l1 q l2 x servers = (info, None) \<Longrightarrow> info \<noteq> None"
  by (auto simp: DetectNAT_def Let_def split: if_splits option.splits list.splits sum.splits)


section \<open>Witnesses\<close>

definition example_token :: bytes where "example_token = replicate 16 9"

lemma example_token_length: "length example_token = SessionTokenLen"
  by (simp add: example_token_def SessionTokenLen_def)

theorem quic_auth_exact_witness:
  "\<exists>st'. AcceptAndAuthQUIC (Inr 5 :: error + nat) (Inr (example_conn example_token)) example_token = Some (Inr 5, [], Some st')"
  using quic_auth_exact [of "example_conn example_token" example_token EOF example_token "5 :: nat"] example_token_length
  by auto

theorem quic_auth_agreement_witness:
  "\<exists>ss' rc closes' cs'.
     AcceptAndAuthQUIC (Inr 5 :: error + nat) (Inr (example_conn (example_token))) (replicate 16 8) =
       Some (Inl (Errorf ''session token mismatch'' []), [(1, ''bad token'')], Some ss') \<and>
     DirectDialQUIC (\<lambda>_ _. Inr 6 :: error + nat) (Inr (example_conn (out_bytes ss'))) example_token = Some (rc, closes', Some cs') \<and>
     rc \<noteq> Inr 6"
proof -
  have neq: "example_token \<noteq> replicate 16 8" by (simp add: example_token_def numeral_eq_Suc)
  have v: "conn_view (example_conn example_token) = (example_token @ [], EOF)" by simp
  obtain s1 where s1: "ReadFull conn_read (example_conn example_token) SessionTokenLen = Some ((example_token, None), s1)"
    using cs.ReadFull_ok [OF _ v, of SessionTokenLen] example_token_length by auto
  obtain w s2 where "conn_write s1 [0] = Some (w, s2)" using conn_write_returns by (metis prod.exhaust)
  then have server: "AcceptAndAuthQUIC (Inr 5 :: error + nat) (Inr (example_conn (example_token))) (replicate 16 8) =
       Some (Inl (Errorf ''session token mismatch'' []), [(1, ''bad token'')], Some (shut s2))"
    using s1 neq by (simp add: AcceptAndAuthQUIC_def)
  have c: "conn_view (example_conn (out_bytes (shut s2))) =
      (drop (length (out_bytes (example_conn example_token))) (out_bytes (shut s2)) @ [], EOF)"
    by simp
  have "\<exists>rc closes' cs'. DirectDialQUIC (\<lambda>_ _. Inr 6 :: error + nat) (Inr (example_conn (out_bytes (shut s2)))) example_token =
      Some (rc, closes', Some cs') \<and> out_bytes cs' = out_bytes (example_conn (out_bytes (shut s2))) @ example_token \<and>
      (Inl (Errorf ''session token mismatch'' []) = Inr (5 :: nat) \<longleftrightarrow> example_token = replicate 16 8) \<and>
      (rc = Inr 6 \<longleftrightarrow> example_token = replicate 16 8)"
    by (rule quic_auth_agreement [OF example_token_length v _ server c]) simp_all
  then show ?thesis using server neq by blast
qed

theorem quic_data_stream_target_witness:
  "\<exists>msg service. request_allowed example_server_config msg service \<and> sc_Target service = ''127.0.0.1:22''"
proof -
  obtain st' where "handleDataStream (NewServer example_server_config) request_proto default_zstd_params example_zstd
       (\<lambda>net addr. if addr = ''127.0.0.1:22'' then Inr net else Inl EOF) True ''/f2p/data'' ''peer'' request_stream
     = Some (Some (Inr (Proxy ''tcp'')), st')" using example_data by blast
  then have "handleQUICDataStream (NewServer example_server_config) request_proto default_zstd_params example_zstd
       (\<lambda>net addr. if addr = ''127.0.0.1:22'' then Inr net else Inl EOF) True ''peer'' False request_stream
     = Some (Some (Inr (Proxy ''tcp'')), st')"
    by (simp add: handleDataStream_def handleQUICDataStream_def HasSuffix_def)
  from quic_data_stream_target [OF this] show ?thesis by (auto split: if_splits)
qed

definition example_crypto :: "(nat, nat) crypto_lib" where
  "example_crypto = \<lparr>GenerateKey = Inr 3, PublicKey = Suc, CreateCertificate = (\<lambda>_ _ _ _. Inr [48])\<rparr>"

theorem punched_socket_left_open_witness:
  "\<exists>q. handlePunchAndQUIC (example_env [example_reply]) no_v6 example_crypto 0 (\<lambda>_ _. Inr ()) (Inl EOF :: error + unit) (Inl EOF)
     (Some 1, example_nat NATCone, example_nat NATCone, PunchConeToCone, 7) example_token {1} = Some (q, {1})"
proof -
  obtain sent where X: "ExecutePunch (example_env [example_reply]) no_v6 (example_nat NATCone) (example_nat NATCone)
     PunchConeToCone 7 (Some 1) {1} = Some (Inr (punched (example_env [example_reply]) 1 example_peer), {1}, sent)"
    using example_punch by blast
  show ?thesis
    using punched_socket_left_open [OF X example_fresh, where K = example_crypto and u = 0 and listen = "\<lambda>_ _. Inr ()"
        and accepted = "Inl EOF :: error + unit" and stream = "Inl EOF" and tok = example_token]
    by (simp add: punched_def DirectListenQUIC_def generateSelfSignedTLS_def example_crypto_def)
qed

end
