(* ===== verification/F2P_Client.thy ===== *)
theory F2P_Client
  imports F2P_Direct
begin

text \<open>
  Package \<^verbatim>\<open>internal/client\<close>. The struct is the record \<open>Client\<close>; streams, dispatchers and QUIC connections
  are handles (numbers) and what the client does to them is the log \<open>effects\<close>. Locks are not
  modelled: each operation holds its lock for the whole of its body. libp2p, the DHT and QUIC are
  arguments: the outcome of finding, connecting, opening. The answers of \<^verbatim>\<open>WaitFor\<close> are arguments too.
  The lemmas show the retry delays, which of several reasons of a shutdown is reported, that a new
  connection cycle starts from a clean state, that a failed hole punch leaks no socket, what a
  heartbeat keeps alive, and that the client and the server agree on an authentication and on a
  service request.
\<close>

section \<open>State\<close>

text \<open>\<open>ClosePeer\<close> closes the libp2p connections to the server, \<open>Notify\<close> is the shutdown notification on a
  messager, \<open>Listen\<close> a local listener that was started.\<close>

datatype effect =
    CloseStream nat | CloseDispatcher nat | CloseQUIC nat string | ClosePeerConns | Notify nat
  | Tag | StartListener string string | StartMonitor

record Client =
  cl_config :: Config
  localServices :: "string \<rightharpoonup> LocalServiceConfig"
  controlStream :: "nat option"
  controlMessager :: "nat option"
  controlDispatcher :: "nat option"
  serviceCompress :: "string \<rightharpoonup> bool"
  servicesStarted :: bool
  backoff :: duration
  backoffMax :: duration
  cachedServerPassword :: string
  hasCachedServerPassword :: bool
  shutdownReason :: string
  stopping :: bool
  cancelled :: bool
  directConn :: "nat option"
  cl_nat :: nat_state
  quicCtrlClose :: "nat option"
  effects :: "effect list"

definition effect :: "effect \<Rightarrow> Client \<Rightarrow> Client" where
  "effect e c = c\<lparr>effects := effects c @ [e]\<rparr>"

definition effect_opt :: "(nat \<Rightarrow> effect) \<Rightarrow> nat option \<Rightarrow> Client \<Rightarrow> Client" where
  "effect_opt f x c = (case x of None \<Rightarrow> c | Some n \<Rightarrow> effect (f n) c)"

fun add_local :: "LocalServiceConfig list \<Rightarrow> (string \<rightharpoonup> LocalServiceConfig) \<Rightarrow> (string \<rightharpoonup> LocalServiceConfig)" where
  "add_local [] m = m"
| "add_local (service # ss) m = add_local ss (m(lc_Name service \<mapsto> service))"

definition no_nat :: nat_state where
  "no_nat = \<lparr>natInfo = None, natDetected = False\<rparr>"

definition NewClient :: "Config \<Rightarrow> Client" where
  "NewClient cfg =
     \<lparr>cl_config = cfg, localServices = add_local (c_Services (F2P_Config.Config.Client cfg)) Map.empty,
      controlStream = None, controlMessager = None, controlDispatcher = None, serviceCompress = Map.empty,
      servicesStarted = False, backoff = 1 * second, backoffMax = 60 * second, cachedServerPassword = [],
      hasCachedServerPassword = False, shutdownReason = [], stopping = False, cancelled = False,
      directConn = None, cl_nat = no_nat, quicCtrlClose = None, effects = []\<rparr>"

section \<open>Small operations\<close>

definition ResetBackoff :: "Client \<Rightarrow> Client" where
  "ResetBackoff c = c\<lparr>backoff := 1 * second\<rparr>"

definition GetBackoff :: "Client \<Rightarrow> duration" where
  "GetBackoff c = backoff c"

text \<open>\<^verbatim>\<open>time.Duration(float64(c.backoff) * 1.5)\<close>: the product is exact for delays below \<open>2 ^ 52\<close>
  nanoseconds, which is 52 days, and the conversion drops the half.\<close>

definition IncreaseBackoff :: "Client \<Rightarrow> Client" where
  "IncreaseBackoff c =
     (let nxt = backoff c * 3 div 2
      in c\<lparr>backoff := (if nxt > backoffMax c then backoffMax c else nxt)\<rparr>)"

definition setShutdownReason :: "string \<Rightarrow> Client \<Rightarrow> Client" where
  "setShutdownReason r c = (if shutdownReason c = [] then c\<lparr>shutdownReason := r\<rparr> else c)"

definition SetShutdownReason :: "string \<Rightarrow> Client \<Rightarrow> Client" where
  "SetShutdownReason r c = setShutdownReason r c"

definition cancel :: "Client \<Rightarrow> Client" where
  "cancel c = c\<lparr>cancelled := True\<rparr>"

definition generateClientKey :: "'k key_lib \<Rightarrow> Client \<Rightarrow> error + 'k" where
  "generateClientKey K c =
     (if PrivateKey (Identity (cl_config c)) \<noteq> [] then
        (case LoadPrivateKeyFromB64 K (PrivateKey (Identity (cl_config c))) of
           Inr privKey \<Rightarrow> Inr privKey
         | Inl _ \<Rightarrow> GenerateEd25519Key K)
      else GenerateEd25519Key K)"

definition client_detectNATType :: "(string list \<Rightarrow> NATInfo option \<times> error option) \<Rightarrow> Client \<Rightarrow> Client" where
  "client_detectNATType detect c =
     (case detect (stun_servers (StunServers (Common (cl_config c)))) of
        (_, Some _) \<Rightarrow> c
      | (info, None) \<Rightarrow> c\<lparr>cl_nat := \<lparr>natInfo = info, natDetected = True\<rparr>\<rparr>)"

section \<open>Cleaning up\<close>

definition cleanupDirectConn :: "string \<Rightarrow> Client \<Rightarrow> bool \<times> Client" where
  "cleanupDirectConn reason c =
     (case directConn c of
        None \<Rightarrow> (False, c)
      | Some dc \<Rightarrow> (True, effect (CloseQUIC dc reason) (c\<lparr>directConn := None\<rparr>)))"

definition closeControlStream :: "Client \<Rightarrow> Client" where
  "closeControlStream c =
     (let c1 = effect_opt CloseStream (controlStream c) c;
          c2 = effect_opt CloseStream (quicCtrlClose c) c1
      in case cleanupDirectConn ''control stream closed'' c2 of
           (True, c3) \<Rightarrow> c3
         | (False, c3) \<Rightarrow> effect ClosePeerConns c3)"

definition cleanupPreviousConnection :: "Client \<Rightarrow> Client" where
  "cleanupPreviousConnection c =
     (let c1 = (effect_opt CloseDispatcher (controlDispatcher c) c)\<lparr>controlDispatcher := None, controlMessager := None\<rparr>;
          cs = controlStream c1;
          qc = quicCtrlClose c1;
          c2 = c1\<lparr>controlStream := None, quicCtrlClose := None\<rparr>;
          c3 = effect_opt CloseStream qc (effect_opt CloseStream cs c2);
          c4 = snd (cleanupDirectConn ''new connection cycle'' c3);
          c5 = c4\<lparr>cl_nat := no_nat\<rparr>
      in effect ClosePeerConns c5)"

text \<open>\<open>Stop\<close>; the closing of the DHT and of the host is not part of the state.\<close>

definition Client_Stop :: "Client \<Rightarrow> Client" where
  "Client_Stop c =
     (let cs = controlStream c;
          qc = quicCtrlClose c;
          c1 = c\<lparr>stopping := True\<rparr>;
          c2 = (if cs \<noteq> None \<or> qc \<noteq> None
                then effect_opt CloseStream qc (effect_opt CloseStream cs (effect_opt Notify (controlMessager c1) c1))
                else c1);
          c3 = effect_opt CloseDispatcher (controlDispatcher c2) c2;
          c4 = cancel c3
      in snd (cleanupDirectConn ''client shutdown'' c4))"

section \<open>Handshakes\<close>

text \<open>The name of an error code, as \<^verbatim>\<open>%s\<close> prints it.\<close>

fun code_name :: "ErrorCode \<Rightarrow> string" where
  "code_name NO_ERROR = ''NO_ERROR''"
| "code_name SERVICE_NOT_FOUND = ''SERVICE_NOT_FOUND''"
| "code_name PROTOCOL_NOT_SUPPORTED = ''PROTOCOL_NOT_SUPPORTED''"
| "code_name SERVICE_DISABLED = ''SERVICE_DISABLED''"
| "code_name INVALID_PASSWORD = ''INVALID_PASSWORD''"
| "code_name PASSWORD_REQUIRED_ERROR = ''PASSWORD_REQUIRED_ERROR''"
| "code_name AUTH_FAILED = ''AUTH_FAILED''"
| "code_name (ErrorCode_other n) = (if n < 0 then ''-'' @ itoa (nat (- n)) else itoa (nat n))"

definition detailed :: "string \<Rightarrow> string \<Rightarrow> UnifiedMessage \<Rightarrow> string" where
  "detailed serviceName protocolType resp =
     (case m_ErrorCode resp of
        SERVICE_NOT_FOUND \<Rightarrow>
          ''Service '' @ quoted serviceName @ '' not found on server. Please check your configuration.''
      | PROTOCOL_NOT_SUPPORTED \<Rightarrow>
          ''Protocol '' @ quoted protocolType @ '' not supported for service '' @ quoted serviceName @ ''. '' @ m_Message resp
      | SERVICE_DISABLED \<Rightarrow>
          ''Service '' @ quoted serviceName @ '' is disabled on server. Please contact server administrator.''
      | PASSWORD_REQUIRED_ERROR \<Rightarrow>
          ''Password required for service '' @ quoted serviceName @ ''. Please set service password in client configuration.''
      | INVALID_PASSWORD \<Rightarrow>
          ''Invalid password for service '' @ quoted serviceName @ ''. Please check service password in configuration.''
      | _ \<Rightarrow> m_Message resp)"

text \<open>\<open>wait\<close> is \<^verbatim>\<open>WaitFor\<close> on the control stream, or \<^verbatim>\<open>ReceiveOne\<close> on a data stream.\<close>

definition checkServiceAvailability ::
    "proto_lib \<Rightarrow> 's writer \<Rightarrow> ('s \<Rightarrow> ((error + UnifiedMessage) \<times> 's) option) \<Rightarrow> 's \<Rightarrow> string \<Rightarrow> string \<Rightarrow> string \<Rightarrow>
     ((error + UnifiedMessage) \<times> 's) option" where
  "checkServiceAvailability Q wr wait st serviceName protocolType servicePassword = do {
     w \<leftarrow> SendServiceRequest Q wr st serviceName protocolType servicePassword;
     case w of
       (Some e, st1) \<Rightarrow> Some (Inl (Errorf ''service verification failed: %v'' [FErr e]), st1)
     | (None, st1) \<Rightarrow> do {
         r \<leftarrow> wait st1;
         case r of
           (Inl e, st2) \<Rightarrow> Some (Inl (Errorf ''service verification failed: %v'' [FErr e]), st2)
         | (Inr resp, st2) \<Rightarrow>
             if m_Type resp \<noteq> SERVICE_RESPONSE
             then Some (Inl (Errorf ''service verification failed: unexpected message type %s'' [FStr (type_name (m_Type resp))]), st2)
             else if \<not> m_Success resp then
               (if m_ErrorCode resp \<noteq> NO_ERROR
                then Some (Inl (Errorf ''[%s] %s'' [FStr (code_name (m_ErrorCode resp)), FStr (detailed serviceName protocolType resp)]), st2)
                else Some (Inl (Errorf ''service verification failed: %s'' [FStr (detailed serviceName protocolType resp)]), st2))
             else Some (Inr resp, st2) } }"

definition verifyServiceOnControlStream ::
    "proto_lib \<Rightarrow> 's writer \<Rightarrow> ('s \<Rightarrow> ((error + UnifiedMessage) \<times> 's) option) \<Rightarrow> string \<Rightarrow> string \<Rightarrow> string \<Rightarrow>
     Client \<Rightarrow> 's \<Rightarrow> (error option \<times> Client \<times> 's) option" where
  "verifyServiceOnControlStream Q wr wait serviceName protocolType servicePassword c st =
     (if controlDispatcher c = None \<or> controlMessager c = None
      then Some (Some (Errorf ''control dispatcher not ready'' []), c, st)
      else do {
        r \<leftarrow> checkServiceAvailability Q wr wait st serviceName protocolType servicePassword;
        case r of
          (Inl e, st1) \<Rightarrow> Some (Some e, c, st1)
        | (Inr resp, st1) \<Rightarrow>
            (case m_Data resp ''zstd'' of
               Some v \<Rightarrow> Some (None, c\<lparr>serviceCompress := (serviceCompress c)(serviceName \<mapsto> EqualFold v ''true'')\<rparr>, st1)
             | None \<Rightarrow> Some (None, c, st1)) })"

fun verify_protocols ::
    "proto_lib \<Rightarrow> 's writer \<Rightarrow> ('s \<Rightarrow> ((error + UnifiedMessage) \<times> 's) option) \<Rightarrow> LocalServiceConfig \<Rightarrow> string list \<Rightarrow>
     Client \<Rightarrow> 's \<Rightarrow> (error option \<times> Client \<times> 's) option" where
  "verify_protocols Q wr wait service [] c st = Some (None, c, st)"
| "verify_protocols Q wr wait service (p # ps) c st = do {
     r \<leftarrow> verifyServiceOnControlStream Q wr wait (lc_Name service) p (lc_Password service) c st;
     case r of
       (Some e, c1, st1) \<Rightarrow> Some (Some e, c1, st1)
     | (None, c1, st1) \<Rightarrow> verify_protocols Q wr wait service ps c1 st1 }"

fun verify_services ::
    "proto_lib \<Rightarrow> 's writer \<Rightarrow> ('s \<Rightarrow> ((error + UnifiedMessage) \<times> 's) option) \<Rightarrow> LocalServiceConfig list \<Rightarrow>
     Client \<Rightarrow> 's \<Rightarrow> (error option \<times> Client \<times> 's) option" where
  "verify_services Q wr wait [] c st = Some (None, c, st)"
| "verify_services Q wr wait (service # ss) c st =
     (if \<not> lc_Enabled service then verify_services Q wr wait ss c st
      else do {
        r \<leftarrow> verify_protocols Q wr wait service (lc_Protocol service) c st;
        case r of
          (Some e, c1, st1) \<Rightarrow> Some (Some e, c1, st1)
        | (None, c1, st1) \<Rightarrow> verify_services Q wr wait ss c1 st1 })"

definition verifyServiceConfiguration where
  "verifyServiceConfiguration Q wr wait c st =
     verify_services Q wr wait (c_Services (F2P_Config.Config.Client (cl_config c))) c st"

text \<open>\<open>asked\<close> is what \<^verbatim>\<open>AskPassword\<close> returns if it is called.\<close>

definition authenticateWithServer ::
    "proto_lib \<Rightarrow> 's writer \<Rightarrow> (MessageType \<Rightarrow> 's \<Rightarrow> ((error + UnifiedMessage) \<times> 's) option) \<Rightarrow> error + string \<Rightarrow>
     Client \<Rightarrow> 's \<Rightarrow> (error option \<times> Client \<times> 's) option" where
  "authenticateWithServer Q wr wait asked c st =
     (if controlDispatcher c = None \<or> controlMessager c = None
      then Some (Some (Errorf ''dispatcher not initialized'' []), c, st)
      else do {
        r \<leftarrow> wait PASSWORD_REQUIRED st;
        case r of
          (Inl e, st1) \<Rightarrow> Some (Some (Errorf ''failed to receive password requirement: %v'' [FErr e]), c, st1)
        | (Inr msg, st1) \<Rightarrow>
          (case (if m_RequirePassword msg
                 then (if hasCachedServerPassword c then Inr (cachedServerPassword c) else asked)
                 else Inr []) of
             Inl e \<Rightarrow>
               if errors_is e ErrPasswordInterrupted
               then map_option (\<lambda>(_, st2). (Some e, c, st2)) (SendClientShutdownNotification Q wr st1)
               else Some (Some (Errorf ''failed to read password: %v'' [FErr e]), c, st1)
           | Inr password \<Rightarrow> do {
               w \<leftarrow> SendAuthRequest Q wr st1 password;
               case w of
                 (Some e, st2) \<Rightarrow> Some (Some (Errorf ''failed to send auth request: %v'' [FErr e]), c, st2)
               | (None, st2) \<Rightarrow> do {
                   r2 \<leftarrow> wait AUTH_RESPONSE st2;
                   case r2 of
                     (Inl e, st3) \<Rightarrow> Some (Some (Errorf ''failed to receive auth response: %v'' [FErr e]), c, st3)
                   | (Inr resp, st3) \<Rightarrow>
                       if m_Type resp \<noteq> AUTH_RESPONSE
                       then Some (Some (Errorf ''expected auth_response, got %s'' [FStr (type_name (m_Type resp))]), c, st3)
                       else if \<not> m_Success resp
                       then Some (Some (Errorf ''authentication failed: %s'' [FStr (m_Message resp)]),
                                  c\<lparr>cachedServerPassword := [], hasCachedServerPassword := False\<rparr>, st3)
                       else if m_RequirePassword msg \<and> \<not> hasCachedServerPassword c
                       then Some (None, c\<lparr>cachedServerPassword := password, hasCachedServerPassword := True\<rparr>, st3)
                       else Some (None, c, st3) } }) })"

section \<open>Local services\<close>

definition startLocalService :: "LocalServiceConfig \<Rightarrow> Client \<Rightarrow> Client" where
  "startLocalService localService c =
     fold (\<lambda>protocolType c. if protocolType = ''tcp'' then effect (StartListener ''tcp'' (lc_Local localService)) c
             else if protocolType = ''udp'' then effect (StartListener ''udp'' (lc_Local localService)) c
             else c)
       (lc_Protocol localService) c"

text \<open>The services of the map, in the order of the configuration; in the source the order is arbitrary and
  every listener is a goroutine of its own.\<close>

definition startLocalServices :: "Client \<Rightarrow> Client" where
  "startLocalServices c =
     fold (\<lambda>name c. case localServices c name of
             None \<Rightarrow> c
           | Some localService \<Rightarrow> if \<not> lc_Enabled localService then c else startLocalService localService c)
       (remdups (map lc_Name (c_Services (F2P_Config.Config.Client (cl_config c))))) c"

text \<open>\<^verbatim>\<open>startServicesOnce.Do\<close>.\<close>

definition startServicesOnce :: "Client \<Rightarrow> Client" where
  "startServicesOnce c = (if servicesStarted c then c else startLocalServices (c\<lparr>servicesStarted := True\<rparr>))"

text \<open>The connections for which an accept loop starts a handler: the TCP loop goes on after every error,
  the UDP loop ends with an error after the client was cancelled (the flag).\<close>

fun tcp_accept_loop :: "(error + 'c) list \<Rightarrow> 'c list" where
  "tcp_accept_loop [] = []"
| "tcp_accept_loop (Inl e # rs) = tcp_accept_loop rs"
| "tcp_accept_loop (Inr localConn # rs) = localConn # tcp_accept_loop rs"

definition startTCPService :: "error + 'l \<Rightarrow> (error + 'c) list \<Rightarrow> 'c list" where
  "startTCPService listened accepts =
     (case listened of Inl e \<Rightarrow> [] | Inr ln \<Rightarrow> tcp_accept_loop accepts)"

fun udp_accept_loop :: "(bool \<times> (error + 'c)) list \<Rightarrow> 'c list" where
  "udp_accept_loop [] = []"
| "udp_accept_loop ((ctxDone, Inl e) # rs) = (if ctxDone then [] else udp_accept_loop rs)"
| "udp_accept_loop ((ctxDone, Inr conn) # rs) = conn # udp_accept_loop rs"

definition startUDPService :: "error + 'a \<Rightarrow> ('a \<Rightarrow> error + 'l) \<Rightarrow> (bool \<times> (error + 'c)) list \<Rightarrow> 'c list" where
  "startUDPService resolved listen accepts =
     (case resolved of Inl e \<Rightarrow> []
      | Inr addr \<Rightarrow> (case listen addr of Inl e \<Rightarrow> [] | Inr ln \<Rightarrow> udp_accept_loop accepts))"

section \<open>The control protocol of a connection\<close>

text \<open>What the control stream is: the messager's writer, \<^verbatim>\<open>WaitFor\<close> for a type, and the password typed.\<close>

record 's ctl_env =
  ce_proto :: proto_lib
  ce_write :: "'s writer"
  ce_wait :: "MessageType \<Rightarrow> 's \<Rightarrow> ((error + UnifiedMessage) \<times> 's) option"
  ce_asked :: "error + string"

text \<open>The common part of \<^verbatim>\<open>setupQUICProtocol\<close> and \<^verbatim>\<open>setupLibp2pProtocol\<close>; \<open>h\<close> is the control stream.\<close>

definition run_protocol :: "'s ctl_env \<Rightarrow> nat \<Rightarrow> Client \<Rightarrow> 's \<Rightarrow> (error option \<times> Client \<times> 's) option" where
  "run_protocol V h c st = do {
     a \<leftarrow> authenticateWithServer (ce_proto V) (ce_write V) (ce_wait V) (ce_asked V) c st;
     case a of
       (Some e, c1, st1) \<Rightarrow>
         if errors_is e ErrPasswordInterrupted
         then Some (Some (Errorf ''authentication cancelled'' []),
                    cancel (setShutdownReason ''user interrupt (password input)'' c1), st1)
         else Some (Some (Errorf ''authentication failed: %v'' [FErr e]), effect (CloseStream h) c1, st1)
     | (None, c1, st1) \<Rightarrow> do {
         v \<leftarrow> verifyServiceConfiguration (ce_proto V) (ce_write V) (ce_wait V SERVICE_RESPONSE) c1 st1;
         case v of
           (Some e, c2, st2) \<Rightarrow>
             Some (Some (Errorf ''service verification failed: %v'' [FErr e]),
                   cancel (setShutdownReason ''service verification failed (configuration error)''
                     (effect (CloseStream h) c2)), st2)
         | (None, c2, st2) \<Rightarrow> Some (None, effect StartMonitor (startServicesOnce c2), st2) } }"

text \<open>\<open>opened\<close> is the new control stream with its state and \<open>typed\<close> the error of writing the type byte;
  the messager and the dispatcher get the handle of their stream.\<close>

definition setupQUICProtocol ::
    "'s ctl_env \<Rightarrow> error + nat \<Rightarrow> error option \<Rightarrow> Client \<Rightarrow> 's \<Rightarrow> (error option \<times> Client \<times> 's) option" where
  "setupQUICProtocol V opened typed c st =
     (case directConn c of
        None \<Rightarrow> Some (Some (Errorf ''no direct QUIC connection'' []), c, st)
      | Some quicConn \<Rightarrow>
        (case opened of
           Inl e \<Rightarrow> Some (Some (Errorf ''open QUIC control stream: %w'' [FWrap e]), c, st)
         | Inr h \<Rightarrow>
           (case typed of
              Some e \<Rightarrow> Some (Some (Errorf ''write control stream type: %w'' [FWrap e]), effect (CloseStream h) c, st)
            | None \<Rightarrow> run_protocol V h (c\<lparr>controlStream := None, quicCtrlClose := Some h, controlMessager := Some h,
                        controlDispatcher := Some h\<rparr>) st)))"

definition setupLibp2pProtocol ::
    "'s ctl_env \<Rightarrow> error + nat \<Rightarrow> Client \<Rightarrow> 's \<Rightarrow> (error option \<times> Client \<times> 's) option" where
  "setupLibp2pProtocol V opened c st =
     (case opened of
        Inl e \<Rightarrow> Some (Some (Errorf ''failed to create control stream: %v'' [FErr e]), c, st)
      | Inr h \<Rightarrow> run_protocol V h (c\<lparr>controlStream := Some h, controlMessager := Some h, controlDispatcher := Some h\<rparr>) st)"

section \<open>Connecting\<close>

definition dcutrWaitTimeout :: duration where "dcutrWaitTimeout = 15 * second"
definition maxHolePunchAttempts :: nat where "maxHolePunchAttempts = 3"

text \<open>The connections to the server, each with its flag \<^verbatim>\<open>Limited\<close>.\<close>

fun isRelayConnection :: "bool list \<Rightarrow> bool" where
  "isRelayConnection conns = (if conns = [] then False else list_all (\<lambda>limited. limited) conns)"

text \<open>One turn of the waiting loop: it took some time and saw the connections, or the client was
  cancelled.\<close>

datatype wait_turn = Polled duration "bool list" | CtxCancelled

fun waitForDirectConnection :: "time \<Rightarrow> time \<Rightarrow> wait_turn list \<Rightarrow> bool option" where
  "waitForDirectConnection deadline t [] = (if t < deadline then None else Some False)"
| "waitForDirectConnection deadline t (CtxCancelled # ts) = Some False"
| "waitForDirectConnection deadline t (Polled dt conns # ts) =
     (if t < deadline then
        (if \<not> isRelayConnection conns then Some True else waitForDirectConnection deadline (t + dt) ts)
      else Some False)"

text \<open>What one hole punch attempt finds in its environment.\<close>

record hp_env =
  hp_detect :: "string list \<Rightarrow> NATInfo option \<times> error option"
  hp_signal :: "NATInfo \<Rightarrow> error + (NATInfo \<times> bytes \<times> PunchMethod \<times> uint32)"
  hp_create :: "string \<Rightarrow> sock set \<Rightarrow> (error + (sock \<times> NATInfo)) \<times> sock set"
  hp_net :: net_env
  hp_v6 :: "string \<Rightarrow> bytes"
  hp_dial :: "PunchedSocket \<Rightarrow> bytes \<Rightarrow> error + nat"

text \<open>The NAT information to signal with: cached, or detected now. On a detection without error the
  information is never nil; the model returns the error of a nil dereference otherwise.\<close>

definition nat_for_punch :: "hp_env \<Rightarrow> Client \<Rightarrow> (error + NATInfo) \<times> Client" where
  "nat_for_punch H c =
     (case (natDetected (cl_nat c), natInfo (cl_nat c)) of
        (True, Some info) \<Rightarrow> (Inr info, c)
      | _ \<Rightarrow>
        (case hp_detect H (stun_servers (StunServers (Common (cl_config c)))) of
           (_, Some e) \<Rightarrow> (Inl (Errorf ''NAT detection failed: %w'' [FWrap e]), c)
         | (None, None) \<Rightarrow> (Inl (EnvError ''nil pointer dereference''), c)
         | (Some info, None) \<Rightarrow> (Inr info, c\<lparr>cl_nat := \<lparr>natInfo = Some info, natDetected = True\<rparr>\<rparr>)))"

text \<open>The punch socket of the cone side; for cone to cone the information about this socket replaces the
  signalled one.\<close>

definition client_punch_socket ::
    "hp_env \<Rightarrow> string \<Rightarrow> NATInfo \<Rightarrow> PunchMethod \<Rightarrow> sock set \<Rightarrow> (error + (sock option \<times> NATInfo)) \<times> sock set" where
  "client_punch_socket H stunServer info method opened =
     (if IsCone (nat_Type info) \<and> method \<noteq> PunchSymToCone then
        (case hp_create H stunServer opened of
           (Inl e, opened1) \<Rightarrow> (Inl (Errorf ''create punch socket: %w'' [FWrap e]), opened1)
         | (Inr (s, info1), opened1) \<Rightarrow> (Inr (Some s, info1), opened1))
      else if IsCone (nat_Type info) \<and> method = PunchSymToCone then
        (case hp_create H stunServer opened of
           (Inl e, opened1) \<Rightarrow> (Inl (Errorf ''create punch socket: %w'' [FWrap e]), opened1)
         | (Inr (s, _), opened1) \<Rightarrow> (Inr (Some s, info), opened1))
      else (Inr (None, info), opened))"

text \<open>The QUIC connection on the punched socket, for the result of the punch.\<close>

definition establish ::
    "hp_env \<Rightarrow> Client \<Rightarrow> sock option \<Rightarrow> bytes \<Rightarrow> (error + PunchedSocket) \<times> sock set \<times> punch_trace \<Rightarrow>
     error option \<times> Client \<times> sock set" where
  "establish H c punchSock sessionToken p =
     (case p of
        (Inl e, opened, _) \<Rightarrow> (Some (Errorf ''hole punch failed: %w'' [FWrap e]), c, close_opt punchSock opened)
      | (Inr ps, opened, _) \<Rightarrow>
          (case hp_dial H ps sessionToken of
             Inl e \<Rightarrow> (Some (Errorf ''QUIC establishment failed: %w'' [FWrap e]), c, close_all [pk_Conn ps] opened)
           | Inr quicConn \<Rightarrow> (None, c\<lparr>directConn := Some quicConn\<rparr>, opened)))"

definition attemptHolePunch :: "hp_env \<Rightarrow> Client \<Rightarrow> sock set \<Rightarrow> (error option \<times> Client \<times> sock set) option" where
  "attemptHolePunch H c opened =
     (let stunServers = stun_servers (StunServers (Common (cl_config c)))
      in case nat_for_punch H c of
        (Inl e, c1) \<Rightarrow> Some (Some e, c1, opened)
      | (Inr info, c1) \<Rightarrow>
        (case hp_signal H info of
           Inl e \<Rightarrow> Some (Some (Errorf ''signaling failed: %w'' [FWrap e]), c1, opened)
         | Inr (serverNAT, sessionToken, method, tid) \<Rightarrow>
           (case client_punch_socket H (hd stunServers) info method opened of
              (Inl e, opened1) \<Rightarrow> Some (Some e, c1, opened1)
            | (Inr (punchSock, myNAT), opened1) \<Rightarrow>
                map_option (establish H c1 punchSock sessionToken)
                  (ExecutePunch (hp_net H) (hp_v6 H) myNAT serverNAT method tid punchSock opened1))))"

text \<open>The attempts from number \<open>k\<close> on; \<open>None\<close> as the result means that one succeeded, otherwise the
  last error is returned.\<close>

fun punch_attempts :: "(nat \<Rightarrow> hp_env) \<Rightarrow> nat \<Rightarrow> nat \<Rightarrow> error option \<Rightarrow> Client \<Rightarrow> sock set \<Rightarrow>
    (error option \<times> Client \<times> sock set) option" where
  "punch_attempts H k 0 lastErr c opened = Some (lastErr, c, opened)"
| "punch_attempts H k (Suc n) lastErr c opened = do {
     r \<leftarrow> attemptHolePunch (H k) c opened;
     case r of
       (Some e, c1, opened1) \<Rightarrow> punch_attempts H (Suc k) n (Some e) c1 opened1
     | (None, c1, opened1) \<Rightarrow> Some (None, c1, opened1) }"

text \<open>The environment of one connection attempt: the results of \<^verbatim>\<open>FindPeer\<close> and \<^verbatim>\<open>Connect\<close>, the connections
  after it, the waiting for an upgrade, the punches, the control stream of each kind.\<close>

record 's conn_env =
  cv_find :: "error option"
  cv_connect :: "error option"
  cv_conns :: "bool list"
  cv_now :: time
  cv_wait :: "wait_turn list"
  cv_punch :: "nat \<Rightarrow> hp_env"
  cv_libp2p :: "error + nat"
  cv_quic :: "error + nat"
  cv_typed :: "error option"
  cv_ctl :: "'s ctl_env"

definition connectToServer ::
    "'s conn_env \<Rightarrow> Client \<Rightarrow> sock set \<Rightarrow> 's \<Rightarrow> (error option \<times> Client \<times> sock set \<times> 's) option" where
  "connectToServer X c0 opened st =
     (let c = cleanupPreviousConnection c0
      in case cv_find X of
        Some e \<Rightarrow> Some (Some e, c, opened, st)
      | None \<Rightarrow>
        (case cv_connect X of
           Some e \<Rightarrow> Some (Some (Errorf ''failed to connect to server: %v'' [FErr e]), c, opened, st)
         | None \<Rightarrow>
           let c1 = effect Tag (ResetBackoff c)
           in if \<not> isRelayConnection (cv_conns X)
              then map_option (\<lambda>(e, c', st'). (e, c', opened, st')) (setupLibp2pProtocol (cv_ctl X) (cv_libp2p X) c1 st)
              else do {
                direct \<leftarrow> waitForDirectConnection (cv_now X + dcutrWaitTimeout) (cv_now X) (cv_wait X);
                if direct
                then map_option (\<lambda>(e, c', st'). (e, c', opened, st')) (setupLibp2pProtocol (cv_ctl X) (cv_libp2p X) c1 st)
                else do {
                  r \<leftarrow> punch_attempts (cv_punch X) 1 maxHolePunchAttempts None c1 opened;
                  case r of
                    (Some e, c2, opened1) \<Rightarrow>
                      Some (Some (Errorf ''hole punch failed after %d attempts: %w''
                        [FInt (int maxHolePunchAttempts), FWrap e]), c2, opened1, st)
                  | (None, c2, opened1) \<Rightarrow>
                      map_option (\<lambda>(e, c', st'). (e, c', opened1, st')) (setupQUICProtocol (cv_ctl X) (cv_quic X) (cv_typed X) c2 st) } }))"

text \<open>The connection manager: \<open>X k\<close> is the environment of the \<open>k\<close>-th connection attempt, \<open>st k\<close> the initial state
  of its control stream and \<open>halt k\<close> whether the client is cancelled while it waits after it. The result
  is the client, the open sockets and the delays waited; \<open>None\<close>: the fuel is used up, or an attempt
  does not return.\<close>

fun startConnectionManager ::
    "nat \<Rightarrow> (nat \<Rightarrow> 's conn_env) \<Rightarrow> (nat \<Rightarrow> 's) \<Rightarrow> (nat \<Rightarrow> bool) \<Rightarrow> nat \<Rightarrow> Client \<Rightarrow> sock set \<Rightarrow> duration list \<Rightarrow>
     (Client \<times> sock set \<times> duration list) option" where
  "startConnectionManager 0 X st halt k c opened waited = None"
| "startConnectionManager (Suc fuel) X st halt k c opened waited =
     (if cancelled c then Some (setShutdownReason ''context cancelled'' c, opened, waited)
      else do {
        r \<leftarrow> connectToServer (X k) c opened (st k);
        case r of
          (None, c1, opened1, _) \<Rightarrow> Some (ResetBackoff c1, opened1, waited)
        | (Some e, c1, opened1, _) \<Rightarrow>
            if cancelled c1 then Some (c1, opened1, waited)
            else let interval = GetBackoff c1
                 in if halt k then Some (cancel c1, opened1, waited)
                    else startConnectionManager fuel X st halt (Suc k) (IncreaseBackoff c1) opened1 (waited @ [interval]) })"

section \<open>Data streams\<close>

text \<open>\<open>openQ\<close> and \<open>newStream\<close> are the results of opening a stream on the direct connection and of
  \<^verbatim>\<open>NewStream\<close> for a protocol.\<close>

definition openDataStream ::
    "(nat \<Rightarrow> error + conn) \<Rightarrow> (string \<Rightarrow> error + conn) \<Rightarrow> bool \<Rightarrow> Client \<Rightarrow> (error + conn) option" where
  "openDataStream openQ newStream useZstd c =
     (case directConn c of
        Some quicConn \<Rightarrow>
          (case openQ quicConn of
             Inl e \<Rightarrow> Some (Inl (Errorf ''open QUIC data stream: %w'' [FWrap e]))
           | Inr stream \<Rightarrow> do {
               let streamType = (if useZstd then StreamTypeDataZstd else StreamTypeData);
               w \<leftarrow> conn_write stream [streamType];
               case w of
                 ((_, Some e), _) \<Rightarrow> Some (Inl (Errorf ''write data stream type: %w'' [FWrap e]))
               | ((_, None), stream') \<Rightarrow> Some (Inr stream') })
      | None \<Rightarrow>
          let base = cc_Protocol (Common (cl_config c))
          in Some (newStream (if useZstd then DataProtocolZstd base else DataProtocol base)))"

definition isDirectMode :: "Client \<Rightarrow> bool" where
  "isDirectMode c \<longleftrightarrow> directConn c \<noteq> None"

definition connectionInfo :: "bool list \<Rightarrow> Client \<Rightarrow> string" where
  "connectionInfo conns c =
     (if isDirectMode c then ''direct-quic''
      else if list_ex (\<lambda>limited. \<not> limited) conns then ''libp2p-direct''
      else if conns \<noteq> [] then ''relay'' else ''unknown'')"

text \<open>A local connection: the stream that is proxied, or none; in every case the local connection is
  closed at the end. \<^verbatim>\<open>NewZstdDuplex\<close> never fails.\<close>

datatype local_result = NoStream | Refused data_stream | Proxied data_stream

definition handleLocalConnForProtocol ::
    "proto_lib \<Rightarrow> zstd_params \<Rightarrow> zstd_lib \<Rightarrow> (nat \<Rightarrow> error + conn) \<Rightarrow> (string \<Rightarrow> error + conn) \<Rightarrow> string \<Rightarrow>
     LocalServiceConfig \<Rightarrow> string \<Rightarrow> Client \<Rightarrow> local_result option" where
  "handleLocalConnForProtocol Q P L openQ newStream server localService protocolType c = do {
     let useZstd = (case serviceCompress c (lc_Name localService) of Some v \<Rightarrow> v | None \<Rightarrow> False);
     r \<leftarrow> openDataStream openQ newStream useZstd c;
     case r of
       Inl e \<Rightarrow> Some NoStream
     | Inr serverStream \<Rightarrow>
         if useZstd then do {
           let z = SetInfo (NewZstdDuplex serverStream) ''client'' (lc_Name localService) server protocolType;
           s \<leftarrow> checkServiceAvailability Q (zstd_Write P L conn_write) (ReceiveOne Q (zstd_Read L conn_read)) z
                 (lc_Name localService) protocolType (lc_Password localService);
           case s of
             (Inl e, z1) \<Rightarrow> Some (Refused (Duplex (snd (zstd_Close conn_close z1))))
           | (Inr _, z1) \<Rightarrow> Some (Proxied (Duplex z1)) }
         else do {
           s \<leftarrow> checkServiceAvailability Q conn_write (ReceiveOne Q conn_read) serverStream
                 (lc_Name localService) protocolType (lc_Password localService);
           case s of
             (Inl e, s1) \<Rightarrow> Some (Refused (Plain (shut s1)))
           | (Inr _, s1) \<Rightarrow> Some (Proxied (Plain s1)) } }"

section \<open>The monitor\<close>

text \<open>What the monitor receives, with its time: the cancellation, a message with the error of a heartbeat
  answer if one is sent, or the error of the dispatcher.\<close>

datatype cm_event = CM_Done | CM_Msg UnifiedMessage "error option" | CM_Err error

datatype cm_exit = CM_Cancelled | CM_Timeout | CM_Failed | CM_ServerShutdown

definition heartbeatTimeout :: duration where "heartbeatTimeout = 25 * second"

text \<open>\<open>deadline\<close> is when the heartbeat timer fires; it fires in the end when nothing more arrives.\<close>

fun monitor_loop :: "time \<Rightarrow> (time \<times> cm_event) list \<Rightarrow> cm_exit \<times> time" where
  "monitor_loop deadline [] = (CM_Timeout, deadline)"
| "monitor_loop deadline ((t, e) # es) =
     (if deadline \<le> t then (CM_Timeout, deadline)
      else case e of
        CM_Done \<Rightarrow> (CM_Cancelled, t)
      | CM_Err _ \<Rightarrow> (CM_Failed, t)
      | CM_Msg m ack \<Rightarrow>
          if IsShutdownMessage (Some m) then (CM_ServerShutdown, t)
          else if m_Type m = HEARTBEAT
          then (if m_Message m = ''ping'' \<and> ack \<noteq> None then (CM_Failed, t)
                else monitor_loop (t + heartbeatTimeout) es)
          else monitor_loop deadline es)"

text \<open>The client when the monitor ends, and the delay after which it starts the connection manager, if
  it does.\<close>

definition client_monitorControlStream :: "time \<Rightarrow> (time \<times> cm_event) list \<Rightarrow> Client \<Rightarrow> Client \<times> duration option" where
  "client_monitorControlStream start es c =
     (let restart = (\<lambda>c shutdownReceived. (c, if stopping c then None
                       else Some (if shutdownReceived then 10 * second else 0)))
      in if controlStream c = None \<and> quicCtrlClose c = None \<or> controlDispatcher c = None \<or> controlMessager c = None
         then restart c False
         else (case monitor_loop (start + heartbeatTimeout) es of
                 (CM_Cancelled, _) \<Rightarrow> restart c False
               | (CM_ServerShutdown, _) \<Rightarrow> restart c True
               | (_, _) \<Rightarrow> restart (closeControlStream c) False))"

section \<open>A new connection cycle\<close>

lemma effect_sel [simp]:
  "controlStream (effect e c) = controlStream c" "quicCtrlClose (effect e c) = quicCtrlClose c"
  "directConn (effect e c) = directConn c" "controlDispatcher (effect e c) = controlDispatcher c"
  "controlMessager (effect e c) = controlMessager c" "cl_nat (effect e c) = cl_nat c"
  "cl_config (effect e c) = cl_config c" "stopping (effect e c) = stopping c" "cancelled (effect e c) = cancelled c"
  "localServices (effect e c) = localServices c" "effects (effect e c) = effects c @ [e]"
  by (simp_all add: effect_def)

lemma effect_opt_sel [simp]:
  "controlStream (effect_opt f x c) = controlStream c" "quicCtrlClose (effect_opt f x c) = quicCtrlClose c"
  "directConn (effect_opt f x c) = directConn c" "controlDispatcher (effect_opt f x c) = controlDispatcher c"
  "controlMessager (effect_opt f x c) = controlMessager c" "cl_nat (effect_opt f x c) = cl_nat c"
  "cl_config (effect_opt f x c) = cl_config c" "stopping (effect_opt f x c) = stopping c"
  "cancelled (effect_opt f x c) = cancelled c"
  "effects (effect_opt f x c) = effects c @ map f (case x of None \<Rightarrow> [] | Some n \<Rightarrow> [n])"
  by (simp_all add: effect_opt_def split: option.split)

text \<open>A new connection cycle starts from a clean state: no stream, messager, dispatcher, direct
  connection or NAT information of the previous cycle is left, and each of them that existed has been
  closed.\<close>

theorem cleanup_complete:
  "let c' = cleanupPreviousConnection c in
     controlStream c' = None \<and> quicCtrlClose c' = None \<and> controlMessager c' = None \<and>
     controlDispatcher c' = None \<and> directConn c' = None \<and> cl_nat c' = no_nat \<and>
     (\<exists>es. effects c' = effects c @ es \<and> ClosePeerConns \<in> set es \<and>
       CloseStream ` (set_option (controlStream c) \<union> set_option (quicCtrlClose c)) \<subseteq> set es \<and>
       CloseDispatcher ` set_option (controlDispatcher c) \<subseteq> set es \<and>
       (\<lambda>q. CloseQUIC q ''new connection cycle'') ` set_option (directConn c) \<subseteq> set es)"
  by (auto simp: cleanupPreviousConnection_def Let_def cleanupDirectConn_def split: option.splits)


section \<open>Waiting for a direct connection\<close>

text \<open>The wait ends after at most 30 polls of half a second, and says that there is a direct connection
  only if a poll did not see relayed connections only.\<close>

lemma waitForDirectConnection_returns:
  "\<forall>x \<in> set ts. case x of Polled dt _ \<Rightarrow> 500 * millisecond \<le> dt | CtxCancelled \<Rightarrow> True \<Longrightarrow>
   deadline - t \<le> int (length ts) * (500 * millisecond) \<Longrightarrow>
   \<exists>b. waitForDirectConnection deadline t ts = Some b \<and>
     (b \<longrightarrow> (\<exists>dt conns. Polled dt conns \<in> set ts \<and> \<not> isRelayConnection conns))"
proof (induction deadline t ts rule: waitForDirectConnection.induct)
  case (3 deadline t dt conns ts)
  have "deadline - (t + dt) \<le> int (length ts) * (500 * millisecond)"
    using "3.prems" by (simp add: algebra_simps)
  then show ?case using 3 by (auto simp del: isRelayConnection.simps)
qed auto

text \<open>Losing every connection counts as a direct connection: if the relayed connection is gone at a
  poll, the client goes on as if it had been upgraded.\<close>

theorem lost_connection_counts_as_direct:
  "waitForDirectConnection (t + dcutrWaitTimeout) t (Polled dt [] # ts) = Some True \<and> \<not> isRelayConnection []"
  by (simp add: dcutrWaitTimeout_def)

section \<open>Sockets of the client\<close>

text \<open>The socket a punch returns: the punch socket for the roles that use one, otherwise a new one.\<close>

lemma loop_result_new:
  assumes "NewUDPSocketArray listen n opened = (Inr arr, opened')" "fresh_sockets listen opened"
    "loop_ok arr tid out turns (Some (s, a)) sent0 sent"
  shows "s \<notin> opened"
  using NewUDPSocketArray_spec [OF assms(1,2)] assms(3) by (auto simp: loop_ok_def)

lemma punch_conn:
  assumes "ExecutePunch E v6 myNAT peerNAT m tid ps opened = Some (Inr p, opened', sent)"
    and "fresh_sockets (ne_listen E) opened"
  shows "if m = PunchConeToCone \<or> m = PunchSymToCone \<and> \<not> IsSymmetric (nat_Type myNAT)
    then ps = Some (pk_Conn p) else pk_Conn p \<notin> opened"
proof -
  have "pk_Conn p \<notin> opened" if "punchSymToCone E a tid opened = Some (Inr p, opened', sent)" for a
    using that assms(2)
    by (auto simp: punchSymToCone_def punched_def Let_def dest!: sym_loop_ok split: prod.splits sum.splits option.splits)
      (metis loop_result_new)
  moreover have "pk_Conn p \<notin> opened" if "punchBothEasySym E a mi pi q tid opened = Some (Inr p, opened', sent)" for a mi pi q
    using that assms(2)
    by (auto simp: punchBothEasySym_def punched_def Let_def dest!: until_deadline_ok split: prod.splits sum.splits option.splits)
      (metis loop_result_new)
  ultimately show ?thesis
    using assms(1)
    by (auto simp: ExecutePunch_def Let_def punchConeToCone_def punchConeToSym_def punched_def
        split: PunchMethod.splits option.splits if_splits prod.splits)
qed

text \<open>A server that determines the method as \<^verbatim>\<open>signaling.go\<close> does.\<close>

definition honest_server :: "hp_env \<Rightarrow> bool" where
  "honest_server H \<longleftrightarrow> (\<forall>info sNAT tok m tid. hp_signal H info = Inr (sNAT, tok, m, tid) \<longrightarrow>
     m = DeterminePunchMethod (nat_Type info) (nat_Type sNAT))"

text \<open>\<^verbatim>\<open>CreatePunchSocket\<close> gets a new socket, and the sockets of the punch are new as well.\<close>

definition fresh_env :: "hp_env \<Rightarrow> error + sock \<Rightarrow> (sock \<Rightarrow> error + stunMappedAddr) \<Rightarrow> sock set \<Rightarrow> bool" where
  "fresh_env H listened query opened \<longleftrightarrow>
     (\<forall>srv. hp_create H srv = CreatePunchSocket listened query) \<and>
     fresh_sockets (ne_listen (hp_net H)) opened \<and>
     (\<forall>s. listened = Inr s \<longrightarrow> s \<notin> opened \<and> fresh_sockets (ne_listen (hp_net H)) (insert s opened))"

lemma cone_client_method:
  assumes "IsCone t" shows "DeterminePunchMethod t s \<in> {PunchNone, PunchConeToCone, PunchSymToCone}"
  using assms by (auto simp: DeterminePunchMethod_def IsCone_def IsEasySymmetric_def IsSymmetric_def)

lemma sym_client_method:
  assumes "\<not> IsCone t"
  shows "DeterminePunchMethod t s \<in> {PunchNone, PunchSymToCone, PunchEasySymToEasySym} \<and>
    (DeterminePunchMethod t s = PunchSymToCone \<longrightarrow> IsSymmetric t)"
  using assms by (auto simp: DeterminePunchMethod_def IsCone_def)

lemma nat_for_punch_direct: "nat_for_punch H c = (r, c1) \<Longrightarrow> directConn c1 = directConn c"
  by (auto simp: nat_for_punch_def split: option.splits bool.splits prod.splits)


lemma client_punch_socket_spec:
  assumes "client_punch_socket H srv info m opened = (q, opened1)" "fresh_env H listened query opened"
  shows "case q of Inl e \<Rightarrow> opened1 = opened
    | Inr (ps, my) \<Rightarrow> opened1 = opened \<union> set_option ps \<and> set_option ps \<inter> opened = {} \<and>
        fresh_sockets (ne_listen (hp_net H)) opened1 \<and> (ps \<noteq> None \<longleftrightarrow> IsCone (nat_Type info)) \<and>
        (m = PunchSymToCone \<or> ps = None \<longrightarrow> my = info)"
  using assms
  by (auto simp: client_punch_socket_def fresh_env_def CreatePunchSocket_def close_all_def Let_def
      split: if_splits sum.splits)

lemma establish_sockets:
  assumes "establish H c1 ps tok (rp, sockets_after rp opened1, sent) = (r, c', opened')"
    and "opened1 = opened \<union> set_option ps" "set_option ps \<inter> opened = {}"
    and "\<And>p. rp = Inr p \<Longrightarrow> ps = Some (pk_Conn p) \<or> ps = None \<and> pk_Conn p \<notin> opened"
  shows "case r of
      Some e \<Rightarrow> opened' = opened \<and> directConn c' = directConn c1
    | None \<Rightarrow> \<exists>s q. s \<notin> opened \<and> opened' = insert s opened \<and> directConn c' = Some q"
  using assms
  by (cases ps) (auto simp: establish_def sockets_after_def close_opt_def close_all_def split: sum.splits)

text \<open>The punched socket is the punch socket, or a new one when there is none, for a method that fits the
  client's NAT type.\<close>

lemma punched_is_new:
  assumes "ExecutePunch E v6 my sNAT m tid ps opened1 = Some (Inr p, o2, sent)"
    and "fresh_sockets (ne_listen E) opened1" and "opened \<subseteq> opened1"
    and "m = DeterminePunchMethod t s" and "ps \<noteq> None \<longleftrightarrow> IsCone t"
    and "m = PunchSymToCone \<or> ps = None \<longrightarrow> nat_Type my = t"
  shows "ps = Some (pk_Conn p) \<or> ps = None \<and> pk_Conn p \<notin> opened"
proof -
  have m: "m \<noteq> PunchNone" using assms(1) by (auto simp: ExecutePunch_def Let_def)
  note conn = punch_conn [OF assms(1,2)]
  show ?thesis
  proof (cases "IsCone t")
    case True
    then have "\<not> IsSymmetric t" by (auto simp: IsCone_def IsSymmetric_def)
    moreover have "m = PunchConeToCone \<or> m = PunchSymToCone"
      using cone_client_method [OF True, of s] m assms(4) by auto
    ultimately have "ps = Some (pk_Conn p)" using conn assms(6) by auto
    then show ?thesis by simp
  next
    case False
    then have "ps = None" using assms(5) by simp
    moreover have "m = PunchEasySymToEasySym \<or> m = PunchSymToCone \<and> IsSymmetric t"
      using sym_client_method [OF False, of s] m assms(4) by auto
    ultimately have "pk_Conn p \<notin> opened1" using conn assms(6) by auto
    then show ?thesis using assms(3) \<open>ps = None\<close> by auto
  qed
qed

text \<open>C20: with a server that determines the method from the two NAT types, a hole punch attempt of the
  client that fails, at whatever step, leaves exactly the sockets open that were open before and no
  direct connection; one that succeeds leaves exactly the punched socket open and has a direct
  connection.\<close>

theorem client_punch_no_leak:
  assumes "attemptHolePunch H c opened = Some (r, c', opened')"
    and "honest_server H" and "fresh_env H listened query opened"
  shows "case r of
      Some e \<Rightarrow> opened' = opened \<and> directConn c' = directConn c
    | None \<Rightarrow> \<exists>s q. s \<notin> opened \<and> opened' = insert s opened \<and> directConn c' = Some q"
proof -
  let ?srv = "hd (stun_servers (StunServers (Common (cl_config c))))"
  obtain n c1 where n: "nat_for_punch H c = (n, c1)" by (cases "nat_for_punch H c")
  note dc = nat_for_punch_direct [OF n]
  consider (early) e where "r = Some e" "c' = c1" "opened' = opened"
    | (punch) info sNAT tok m tid q opened1 where "n = Inr info" "hp_signal H info = Inr (sNAT, tok, m, tid)"
        "client_punch_socket H ?srv info m opened = (q, opened1)"
        "(case q of Inl e \<Rightarrow> Some (Some e, c1, opened1)
          | Inr (ps, my) \<Rightarrow> map_option (establish H c1 ps tok)
              (ExecutePunch (hp_net H) (hp_v6 H) my sNAT m tid ps opened1)) = Some (r, c', opened')"
    using assms(1) n by (auto simp: attemptHolePunch_def Let_def split: sum.splits prod.splits)
  then show ?thesis
  proof cases
    case early
    then show ?thesis using dc by simp
  next
    case punch
    note spec = client_punch_socket_spec [OF punch(3) assms(3)]
    show ?thesis
    proof (cases q)
      case (Inl e)
      then show ?thesis using punch(4) spec dc by auto
    next
      case (Inr pm)
      obtain ps my where pm: "pm = (ps, my)" by (cases pm)
      obtain rp o2 sent where X: "ExecutePunch (hp_net H) (hp_v6 H) my sNAT m tid ps opened1 = Some (rp, o2, sent)"
        and est: "establish H c1 ps tok (rp, o2, sent) = (r, c', opened')"
        using punch(4) Inr pm by auto
      have sp: "opened1 = opened \<union> set_option ps" "set_option ps \<inter> opened = {}"
        "fresh_sockets (ne_listen (hp_net H)) opened1" "ps \<noteq> None \<longleftrightarrow> IsCone (nat_Type info)"
        "m = PunchSymToCone \<or> ps = None \<longrightarrow> nat_Type my = nat_Type info"
        using spec Inr pm by auto
      have o2: "o2 = sockets_after rp opened1"
        by (rule punch_sockets_after [OF X sp(3)]) (use sp(1) in auto)
      have m: "m = DeterminePunchMethod (nat_Type info) (nat_Type sNAT)"
        using assms(2) punch(2) by (simp add: honest_server_def)
      have "ps = Some (pk_Conn p) \<or> ps = None \<and> pk_Conn p \<notin> opened" if "rp = Inr p" for p
        using punched_is_new [OF X [unfolded that] sp(3) _ m sp(4,5), of opened] sp(1) by simp
      from establish_sockets [OF est [unfolded o2] sp(1,2) this] dc show ?thesis by (cases r) auto
    qed
  qed
qed


definition example_hp :: hp_env where
  "example_hp = \<lparr>hp_detect = (\<lambda>_. (Some (example_nat NATCone), None)),
     hp_signal = (\<lambda>info. Inr (example_nat NATCone, example_token, DeterminePunchMethod (nat_Type info) NATCone, 7)),
     hp_create = (\<lambda>_. CreatePunchSocket (Inr 1) (\<lambda>_. Inr \<lparr>IP = [203, 0, 113, 7], Port = 4001\<rparr>)),
     hp_net = example_env [example_reply], hp_v6 = no_v6, hp_dial = (\<lambda>_ _. Inr 5)\<rparr>"

theorem client_punch_no_leak_witness:
  "\<exists>c' opened' s q. attemptHolePunch example_hp (NewClient example_server_config) {} = Some (None, c', opened') \<and>
     opened' = {s} \<and> directConn c' = Some q"
proof -
  let ?c = "NewClient example_server_config"
  let ?N = "\<lparr>nat_Type = NATUnknown, PublicIP = ip_String [203, 0, 113, 7], PublicPort = 4001\<rparr>"
  obtain sent where X: "ExecutePunch (example_env [example_reply]) no_v6 ?N (example_nat NATCone) PunchConeToCone 7 (Some 1) {1} =
     Some (Inr (punched (example_env [example_reply]) 1 example_peer), {1}, sent)"
    using example_listener [of example_peer]
    by (simp add: ExecutePunch_def punchConeToCone_def example_env_def example_reply_def Let_def PunchTimeout_def
        del: listener.simps)
  have m: "DeterminePunchMethod (nat_Type (example_nat NATCone)) NATCone = PunchConeToCone" "IsCone (nat_Type (example_nat NATCone))"
    by (simp_all add: example_nat_def DeterminePunchMethod_def IsCone_def)
  have "\<exists>c' opened'. attemptHolePunch example_hp ?c {} = Some (None, c', opened')"
    using X m by (simp add: attemptHolePunch_def nat_for_punch_def example_hp_def NewClient_def no_nat_def
        client_punch_socket_def CreatePunchSocket_def establish_def Let_def)
  then obtain c' opened' where Y: "attemptHolePunch example_hp ?c {} = Some (None, c', opened')" by blast
  have "honest_server example_hp" by (simp add: honest_server_def example_hp_def) (simp add: example_nat_def)
  moreover have "fresh_env example_hp (Inr 1) (\<lambda>_. Inr \<lparr>IP = [203, 0, 113, 7], Port = 4001\<rparr>) {}"
    by (auto simp: fresh_env_def example_hp_def fresh_sockets_def example_env_def)
  ultimately show ?thesis using client_punch_no_leak [OF Y] Y by fastforce
qed


section \<open>The monitor\<close>

text \<open>A ping at each of the given times, each less than the timeout after the one before.\<close>

definition ping :: UnifiedMessage where
  "ping = zero_message\<lparr>m_Type := HEARTBEAT, m_Message := ''ping''\<rparr>"

fun steady :: "time \<Rightarrow> time list \<Rightarrow> bool" where
  "steady t [] = True"
| "steady t (u # us) = (u < t + heartbeatTimeout \<and> steady u us)"

lemma monitor_loop_steady:
  "steady t us \<Longrightarrow> monitor_loop (t + heartbeatTimeout) (map (\<lambda>u. (u, CM_Msg ping None)) us @ es) =
     monitor_loop (last (t # us) + heartbeatTimeout) es"
  by (induction t us rule: steady.induct) (auto simp: ping_def zero_message_def IsShutdownMessage_def)

lemma closeControlStream_spec:
  "let c' = closeControlStream c in directConn c' = None \<and> stopping c' = stopping c \<and>
     (\<exists>es. effects c' = effects c @ es \<and>
        CloseStream ` (set_option (controlStream c) \<union> set_option (quicCtrlClose c)) \<subseteq> set es \<and>
        (directConn c = None \<longrightarrow> ClosePeerConns \<in> set es) \<and>
        (\<lambda>q. CloseQUIC q ''control stream closed'') ` set_option (directConn c) \<subseteq> set es)"
  by (auto simp: closeControlStream_def cleanupDirectConn_def Let_def split: option.splits)

text \<open>C34: a server that pings at least every 25 seconds keeps the control stream of the client open; when
  it falls silent the client notices exactly 25 seconds after the last ping, closes the control
  stream and the connection under it, and, unless it is being stopped, starts the connection manager
  at once.\<close>

theorem client_heartbeat:
  assumes "steady start us" and "controlStream c \<noteq> None \<or> quicCtrlClose c \<noteq> None"
    and "controlDispatcher c \<noteq> None" "controlMessager c \<noteq> None"
  shows "monitor_loop (start + heartbeatTimeout) (map (\<lambda>u. (u, CM_Msg ping None)) us @ es) =
      monitor_loop (last (start # us) + heartbeatTimeout) es \<and>
    monitor_loop (start + heartbeatTimeout) (map (\<lambda>u. (u, CM_Msg ping None)) us) =
      (CM_Timeout, last (start # us) + 25 * second) \<and>
    client_monitorControlStream start (map (\<lambda>u. (u, CM_Msg ping None)) us) c =
      (closeControlStream c, if stopping c then None else Some 0)"
proof -
  have silent: "monitor_loop (start + heartbeatTimeout) (map (\<lambda>u. (u, CM_Msg ping None)) us) =
      (CM_Timeout, last (start # us) + 25 * second)"
    using monitor_loop_steady [OF assms(1), of "[]"] by (simp add: heartbeatTimeout_def)
  have "stopping (closeControlStream c) = stopping c" using closeControlStream_spec [of c] by (simp add: Let_def)
  then have "client_monitorControlStream start (map (\<lambda>u. (u, CM_Msg ping None)) us) c =
      (closeControlStream c, if stopping c then None else Some 0)"
    using assms(2-4) silent by (auto simp: client_monitorControlStream_def Let_def)
  then show ?thesis using silent monitor_loop_steady [OF assms(1)] by blast
qed

theorem client_heartbeat_witness:
  "monitor_loop (0 + heartbeatTimeout) (map (\<lambda>u. (u, CM_Msg ping None)) [10 * second, 20 * second]) =
     (CM_Timeout, 45 * second)"
proof -
  let ?c = "(NewClient example_server_config)\<lparr>controlStream := Some 1, controlMessager := Some 1, controlDispatcher := Some 1\<rparr>"
  have "steady 0 [10 * second, 20 * second]" by (simp add: heartbeatTimeout_def)
  from client_heartbeat [OF this, of ?c "[]", THEN conjunct2, THEN conjunct1] show ?thesis
    by (simp del: monitor_loop.simps)
qed

end
