(* ===== verification/F2P_Agreement.thy ===== *)
theory F2P_Agreement
  imports F2P_Client
begin

text \<open>
  The client and the server together: each runs its part of a protocol on its end of a stream, and
  what one writes is what the other reads. The theorems show that both come to the same decision
  about an authentication and about a service request. The interface between a handshake and the
  stream it runs on is the locale \<open>message_channel\<close>, which the plain stream and the zstd duplex on it
  both satisfy.
\<close>

section \<open>Agreement with the server\<close>

definition fits :: "proto_lib \<Rightarrow> UnifiedMessage \<Rightarrow> bool" where
  "fits Q m \<longleftrightarrow> (case Marshal Q m of Inl _ \<Rightarrow> False | Inr d \<Rightarrow> length d \<le> maxProtoMsgSize)"

definition frame_of :: "proto_lib \<Rightarrow> UnifiedMessage \<Rightarrow> bytes" where
  "frame_of Q m = (case Marshal Q m of Inl _ \<Rightarrow> [] | Inr d \<Rightarrow> message_frame d)"

context reliable_sink
begin

lemma sendMessage_fits:
  assumes "ready s" "fits Q m"
  obtains s' where "sendMessage Q wr s m = Some (None, s')" "sent s' = sent s @ frame_of Q m" "ready s'"
proof -
  obtain d where d: "Marshal Q m = Inr d" "length d \<le> maxProtoMsgSize"
    using assms(2) by (auto simp: fits_def split: sum.splits)
  obtain s1 where s1: "writeFull wr s (put_uint32 (of_nat (length d))) = Some (None, s1)"
    "sent s1 = sent s @ put_uint32 (of_nat (length d))" "ready s1"
    using writeFull_succeeds [OF assms(1)] by blast
  obtain s2 where s2: "writeFull wr s1 d = Some (None, s2)" "sent s2 = sent s1 @ d" "ready s2"
    using writeFull_succeeds [OF s1(3)] by blast
  have "sendMessage Q wr s m = Some (None, s2)"
    using d s1(1) s2(1) by (simp add: sendMessage_def Let_def put_uint32_def)
  then show thesis using that s1(2) s2(2,3) d by (simp add: frame_of_def message_frame_def)
qed

end

context byte_source
begin

lemma receiveMessage_fits:
  assumes "proto_lossless Q" "inv s" "fits Q m" "view s = (frame_of Q m @ rest, e)"
  obtains s' where "receiveMessage Q rd s = Some (Inr m, s')" "view s' = (rest, e)" "inv s'"
  using receiveMessage_lossless [OF assms(1,2), of m _ rest e] assms(3,4)
  by (auto simp: fits_def frame_of_def split: sum.splits)

end

lemma sendMessage_keeps:
  assumes "\<And>s p. I s \<Longrightarrow> keeps I (wr s p)" and "I s"
  shows "keeps I (sendMessage Q wr s m)"
  using assms(2)
  by (auto simp: sendMessage_def Let_def split: option.splits sum.splits
      intro!: keeps_bind [OF writeFull_keeps [of I wr, OF assms(1)]] writeFull_keeps [of I wr, OF assms(1)])

definition request_msg :: "string \<Rightarrow> string \<Rightarrow> string \<Rightarrow> UnifiedMessage" where
  "request_msg name protocol pwd = zero_message\<lparr>m_Type := SERVICE_REQUEST, m_ServiceName := name,
     m_Protocol := protocol, m_ServicePassword := pwd, m_TtlMs := 30000\<rparr>"

definition response_msg :: "Config \<Rightarrow> UnifiedMessage \<Rightarrow> UnifiedMessage" where
  "response_msg cfg msg =
     (case validateServiceRequest (NewServer cfg) msg of
        (None, data, code, info) \<Rightarrow>
          zero_message\<lparr>m_Type := SERVICE_RESPONSE, m_Success := False, m_ErrorCode := code, m_Message := info,
            m_Data := Map.empty, m_TtlMs := 30000\<rparr>
      | (Some service, data, code, info) \<Rightarrow>
          zero_message\<lparr>m_Type := SERVICE_RESPONSE, m_Success := True, m_ErrorCode := NO_ERROR, m_Message := info,
            m_Data := data, m_TtlMs := 30000\<rparr>)"

lemma response_msg_spec:
  "m_Type (response_msg cfg msg) = SERVICE_RESPONSE \<and>
   (m_Success (response_msg cfg msg) \<longleftrightarrow> (\<exists>service. request_allowed cfg msg service)) \<and>
   (\<forall>service. request_allowed cfg msg service \<longrightarrow>
      m_Data (response_msg cfg msg) = [''zstd'' \<mapsto> format_bool (service_compress cfg service)])"
proof -
  obtain so data code info where v: "validateServiceRequest (NewServer cfg) msg = (so, data, code, info)"
    by (metis prod.exhaust)
  show ?thesis
  proof (cases so)
    case None
    then have "\<not> request_allowed cfg msg service" for service
      using v validate_granted [of cfg msg service] by auto
    then show ?thesis using v None by (simp add: response_msg_def)
  next
    case (Some service)
    then have g: "request_allowed cfg msg service" "data = [''zstd'' \<mapsto> format_bool (service_compress cfg service)]"
      using v validate_granted [of cfg msg service data code info] by auto
    then have u: "service' = service" if "request_allowed cfg msg service'" for service'
      using that by (auto simp: request_allowed_def)
    have "m_Type (response_msg cfg msg) = SERVICE_RESPONSE" "m_Success (response_msg cfg msg)"
      "m_Data (response_msg cfg msg) = data" using v Some by (simp_all add: response_msg_def)
    then show ?thesis using g u by metis
  qed
qed

lemma SendServiceRequest_msg:
  "SendServiceRequest Q wr s name protocol pwd = sendMessage Q wr s (request_msg name protocol pwd)"
  by (simp add: SendServiceRequest_def SendWithTTL_def ttl_default request_msg_def)

text \<open>
  A stream with both directions: what is read does not change what was written and whether writing
  works, and what is written does not change what is still to be read.
\<close>

locale message_channel = byte_source rd view "\<lambda>_. True" + reliable_sink wr sent ready
  for rd :: "'s reader" and view :: "'s \<Rightarrow> stream_view"
    and wr :: "'s writer" and sent :: "'s \<Rightarrow> bytes" and ready :: "'s \<Rightarrow> bool" +
  assumes rd_keeps: "sent s = b \<and> ready s \<Longrightarrow> keeps (\<lambda>s. sent s = b \<and> ready s) (rd s n)"
    and wr_keeps: "view s = v \<Longrightarrow> keeps (\<lambda>s. view s = v) (wr s p)"
begin

lemma receive_channel:
  assumes "proto_lossless Q" "fits Q m" "view s = (frame_of Q m @ rest, e)" "ready s"
  obtains s' where "receiveMessage Q rd s = Some (Inr m, s')" "view s' = (rest, e)" "sent s' = sent s" "ready s'"
proof -
  obtain s' where s': "receiveMessage Q rd s = Some (Inr m, s')" "view s' = (rest, e)"
    using receiveMessage_fits [OF assms(1) TrueI assms(2,3)] by blast
  have "keeps (\<lambda>s'. sent s' = sent s \<and> ready s') (receiveMessage Q rd s)"
    using assms(4) by (intro receiveMessage_keeps rd_keeps) simp_all
  with that s' show thesis by (simp add: keeps_def)
qed

lemma send_channel:
  assumes "fits Q m" "ready s"
  obtains s' where "sendMessage Q wr s m = Some (None, s')" "sent s' = sent s @ frame_of Q m" "ready s'" "view s' = view s"
proof -
  obtain s' where s': "sendMessage Q wr s m = Some (None, s')" "sent s' = sent s @ frame_of Q m" "ready s'"
    using sendMessage_fits [OF assms(2,1)] by blast
  have "keeps (\<lambda>s'. view s' = view s) (sendMessage Q wr s m)"
    by (rule sendMessage_keeps [OF wr_keeps refl])
  with that s' show thesis by (simp add: keeps_def)
qed

text \<open>The server's side of the handshake, when its answer can be sent.\<close>

lemma handshake_answers:
  assumes "proto_lossless Q" "fits Q msg" "fits Q (response_msg cfg msg)" "m_Type msg = SERVICE_REQUEST"
    and "m_ServiceName msg \<noteq> []" "m_Protocol msg \<noteq> []"
    and "view ss = (frame_of Q msg @ rest, e)" "ready ss"
  shows "\<exists>rs ss'. handleServiceHandshake (NewServer cfg) Q rd wr ss = Some (rs, ss') \<and>
    sent ss' = sent ss @ frame_of Q (response_msg cfg msg) \<and> ready ss' \<and> view ss' = (rest, e) \<and>
    ((\<exists>x. rs = Inr x) \<longleftrightarrow> (\<exists>service. request_allowed cfg msg service)) \<and>
    (\<forall>service. request_allowed cfg msg service \<longrightarrow> rs = Inr (service, m_ServiceName msg, m_Protocol msg))"
proof -
  obtain s1 where s1: "receiveMessage Q rd ss = Some (Inr msg, s1)" "view s1 = (rest, e)" "sent s1 = sent ss" "ready s1"
    using receive_channel [OF assms(1,2,7,8)] by blast
  obtain s2 where s2: "sendMessage Q wr s1 (response_msg cfg msg) = Some (None, s2)"
    "sent s2 = sent s1 @ frame_of Q (response_msg cfg msg)" "ready s2" "view s2 = view s1"
    using send_channel [OF assms(3) s1(4)] by blast
  obtain so data code info where v: "validateServiceRequest (NewServer cfg) msg = (so, data, code, info)"
    by (metis prod.exhaust)
  have "(\<exists>service. request_allowed cfg msg service) \<longleftrightarrow> so \<noteq> None"
    using response_msg_spec [of cfg msg] v by (cases so) (auto simp: response_msg_def)
  moreover have "so = Some service" if "request_allowed cfg msg service" for service
    using validate_granted [of cfg msg service] that v by auto
  ultimately show ?thesis
    using s1 s2 v assms(4-6)
    by (cases so) (auto simp: handleServiceHandshake_def ReceiveOne_def response_msg_def SendServiceResponse_def
        SendWithTTL_def ttl_default)
qed

text \<open>The client's side, when the answer is on the stream.\<close>

lemma client_learns:
  assumes "proto_lossless Q" "fits Q (request_msg name protocol pwd)" "fits Q resp" "m_Type resp = SERVICE_RESPONSE"
    and "view cc = (frame_of Q resp @ rest, e)" "ready cc"
  shows "\<exists>rc cc'. checkServiceAvailability Q wr (ReceiveOne Q rd) cc name protocol pwd = Some (rc, cc') \<and>
    sent cc' = sent cc @ frame_of Q (request_msg name protocol pwd) \<and> ready cc' \<and> view cc' = (rest, e) \<and>
    (if m_Success resp then rc = Inr resp else \<exists>err. rc = Inl err)"
proof -
  obtain c1 where c1: "sendMessage Q wr cc (request_msg name protocol pwd) = Some (None, c1)"
    "sent c1 = sent cc @ frame_of Q (request_msg name protocol pwd)" "ready c1" "view c1 = view cc"
    using send_channel [OF assms(2,6)] by blast
  obtain c2 where c2: "receiveMessage Q rd c1 = Some (Inr resp, c2)" "view c2 = (rest, e)" "sent c2 = sent c1" "ready c2"
    using receive_channel [OF assms(1,3) _ c1(3)] c1(4) assms(5) by metis
  show ?thesis
    using c1 c2 assms(4) by (auto simp: checkServiceAvailability_def SendServiceRequest_msg ReceiveOne_def)
qed

end

text \<open>The plain stream is such a channel, and so is the zstd duplex on it.\<close>

interpretation pc: message_channel conn_read conn_view conn_write out_bytes conn_healthy
proof unfold_locales
  show "out_bytes s = b \<and> conn_healthy s \<Longrightarrow> keeps (\<lambda>s. out_bytes s = b \<and> conn_healthy s) (conn_read s n)" for s b n
    using conn_read_keeps_out [of s "(b, True)" n] by (simp add: outward_def)
qed (rule conn_write_keeps_view)

text \<open>For the duplex: a healthy stream that still has, at the start of what was written, the bytes \<open>b\<close>
  from before the duplex was made.\<close>

definition healthy_from :: "bytes \<Rightarrow> conn \<Rightarrow> bool" where
  "healthy_from b c \<longleftrightarrow> conn_healthy c \<and> (\<exists>w. out_bytes c = b @ w)"

interpretation hf: reliable_sink conn_write out_bytes "healthy_from b" for b
  by unfold_locales (auto simp: conn_write_def conn_healthy_def healthy_from_def split: option.split)

abbreviation duplex_sent :: "zstd_lib \<Rightarrow> bytes \<Rightarrow> conn ZstdDuplex \<Rightarrow> bytes" where
  "duplex_sent L b \<equiv> zstd_sent L (length b) out_bytes"

abbreviation duplex_ready :: "zstd_lib \<Rightarrow> bytes \<Rightarrow> conn ZstdDuplex \<Rightarrow> bool" where
  "duplex_ready L b \<equiv> zstd_ready L (length b) out_bytes (healthy_from b)"

lemma zstd_channel:
  assumes "zstd_lossless L" "chunk_ok P"
  shows "message_channel (zstd_Read L conn_read) (zstd_view L conn_view) (zstd_Write P L conn_write)
    (duplex_sent L b) (duplex_ready L b)"
proof (intro message_channel.intro message_channel_axioms.intro)
  show "byte_source (zstd_Read L conn_read) (zstd_view L conn_view) (\<lambda>_. True)" by (rule cs.zstd_source)
  show "reliable_sink (zstd_Write P L conn_write) (duplex_sent L b) (duplex_ready L b)"
    by (rule hf.zstd_reliable [OF assms])
next
  fix z d n
  assume a: "duplex_sent L b z = d \<and> duplex_ready L b z"
  have "keeps (\<lambda>z'. outward (base z') = outward (base z)) (zstd_Read L conn_read z n)"
    by (rule zstd_Read_keeps [OF conn_read_keeps_out]) simp_all
  then show "keeps (\<lambda>z. duplex_sent L b z = d \<and> duplex_ready L b z) (zstd_Read L conn_read z n)"
    using a by (auto simp: keeps_def outward_def zstd_sent_def zstd_ready_def healthy_from_def)
next
  fix z v p
  assume "zstd_view L conn_view z = v"
  moreover have "keeps (\<lambda>z'. conn_view (base z') = conn_view (base z) \<and> readBuf z' = readBuf z) (zstd_Write P L conn_write z p)"
    by (rule zstd_Write_keeps [OF conn_write_keeps_view assms(2)]) simp_all
  ultimately show "keeps (\<lambda>z. zstd_view L conn_view z = v) (zstd_Write P L conn_write z p)"
    by (simp add: keeps_def zstd_view_def)
qed

text \<open>C10: the two sides of a data stream agree about a service request: the server's handshake succeeds
  exactly if its configuration allows the request, and a client that reads the server's answer
  succeeds in exactly the same cases and then reads the compression that the configuration
  prescribes.\<close>

theorem service_agreement:
  assumes "proto_lossless Q" "fits Q (request_msg name protocol pwd)"
    and "fits Q (response_msg cfg (request_msg name protocol pwd))"
    and "name \<noteq> []" "protocol \<noteq> []"
    and "conn_view ss = (frame_of Q (request_msg name protocol pwd) @ rest, e)" "conn_healthy ss"
    and "handleServiceHandshake (NewServer cfg) Q conn_read conn_write ss = Some (rs, ss')"
    and "conn_view cc = (drop (length (out_bytes ss)) (out_bytes ss') @ rest', e')" "conn_healthy cc"
  shows "\<exists>rc cc'. checkServiceAvailability Q conn_write (ReceiveOne Q conn_read) cc name protocol pwd = Some (rc, cc') \<and>
    out_bytes cc' = out_bytes cc @ frame_of Q (request_msg name protocol pwd) \<and>
    ((\<exists>x. rs = Inr x) \<longleftrightarrow> (\<exists>service. request_allowed cfg (request_msg name protocol pwd) service)) \<and>
    ((\<exists>resp. rc = Inr resp) \<longleftrightarrow> (\<exists>service. request_allowed cfg (request_msg name protocol pwd) service)) \<and>
    (\<forall>resp service. rc = Inr resp \<and> request_allowed cfg (request_msg name protocol pwd) service \<longrightarrow>
       m_Data resp ''zstd'' = Some (format_bool (service_compress cfg service)))"
proof -
  let ?req = "request_msg name protocol pwd"
  have s: "out_bytes ss' = out_bytes ss @ frame_of Q (response_msg cfg ?req)"
      "(\<exists>x. rs = Inr x) \<longleftrightarrow> (\<exists>service. request_allowed cfg ?req service)"
    using pc.handshake_answers [OF assms(1-3) _ _ _ assms(6,7)] assms(4,5,8) by (auto simp: request_msg_def)
  note spec = response_msg_spec [of cfg ?req]
  have "conn_view cc = (frame_of Q (response_msg cfg ?req) @ rest', e')" using assms(9) s(1) by simp
  from pc.client_learns [OF assms(1-3) _ this assms(10)] spec obtain rc cc' where
    c: "checkServiceAvailability Q conn_write (ReceiveOne Q conn_read) cc name protocol pwd = Some (rc, cc')"
      "out_bytes cc' = out_bytes cc @ frame_of Q ?req"
      "if m_Success (response_msg cfg ?req) then rc = Inr (response_msg cfg ?req) else \<exists>err. rc = Inl err"
    by blast
  show ?thesis using c s(2) spec by (intro exI [of _ rc] exI [of _ cc']) (auto split: if_splits)
qed


text \<open>The messages of an authentication.\<close>

definition required_msg :: "bool \<Rightarrow> UnifiedMessage" where
  "required_msg r = zero_message\<lparr>m_Type := PASSWORD_REQUIRED, m_RequirePassword := r, m_TtlMs := 30000\<rparr>"

definition auth_msg :: "string \<Rightarrow> UnifiedMessage" where
  "auth_msg p = zero_message\<lparr>m_Type := AUTH_REQUEST, m_Password := p, m_TtlMs := 30000\<rparr>"

definition verdict_msg :: "bool \<Rightarrow> UnifiedMessage" where
  "verdict_msg ok = zero_message\<lparr>m_Type := AUTH_RESPONSE, m_Success := ok,
     m_Message := (if ok then [] else ''Invalid password''), m_TtlMs := 30000\<rparr>"

lemmas auth_msgs = required_msg_def auth_msg_def verdict_msg_def zero_message_def

text \<open>The password a client answers with: the cached one, else the one typed; none when none is required.\<close>

definition client_password :: "bool \<Rightarrow> string \<Rightarrow> Client \<Rightarrow> string" where
  "client_password required typed c =
     (if required then (if hasCachedServerPassword c then cachedServerPassword c else typed) else [])"

definition password_ok :: "bcrypt_lib \<Rightarrow> Config \<Rightarrow> string \<Rightarrow> bool" where
  "password_ok B cfg p \<longleftrightarrow>
     (let hash = PasswordHash (F2P_Config.Config.Server cfg) in hash = [] \<or> VerifyPassword B p hash)"

lemma server_auth_run:
  assumes "fits Q (required_msg (PasswordHash (F2P_Config.Config.Server cfg) \<noteq> []))"
    and "fits Q (verdict_msg (password_ok B cfg p))" and "conn_healthy ss"
  shows "\<exists>rs ss'. handleAuthOnControl (NewServer cfg) B Q conn_write ss (answers (Inr (auth_msg p))) = Some (rs, ss') \<and>
    out_bytes ss' = out_bytes ss @ frame_of Q (required_msg (PasswordHash (F2P_Config.Config.Server cfg) \<noteq> [])) @
      frame_of Q (verdict_msg (password_ok B cfg p)) \<and> (rs = None \<longleftrightarrow> password_ok B cfg p)"
proof -
  obtain s1 where s1: "sendMessage Q conn_write ss (required_msg (PasswordHash (F2P_Config.Config.Server cfg) \<noteq> [])) = Some (None, s1)"
    "out_bytes s1 = out_bytes ss @ frame_of Q (required_msg (PasswordHash (F2P_Config.Config.Server cfg) \<noteq> []))" "conn_healthy s1"
    using hk.sendMessage_fits [OF assms(3,1)] by blast
  obtain s2 where s2: "sendMessage Q conn_write s1 (verdict_msg (password_ok B cfg p)) = Some (None, s2)"
    "out_bytes s2 = out_bytes s1 @ frame_of Q (verdict_msg (password_ok B cfg p))"
    using hk.sendMessage_fits [OF s1(3) assms(2)] by blast
  show ?thesis
    using s1 s2
    by (cases "password_ok B cfg p")
      (auto simp: handleAuthOnControl_def SendPasswordRequired_def SendAuthResponse_def SendWithTTL_def ttl_default
        auth_msgs NewServer_tables password_ok_def Let_def)
qed

lemma client_auth_run:
  assumes "wait PASSWORD_REQUIRED = (\<lambda>s. Some (Inr (required_msg req), s))"
    and "wait AUTH_RESPONSE = (\<lambda>s. Some (Inr (verdict_msg ok), s))"
    and "fits Q (auth_msg (client_password req typed c))" "conn_healthy cc"
    and "controlDispatcher c \<noteq> None" "controlMessager c \<noteq> None"
  shows "\<exists>re c' cc'. authenticateWithServer Q conn_write wait (Inr typed) c cc = Some (re, c', cc') \<and>
    out_bytes cc' = out_bytes cc @ frame_of Q (auth_msg (client_password req typed c)) \<and> (re = None \<longleftrightarrow> ok) \<and>
    (\<not> ok \<longrightarrow> \<not> hasCachedServerPassword c') \<and>
    (ok \<and> req \<longrightarrow> hasCachedServerPassword c' \<and> cachedServerPassword c' = client_password req typed c)"
proof -
  obtain c1 where c1: "sendMessage Q conn_write cc (auth_msg (client_password req typed c)) = Some (None, c1)"
    "out_bytes c1 = out_bytes cc @ frame_of Q (auth_msg (client_password req typed c))"
    using hk.sendMessage_fits [OF assms(4,3)] by blast
  have send: "SendAuthRequest Q conn_write cc p = sendMessage Q conn_write cc (auth_msg p)" for p
    by (simp add: SendAuthRequest_def SendWithTTL_def ttl_default auth_msg_def)
  have fields: "\<And>r. m_RequirePassword (required_msg r) = r" "\<And>b. m_Type (verdict_msg b) = AUTH_RESPONSE"
      "\<And>b. m_Success (verdict_msg b) = b"
    by (simp_all add: auth_msgs)
  note run = authenticateWithServer_def assms(1,2) send fields
  show ?thesis
    using assms(5,6) c1 unfolding client_password_def
    by (cases req; cases "hasCachedServerPassword c"; cases ok) (simp_all add: run del: not_None_eq)
qed

text \<open>The client and the server agree about an authentication. When the server waits for the client's
  request it answers with the two messages that the client waits for, both sides succeed exactly if
  no password is configured or the client's password verifies, and the client then keeps a required
  password for the next time and forgets one that was refused.\<close>

theorem auth_agreement:
  fixes cfg :: Config and typed :: string and c :: Client
  defines "req \<equiv> PasswordHash (F2P_Config.Config.Server cfg) \<noteq> []"
  defines "p \<equiv> client_password req typed c"
  assumes "fits Q (required_msg req)" "fits Q (auth_msg p)" "fits Q (verdict_msg (password_ok B cfg p))"
    and "conn_healthy ss" "conn_healthy cc"
    and "controlDispatcher c \<noteq> None" "controlMessager c \<noteq> None"
  shows "\<exists>rs ss' m1 m2. handleAuthOnControl (NewServer cfg) B Q conn_write ss (answers (Inr (auth_msg p))) = Some (rs, ss') \<and>
    out_bytes ss' = out_bytes ss @ frame_of Q m1 @ frame_of Q m2 \<and> (rs = None \<longleftrightarrow> password_ok B cfg p) \<and>
    (\<forall>wait. wait PASSWORD_REQUIRED = (\<lambda>s. Some (Inr m1, s)) \<and> wait AUTH_RESPONSE = (\<lambda>s. Some (Inr m2, s)) \<longrightarrow>
      (\<exists>re c' cc'. authenticateWithServer Q conn_write wait (Inr typed) c cc = Some (re, c', cc') \<and>
        out_bytes cc' = out_bytes cc @ frame_of Q (auth_msg p) \<and> (re = None \<longleftrightarrow> password_ok B cfg p) \<and>
        (re \<noteq> None \<longrightarrow> \<not> hasCachedServerPassword c') \<and>
        (re = None \<and> req \<longrightarrow> hasCachedServerPassword c' \<and> cachedServerPassword c' = p)))"
proof -
  obtain rs ss' where s: "handleAuthOnControl (NewServer cfg) B Q conn_write ss (answers (Inr (auth_msg p))) = Some (rs, ss')"
    "out_bytes ss' = out_bytes ss @ frame_of Q (required_msg req) @ frame_of Q (verdict_msg (password_ok B cfg p))"
    "rs = None \<longleftrightarrow> password_ok B cfg p"
    using server_auth_run [of Q cfg B p ss] assms(3,5,6) unfolding req_def by blast
  have client: "\<exists>re c' cc'. authenticateWithServer Q conn_write wait (Inr typed) c cc = Some (re, c', cc') \<and>
        out_bytes cc' = out_bytes cc @ frame_of Q (auth_msg p) \<and> (re = None \<longleftrightarrow> password_ok B cfg p) \<and>
        (re \<noteq> None \<longrightarrow> \<not> hasCachedServerPassword c') \<and>
        (re = None \<and> req \<longrightarrow> hasCachedServerPassword c' \<and> cachedServerPassword c' = p)"
    if "wait PASSWORD_REQUIRED = (\<lambda>s. Some (Inr (required_msg req), s))"
       "wait AUTH_RESPONSE = (\<lambda>s. Some (Inr (verdict_msg (password_ok B cfg p)), s))" for wait
    using client_auth_run [of wait req "password_ok B cfg p" Q typed c cc, OF that] assms(4,7-9) unfolding p_def by auto
  show ?thesis
    by (intro exI [of _ rs] exI [of _ ss'] exI [of _ "required_msg req"] exI [of _ "verdict_msg (password_ok B cfg p)"]
        conjI s allI impI client) auto
qed


section \<open>Witnesses\<close>

text \<open>An encoding of the messages of a list by their position.\<close>

definition list_proto :: "UnifiedMessage list \<Rightarrow> proto_lib" where
  "list_proto ms =
     \<lparr>Marshal = (\<lambda>m. case find (\<lambda>i. ms ! i = m) [0..<length ms] of Some i \<Rightarrow> Inr [of_nat (Suc i)] | None \<Rightarrow> Inl EOF),
      Unmarshal = (\<lambda>d. case d of
          [] \<Rightarrow> Inr zero_message
        | [b] \<Rightarrow> if 0 < unat b \<and> unat b \<le> length ms then Inr (ms ! (unat b - 1)) else Inl EOF
        | _ \<Rightarrow> Inl EOF)\<rparr>"

lemma list_proto_lossless: "length ms < 200 \<Longrightarrow> proto_lossless (list_proto ms)"
proof -
  assume "length ms < 200"
  then have "unat (of_nat (Suc i) :: byte) = Suc i" if "i < length ms" for i
    using that by (simp add: unsigned_of_nat take_bit_nat_eq_self del: of_nat_Suc)
  then show ?thesis
    by (auto simp: proto_lossless_def list_proto_def find_Some_iff simp del: of_nat_Suc split: option.splits)
qed

lemma list_proto_fits: "m \<in> set ms \<Longrightarrow> fits (list_proto ms) m"
  by (auto simp: fits_def list_proto_def find_None_iff in_set_conv_nth maxProtoMsgSize_def split: option.splits)

definition example_agreed :: "UnifiedMessage list" where
  "example_agreed = [request_msg ''ssh'' ''tcp'' ''pw'',
     response_msg example_server_config (request_msg ''ssh'' ''tcp'' ''pw''),
     required_msg True, auth_msg ''secret'', verdict_msg (password_ok example_bcrypt example_server_config ''secret'')]"

lemma example_agreed_proto: "proto_lossless (list_proto example_agreed)"
    "m \<in> set example_agreed \<Longrightarrow> fits (list_proto example_agreed) m"
  by (rule list_proto_lossless, simp add: example_agreed_def) (rule list_proto_fits)

theorem service_agreement_witness:
  "\<exists>rs ss' rc cc'.
     handleServiceHandshake (NewServer example_server_config) (list_proto example_agreed) conn_read conn_write
       (example_conn (frame_of (list_proto example_agreed) (request_msg ''ssh'' ''tcp'' ''pw''))) = Some (Inr rs, ss') \<and>
     checkServiceAvailability (list_proto example_agreed) conn_write (ReceiveOne (list_proto example_agreed) conn_read)
       (example_conn (out_bytes ss')) ''ssh'' ''tcp'' ''pw'' = Some (Inr rc, cc') \<and>
     m_Data rc ''zstd'' = Some ''false''"
proof -
  let ?Q = "list_proto example_agreed" and ?req = "request_msg ''ssh'' ''tcp'' ''pw''"
  let ?ss = "example_conn (frame_of ?Q ?req)"
  have fit: "fits ?Q ?req" "fits ?Q (response_msg example_server_config ?req)"
    by (rule example_agreed_proto(2); simp add: example_agreed_def)+
  obtain service where svc: "request_allowed example_server_config ?req service" "format_bool (service_compress example_server_config service) = ''false''"
    by (auto simp: request_allowed_def find_service_def example_server_config_def request_msg_def service_compress_def format_bool_def)
  have ne: "''ssh'' \<noteq> []" "''tcp'' \<noteq> []" by simp_all
  have v: "conn_view ?ss = (frame_of ?Q ?req @ [], EOF)" by simp
  obtain rs ss' where s: "handleServiceHandshake (NewServer example_server_config) ?Q conn_read conn_write ?ss = Some (rs, ss')"
    using pc.handshake_answers [OF example_agreed_proto(1) fit _ _ _ v] by (auto simp: request_msg_def)
  have "conn_view (example_conn (out_bytes ss')) = (drop (length (out_bytes ?ss)) (out_bytes ss') @ [], EOF)" by simp
  from service_agreement [OF example_agreed_proto(1) fit ne v example_conn(2) s this example_conn(2)]
  obtain rc cc' where a: "checkServiceAvailability ?Q conn_write (ReceiveOne ?Q conn_read) (example_conn (out_bytes ss'))
        ''ssh'' ''tcp'' ''pw'' = Some (rc, cc')"
      "(\<exists>x. rs = Inr x) \<longleftrightarrow> (\<exists>service. request_allowed example_server_config ?req service)"
      "(\<exists>resp. rc = Inr resp) \<longleftrightarrow> (\<exists>service. request_allowed example_server_config ?req service)"
      "\<forall>resp service. rc = Inr resp \<and> request_allowed example_server_config ?req service \<longrightarrow>
         m_Data resp ''zstd'' = Some (format_bool (service_compress example_server_config service))"
    by (elim exE conjE) (rule that)
  obtain x resp where xr: "rs = Inr x" "rc = Inr resp" using a(2,3) svc(1) by blast
  have "m_Data resp ''zstd'' = Some ''false''" using a(4) xr(2) svc by metis
  with s a(1) xr show ?thesis by blast
qed

theorem auth_agreement_witness:
  "\<exists>rs ss'. handleAuthOnControl (NewServer example_server_config) example_bcrypt (list_proto example_agreed) conn_write
     fresh_conn (answers (Inr (auth_msg ''secret''))) = Some (rs, ss') \<and> rs = None"
proof -
  let ?Q = "list_proto example_agreed"
  let ?c = "(NewClient example_server_config)\<lparr>controlStream := Some 1, controlMessager := Some 1, controlDispatcher := Some 1\<rparr>"
  have req: "PasswordHash (F2P_Config.Config.Server example_server_config) \<noteq> []" by (simp add: example_server_config_def)
  have p: "client_password True ''secret'' ?c = ''secret''" by (simp add: client_password_def NewClient_def)
  have ok: "password_ok example_bcrypt example_server_config ''secret''"
    by (simp add: password_ok_def example_server_config_def VerifyPassword_def example_bcrypt_def)
  have fit: "fits ?Q (required_msg True)" "fits ?Q (auth_msg ''secret'')"
      "fits ?Q (verdict_msg (password_ok example_bcrypt example_server_config ''secret''))"
    by (rule example_agreed_proto(2); simp add: example_agreed_def)+
  have "conn_healthy fresh_conn" by (simp add: conn_healthy_def fresh_conn_def)
  then show ?thesis
    using auth_agreement [of ?Q example_server_config "''secret''" ?c example_bcrypt fresh_conn fresh_conn] req p ok fit
    by auto
qed

end
