(* ===== verification/F2P_Main.thy ===== *)
theory F2P_Main
  imports F2P_Agreement F2P_Sessions
begin

text \<open>
  \<^verbatim>\<open>cmd/f2p/main.go\<close>, \<^verbatim>\<open>internal/logger\<close>, and the starting and stopping of the server (\<^verbatim>\<open>server.go\<close>,
  \<^verbatim>\<open>info.go\<close>) and of the client (\<^verbatim>\<open>client.go\<close>). The command line is a list of strings, the terminal a
  list of events as in \<open>F2P_Terminal\<close>, the file system a map. The libraries that make a host, a DHT
  and a connection manager are arguments that say which of their calls fail. The lemmas show that a
  program is started only on a loaded and valid configuration, that a changed password is the one
  that verifies after the next start, which peers are offered as relays and what the log prints.
\<close>

section \<open>The logger\<close>

type_synonym level = int

definition LevelDebug :: level where "LevelDebug = -4"
definition LevelInfo :: level where "LevelInfo = 0"
definition LevelWarn :: level where "LevelWarn = 4"
definition LevelError :: level where "LevelError = 8"

record 'l CustomHandler =
  ch_level :: level
  ch_loc :: 'l

text \<open>\<open>getenv\<close> gives the empty string for a variable that is not set, \<open>load\<close> is \<^verbatim>\<open>time.LoadLocation\<close>.\<close>

definition NewCustomHandler ::
    "(string \<Rightarrow> string) \<Rightarrow> (string \<Rightarrow> error + 'l) \<Rightarrow> 'l \<Rightarrow> level \<Rightarrow> 'l CustomHandler" where
  "NewCustomHandler getenv load localLoc lvl =
     (let tz1 = getenv ''LOG_TZ''; tz2 = getenv ''TZ'';
          loc = (if tz1 \<noteq> [] then (case load tz1 of Inr l \<Rightarrow> l | Inl _ \<Rightarrow> localLoc)
                 else if tz2 \<noteq> [] then (case load tz2 of Inr l \<Rightarrow> l | Inl _ \<Rightarrow> localLoc)
                 else localLoc)
      in \<lparr>ch_level = lvl, ch_loc = loc\<rparr>)"

definition Enabled :: "'l CustomHandler \<Rightarrow> level \<Rightarrow> bool" where
  "Enabled h lvl \<longleftrightarrow> lvl \<ge> ch_level h"

text \<open>The handler drops attributes and groups that are added to it: \<open>attrs\<close> and \<open>name\<close> have no effect.\<close>

definition WithAttrs :: "(string \<times> string) list \<Rightarrow> 'l CustomHandler \<Rightarrow> 'l CustomHandler" where
  "WithAttrs attrs h = h"

definition WithGroup :: "string \<Rightarrow> 'l CustomHandler \<Rightarrow> 'l CustomHandler" where
  "WithGroup name h = h"

definition esc :: "string \<Rightarrow> string" where
  "esc s = [CHR 0x1B] @ ''['' @ s @ ''m''"

text \<open>A record: its level, message and attributes, with the values printed; \<open>stamp\<close> is the formatted time
  in the handler's location, \<open>other\<close> the name of a level without a name of its own.\<close>

record log_record =
  r_Level :: level
  r_Message :: string
  r_Attrs :: "(string \<times> string) list"

definition Handle :: "('l \<Rightarrow> string) \<Rightarrow> (level \<Rightarrow> string) \<Rightarrow> 'l CustomHandler \<Rightarrow> log_record \<Rightarrow> string" where
  "Handle stamp other h r =
     (let (levelStr, colorCode) =
            (if r_Level r = LevelDebug then (''DEBUG'', esc ''36'')
             else if r_Level r = LevelInfo then (''INFO'', esc ''34'')
             else if r_Level r = LevelWarn then (''WARN'', esc ''33'')
             else if r_Level r = LevelError then (''ERROR'', esc ''31'')
             else (other (r_Level r), esc ''37''))
      in colorCode @ ''['' @ stamp (ch_loc h) @ ''] ['' @ levelStr @ ''] '' @ r_Message r @ esc ''0'' @
         concat (map (\<lambda>(k, v). if k \<noteq> [] then '' '' @ esc ''90'' @ ''('' @ k @ '': '' @ v @ '')'' @ esc ''0'' else [])
           (r_Attrs r)) @ [CHR 0x0A])"

definition log_level :: "string \<Rightarrow> level" where
  "log_level lvl =
     (let l = ToLower lvl
      in if l = ''debug'' then LevelDebug
         else if l = ''info'' then LevelInfo
         else if l = ''warn'' \<or> l = ''warning'' then LevelWarn
         else if l = ''error'' then LevelError
         else LevelInfo)"

definition InitLogger :: "(string \<Rightarrow> string) \<Rightarrow> (string \<Rightarrow> error + 'l) \<Rightarrow> 'l \<Rightarrow> string \<Rightarrow> 'l CustomHandler" where
  "InitLogger getenv load localLoc lvl = NewCustomHandler getenv load localLoc (log_level lvl)"

section \<open>Starting the server\<close>

text \<open>Addresses that do not parse are skipped.\<close>

fun listen_addrs :: "(string \<Rightarrow> error + 'a) \<Rightarrow> string list \<Rightarrow> 'a list" where
  "listen_addrs parse [] = []"
| "listen_addrs parse (s # ss) = (case parse s of Inl e \<Rightarrow> listen_addrs parse ss | Inr a \<Rightarrow> a # listen_addrs parse ss)"

text \<open>Waiting for peers in the routing table: the sizes seen by the polls.\<close>

fun wait_peers :: "nat list \<Rightarrow> bool" where
  "wait_peers [] = False"
| "wait_peers (n # ns) = (if n > 0 then True else wait_peers ns)"

definition contains :: "string \<Rightarrow> string \<Rightarrow> bool" where
  "contains s p \<longleftrightarrow> (\<exists>k \<le> length s. take (length p) (drop k s) = p)"

datatype relay_event = RelayTimeout | RelayTick "string list" | RelayCtxDone

text \<open>\<open>None\<close>: still waiting after these events.\<close>

fun wait_relay :: "relay_event list \<Rightarrow> (error option) option" where
  "wait_relay [] = None"
| "wait_relay (RelayTimeout # es) = Some None"
| "wait_relay (RelayTick addrs # es) =
     (if list_ex (\<lambda>a. contains a ''p2p-circuit'') addrs then Some None else wait_relay es)"
| "wait_relay (RelayCtxDone # es) = Some (Some (Errorf ''context cancelled while waiting for relay'' []))"

datatype stream_handler = ControlHandler | DataHandler | SignalingHandler

definition stream_handlers :: "Server \<Rightarrow> (string \<times> stream_handler) list" where
  "stream_handlers s =
     (let base = cc_Protocol (Common (config s))
      in [(ControlProtocol base, ControlHandler), (DataProtocol base, DataHandler),
          (DataProtocolZstd base, DataHandler), (SignalingProtocol base, SignalingHandler)])"

text \<open>The options of libp2p that the program uses, with their numbers and durations.\<close>

datatype ('k, 'a) libp2p_option =
    O_Identity 'k | O_ListenAddrs "'a list" | O_EnableRelay | O_EnableAutoNATv2 | O_EnableHolePunching
  | O_EnableNATService | O_NATPortMap | O_AutoRelayWithPeerSource duration duration nat | O_UserAgent string
  | O_SecurityNoise | O_SecurityTLS | O_DialTimeout duration | O_ConnectionManager nat nat duration | O_ResourceManager

text \<open>The failures of the libraries and what the waiting loops see; \<open>se_host\<close> is \<^verbatim>\<open>libp2p.New\<close>.\<close>

record ('k, 'a) start_env =
  se_connmgr :: "error option"
  se_rcmgr :: "error option"
  se_host :: "('k, 'a) libp2p_option list \<Rightarrow> error option"
  se_dht :: "error option"
  se_bootstrap :: "error option"
  se_peers :: "nat list"
  se_relay :: "relay_event list"

text \<open>The managers of connections and resources are left out when they cannot be made.\<close>

definition manager_opts :: "('k, 'a) start_env \<Rightarrow> ('k, 'a) libp2p_option list" where
  "manager_opts V =
     (case se_connmgr V of Some _ \<Rightarrow> [] | None \<Rightarrow> [O_ConnectionManager 20 40 (60 * second)]) @
     (case se_rcmgr V of Some _ \<Rightarrow> [] | None \<Rightarrow> [O_ResourceManager])"

definition server_opts :: "('k, 'a) start_env \<Rightarrow> 'k \<Rightarrow> 'a list \<Rightarrow> ('k, 'a) libp2p_option list" where
  "server_opts V privKey listenAddrs =
     [O_Identity privKey, O_ListenAddrs listenAddrs, O_EnableRelay, O_EnableAutoNATv2, O_EnableHolePunching,
      O_EnableNATService, O_NATPortMap, O_AutoRelayWithPeerSource (30 * 60 * second) (15 * 60 * second) 3,
      O_UserAgent UserAgent] @ manager_opts V"

record 'a started =
  st_params :: zstd_params
  st_addrs :: "'a list"
  st_handlers :: "(string \<times> stream_handler) list"

definition zstd_of :: "Config \<Rightarrow> zstd_params" where
  "zstd_of cfg = ConfigureZstdParams (ZstdLevel (Common cfg)) (ZstdMinSizeB (Common cfg)) (ZstdChunkSizeKB (Common cfg) * 1024)"

definition Server_Start ::
    "'k key_lib \<Rightarrow> (string \<Rightarrow> error + 'a) \<Rightarrow> ('k, 'a) start_env \<Rightarrow> Server \<Rightarrow> (error + 'a started) option" where
  "Server_Start K parse V s =
     (case generateFixedKey K s of
        Inl e \<Rightarrow> Some (Inl (Errorf ''failed to generate fixed key: %v'' [FErr e]))
      | Inr privKey \<Rightarrow>
        let r = \<lparr>st_params = zstd_of (config s), st_addrs = listen_addrs parse (Listen (Common (config s))),
                 st_handlers = stream_handlers s\<rparr>
        in case se_host V (server_opts V privKey (st_addrs r)) of
          Some e \<Rightarrow> Some (Inl (Errorf ''failed to create libp2p host: %v'' [FErr e]))
        | None \<Rightarrow>
          (case se_dht V of
             Some e \<Rightarrow> Some (Inl (Errorf ''failed to create DHT: %v'' [FErr e]))
           | None \<Rightarrow>
             (case se_bootstrap V of
                Some e \<Rightarrow> Some (Inl (Errorf ''failed to bootstrap DHT: %v'' [FErr e]))
              | None \<Rightarrow>
                if \<not> wait_peers (se_peers V) then None
                else (case wait_relay (se_relay V) of
                   None \<Rightarrow> None
                 | Some (Some e) \<Rightarrow> Some (Inl e)
                 | Some None \<Rightarrow> Some (Inr r)))))"

text \<open>The peers offered as relays: at most \<open>numPeers\<close> if that is positive, not the server itself, with
  known addresses; \<open>stop k\<close> says that the context ends instead of the \<open>k\<close>-th delivery.\<close>

fun relay_source ::
    "(nat \<Rightarrow> bool) \<Rightarrow> int \<Rightarrow> string \<Rightarrow> (string \<Rightarrow> string list) \<Rightarrow> nat \<Rightarrow> string list \<Rightarrow> (string \<times> string list) list" where
  "relay_source done' numPeers self addrs n [] = []"
| "relay_source done' numPeers self addrs n (p # ps) =
     (if numPeers > 0 \<and> int n \<ge> numPeers then []
      else if p = self then relay_source done' numPeers self addrs n ps
      else if addrs p = [] then relay_source done' numPeers self addrs n ps
      else if done' n then []
      else (p, addrs p) # relay_source done' numPeers self addrs (Suc n) ps)"

definition createAutoRelayPeerSource ::
    "(nat \<Rightarrow> bool) \<Rightarrow> int \<Rightarrow> string \<Rightarrow> (string \<Rightarrow> string list) \<Rightarrow> error + string list \<Rightarrow> (string \<times> string list) list" where
  "createAutoRelayPeerSource done' numPeers self addrs closest =
     (case closest of Inl e \<Rightarrow> [] | Inr closestPeers \<Rightarrow> relay_source done' numPeers self addrs 0 closestPeers)"

section \<open>Stopping the server\<close>

text \<open>One session: the notification on its messager and the closing of its libp2p control stream, if it
  has one. The result collects the sessions that were notified.\<close>

definition notify_session :: "string \<Rightarrow> nat list \<times> sessions_state \<Rightarrow> nat list \<times> sessions_state" where
  "notify_session p ns =
     (case ns of (notified, s) \<Rightarrow>
        (case authenticatedClients s p of
           None \<Rightarrow> (notified, s)
         | Some i \<Rightarrow>
             (case sessions s i of
                None \<Rightarrow> (notified, s)
              | Some cs \<Rightarrow> (notified @ [i], close_control (ClientSession.controlStream cs) s))))"

text \<open>\<open>peers\<close> are the keys of the table in the order of the iteration.\<close>

definition notifyClientsServerShutdown :: "string list \<Rightarrow> sessions_state \<Rightarrow> nat list \<times> sessions_state" where
  "notifyClientsServerShutdown peers s = fold notify_session peers ([], s)"

text \<open>Closing the host closes every libp2p stream; the direct QUIC connections are not part of it.\<close>

definition close_host :: "sessions_state \<Rightarrow> sessions_state" where
  "close_host s = s\<lparr>streams := (\<lambda>j. map_option (\<lambda>i. if st_kind i = Libp2p then i\<lparr>st_open := False\<rparr> else i) (streams s j))\<rparr>"

definition Server_Stop :: "string list \<Rightarrow> sessions_state \<Rightarrow> nat list \<times> sessions_state" where
  "Server_Stop peers s = (case notifyClientsServerShutdown peers s of (n, s1) \<Rightarrow> (n, close_host s1))"

section \<open>Starting the client\<close>

text \<open>The identity that \<^verbatim>\<open>Start\<close> fills in when the configuration has none.\<close>

definition fill_identity :: "'k key_lib \<Rightarrow> 'k \<Rightarrow> Client \<Rightarrow> Client" where
  "fill_identity K privKey c =
     (if PrivateKey (Identity (cl_config c)) \<noteq> [] then c
      else case MarshalPrivateKey K privKey of
        Inl _ \<Rightarrow> c
      | Inr privKeyBytes \<Rightarrow>
          let idc = (Identity (cl_config c))\<lparr>PrivateKey := EncodeToString privKeyBytes\<rparr>;
              idc2 = (case IDFromPrivateKey K privKey of Inl _ \<Rightarrow> idc | Inr pid \<Rightarrow> idc\<lparr>PeerID := pid\<rparr>)
          in c\<lparr>cl_config := (cl_config c)\<lparr>Identity := idc2\<rparr>\<rparr>)"

text \<open>\<open>decodeID\<close> is \<^verbatim>\<open>peer.Decode\<close>; the relay events of the environment are not used.\<close>

definition client_opts :: "('k, 'a) start_env \<Rightarrow> 'k \<Rightarrow> 'a list \<Rightarrow> ('k, 'a) libp2p_option list" where
  "client_opts V privKey listenAddrs =
     [O_Identity privKey, O_ListenAddrs listenAddrs, O_EnableHolePunching, O_EnableAutoNATv2, O_EnableNATService,
      O_UserAgent UserAgent, O_NATPortMap, O_SecurityNoise, O_SecurityTLS, O_DialTimeout (5 * second)] @ manager_opts V"

definition Client_Start ::
    "'k key_lib \<Rightarrow> (string \<Rightarrow> error + 'p) \<Rightarrow> (string \<Rightarrow> error + 'a) \<Rightarrow> ('k, 'a) start_env \<Rightarrow> Client \<Rightarrow>
     ((error + (zstd_params \<times> 'p \<times> 'a list)) \<times> Client) option" where
  "Client_Start K decodeID parse V c =
     (case decodeID (ServerID (F2P_Config.Config.Client (cl_config c))) of
        Inl e \<Rightarrow> Some (Inl (Errorf ''failed to decode server peer ID: %v'' [FErr e]), c)
      | Inr serverPeerID \<Rightarrow>
        (case generateClientKey K c of
           Inl e \<Rightarrow> Some (Inl (Errorf ''failed to generate client key: %v'' [FErr e]), c)
         | Inr privKey \<Rightarrow>
           let c1 = fill_identity K privKey c;
               addrs = listen_addrs parse (Listen (Common (cl_config c1)))
           in case se_host V (client_opts V privKey addrs) of
             Some e \<Rightarrow> Some (Inl (Errorf ''failed to create libp2p host: %v'' [FErr e]), c1)
           | None \<Rightarrow>
             (case se_dht V of
                Some e \<Rightarrow> Some (Inl (Errorf ''failed to create DHT: %v'' [FErr e]), c1)
              | None \<Rightarrow>
                (case se_bootstrap V of
                   Some e \<Rightarrow> Some (Inl (Errorf ''failed to bootstrap DHT: %v'' [FErr e]), c1)
                 | None \<Rightarrow>
                   if \<not> wait_peers (se_peers V) then None
                   else Some (Inr (zstd_of (cl_config c1), serverPeerID, addrs), c1)))))"

section \<open>The command line\<close>

definition DefaultConfigFile :: string where "DefaultConfigFile = ''config.toml''"

record options =
  configPath :: string
  changePassword :: bool
  regenerateIdentity :: bool
  showHelp :: bool
  generateConfig :: bool

definition no_options :: options where
  "no_options = \<lparr>configPath = DefaultConfigFile, changePassword = False, regenerateIdentity = False,
     showHelp = False, generateConfig = False\<rparr>"

function parse_args :: "string list \<Rightarrow> options \<Rightarrow> options" where
  "parse_args [] opts = opts"
| "parse_args (arg # rest) opts =
     (if arg = ''--config'' \<or> arg = ''-c'' then
        (case rest of
           [] \<Rightarrow> parse_args rest opts
         | v # rest' \<Rightarrow> parse_args rest' (opts\<lparr>configPath := v\<rparr>))
      else if arg = ''--change-pwd'' then parse_args rest (opts\<lparr>changePassword := True\<rparr>)
      else if arg = ''--regenerate-id'' \<or> arg = ''-r'' then parse_args rest (opts\<lparr>regenerateIdentity := True\<rparr>)
      else if arg = ''--generate'' \<or> arg = ''-g'' then parse_args rest (opts\<lparr>generateConfig := True\<rparr>)
      else if arg = ''--help'' \<or> arg = ''-h'' then parse_args rest (opts\<lparr>showHelp := True\<rparr>)
      else if \<not> HasPrefix arg ''-'' \<and> configPath opts = DefaultConfigFile
      then parse_args rest (opts\<lparr>configPath := arg\<rparr>)
      else parse_args rest opts)"
  by pat_completeness auto

termination parse_args
  by (relation "measure (\<lambda>(args, _). length args)") auto

text \<open>\<^verbatim>\<open>fileExists\<close>: every error of \<^verbatim>\<open>Stat\<close> but a missing file counts as existing.\<close>

definition fileExists :: "(string \<Rightarrow> bool) \<Rightarrow> string \<Rightarrow> bool" where
  "fileExists missing path \<longleftrightarrow> \<not> missing path"

text \<open>The results are the error and the files.\<close>

definition handleChangePassword ::
    "toml_lib \<Rightarrow> os_lib \<Rightarrow> bcrypt_lib \<Rightarrow> bool \<Rightarrow> files \<Rightarrow> Config \<Rightarrow> string \<Rightarrow> (error option \<times> files) console" where
  "handleChangePassword T os B isTerminal fs cfg path =
     (let finish = (\<lambda>hash. case Save T os fs (cfg\<lparr>Server := (F2P_Config.Config.Server cfg)\<lparr>PasswordHash := hash\<rparr>\<rparr>) path of
            (Some e, fs') \<Rightarrow> console_return (Some (Errorf ''failed to save config: %v'' [FErr e]), fs')
          | (None, fs') \<Rightarrow> console_return (None, fs'));
          failed = (\<lambda>what e. if errors_is e ErrPasswordInterrupted then console_return (None, fs)
            else console_return (Some (Errorf what [FWrap e]), fs))
      in if \<not> IsServer cfg
         then console_return (Some (Errorf ''password can only be changed for server configurations'' []), fs)
         else console_bind AskYesNo (\<lambda>yes.
           if \<not> yes then finish []
           else console_bind (AskPassword isTerminal) (\<lambda>r. case r of
               Inl e \<Rightarrow> failed ''failed to read password: %w'' e
             | Inr password \<Rightarrow>
               console_bind (AskPassword isTerminal) (\<lambda>r2. case r2 of
                   Inl e \<Rightarrow> failed ''failed to read password confirmation: %w'' e
                 | Inr confirmPassword \<Rightarrow>
                     if password \<noteq> confirmPassword
                     then console_return (Some (Errorf ''passwords do not match'' []), fs)
                     else finish (HashPassword B password)))))"

definition handleRegenerateIdentity ::
    "toml_lib \<Rightarrow> os_lib \<Rightarrow> 'k key_lib \<Rightarrow> files \<Rightarrow> Config \<Rightarrow> string \<Rightarrow> (error option \<times> files) console" where
  "handleRegenerateIdentity T os K fs cfg path =
     (if \<not> IsServer cfg
      then console_return (Some (Errorf ''identity can only be regenerated for server configurations'' []), fs)
      else console_bind AskYesNo (\<lambda>yes.
        if \<not> yes then console_return (None, fs)
        else (case GeneratePeerIdentity K of
            Inl e \<Rightarrow> console_return (Some (Errorf ''failed to generate new identity: %v'' [FErr e]), fs)
          | Inr (privKeyB64, pid) \<Rightarrow>
              (case Save T os fs (cfg\<lparr>Identity := (Identity cfg)\<lparr>PrivateKey := privKeyB64, PeerID := pid\<rparr>\<rparr>) path of
                 (Some e, fs') \<Rightarrow> console_return (Some (Errorf ''failed to save config: %v'' [FErr e]), fs')
               | (None, fs') \<Rightarrow> console_return (None, fs')))))"

text \<open>What the program does in the end; a run of the server or the client carries the configuration it
  starts with. \<open>startServer\<close> and \<open>startClient\<close> are the errors of starting.\<close>

datatype main_result = ShowedHelp | GeneratedConfig | PasswordDone | IdentityDone | ServerRan Config | ClientRan Config

definition runServer ::
    "toml_lib \<Rightarrow> os_lib \<Rightarrow> (Config \<Rightarrow> error option) \<Rightarrow> files \<Rightarrow> Config \<Rightarrow> string \<Rightarrow> error option \<times> files" where
  "runServer T os startServer fs cfg path = (startServer cfg, snd (Save T os fs cfg path))"

definition runClient :: "(Config \<Rightarrow> error option) \<Rightarrow> Config \<Rightarrow> error option" where
  "runClient startClient cfg = startClient cfg"

definition f2p_main ::
    "toml_lib \<Rightarrow> os_lib \<Rightarrow> bcrypt_lib \<Rightarrow> 'k key_lib \<Rightarrow> bool \<Rightarrow> (string \<Rightarrow> bool) \<Rightarrow>
     (Config \<Rightarrow> error option) \<Rightarrow> (Config \<Rightarrow> error option) \<Rightarrow> string list \<Rightarrow> files \<Rightarrow> (main_result \<times> files) console" where
  "f2p_main T os B K isTerminal missing startServer startClient args fs =
     (let opts = parse_args args no_options;
          path = configPath opts;
          finish = (\<lambda>res r. case r of (Some e, fs') \<Rightarrow> console_exit 1 | (None, fs') \<Rightarrow> console_return (res, fs'))
      in if showHelp opts then console_return (ShowedHelp, fs)
         else if generateConfig opts \<or> (\<not> changePassword opts \<and> \<not> regenerateIdentity opts \<and> \<not> fileExists missing path)
         then console_bind (GenerateInteractiveConfig T os B K isTerminal fs path) (finish GeneratedConfig)
         else (case Load T os fs path of
            Inl e \<Rightarrow> console_exit 1
          | Inr cfg \<Rightarrow>
              if changePassword opts
              then console_bind (handleChangePassword T os B isTerminal fs cfg path) (finish PasswordDone)
              else if regenerateIdentity opts
              then console_bind (handleRegenerateIdentity T os K fs cfg path) (finish IdentityDone)
              else (case ValidateConfig K cfg of
                 (Some e, cfg') \<Rightarrow> console_exit 1
               | (None, cfg') \<Rightarrow>
                   if IsServer cfg' then finish (ServerRan cfg') (runServer T os startServer fs cfg' path)
                   else finish (ClientRan cfg') (runClient startClient cfg', fs))))"

section \<open>What is started\<close>

text \<open>C38: the program runs a server or a client only on a configuration that was loaded from the chosen
  file, passed the validation and has that role, after starting it succeeded, without asking anything
  on the terminal; a server has saved the configuration before, and a client changes no file.\<close>

theorem main_starts_valid:
  assumes "f2p_main T os B K isTerminal missing startServer startClient args fs evs = Some (Return (res, fs'), evs')"
    and "res = ServerRan cfg \<or> res = ClientRan cfg"
  shows "\<exists>cfg0. Load T os fs (configPath (parse_args args no_options)) = Inr cfg0 \<and>
    ValidateConfig K cfg0 = (None, cfg) \<and> evs' = evs \<and>
    (if IsServer cfg then res = ServerRan cfg \<and> startServer cfg = None \<and>
       fs' = snd (Save T os fs cfg (configPath (parse_args args no_options)))
     else res = ClientRan cfg \<and> startClient cfg = None \<and> fs' = fs)"
proof -
  let ?opts = "parse_args args no_options"
  have no_bind: False
    if "console_bind m (\<lambda>r. case r of (Some e, fs') \<Rightarrow> console_exit 1 | (None, fs') \<Rightarrow> console_return (res', fs')) evs =
        Some (Return (res, fs'), evs')" "res' \<in> {GeneratedConfig, PasswordDone, IdentityDone}" for m res'
    using that assms(2)
    by (auto simp: console_bind_Return console_exit_def console_return_def split: option.splits)
  obtain cfg0 where L: "Load T os fs (configPath ?opts) = Inr cfg0"
    and go: "\<not> changePassword ?opts" "\<not> regenerateIdentity ?opts"
    using assms no_bind
    by (auto simp: f2p_main_def Let_def console_return_def console_exit_def split: if_splits sum.splits)
  obtain eo cfg' where V: "ValidateConfig K cfg0 = (eo, cfg')" by (cases "ValidateConfig K cfg0")
  have "\<not> showHelp ?opts" "\<not> (generateConfig ?opts \<or> \<not> fileExists missing (configPath ?opts))"
    using assms go no_bind [of _ GeneratedConfig]
    by (auto simp: f2p_main_def Let_def console_return_def split: if_splits)
  then show ?thesis
    using assms L V go
    by (auto simp: f2p_main_def Let_def console_return_def console_exit_def runServer_def runClient_def
        split: if_splits option.splits)
qed


lemma example_Load:
  "Load example_toml example_os [DefaultConfigFile \<mapsto> writeTomlHeader True @ ''x''] DefaultConfigFile = Inr example_client"
  by (simp add: Load_def ReadFile_def example_toml_def example_os_def example_client_def
      createDefaultCommonConfig_def load_constants Let_def)

lemma example_Validate: "ValidateConfig example_keys example_client = (None, example_client)"
  by (simp add: ValidateConfig_def example_client_def createDefaultClientServices_def validateProtocols_def Let_def)

theorem main_starts_valid_witness:
  "\<exists>fs'. f2p_main example_toml example_os example_bcrypt example_keys True (\<lambda>_. False) (\<lambda>_. None) (\<lambda>_. None) []
      [DefaultConfigFile \<mapsto> writeTomlHeader True @ ''x''] [] = Some (Return (ClientRan example_client, fs'), []) \<and>
    fs' = [DefaultConfigFile \<mapsto> writeTomlHeader True @ ''x'']"
proof -
  have c: "\<not> IsServer example_client" by (simp add: example_client_def)
  have "\<exists>fs'. f2p_main example_toml example_os example_bcrypt example_keys True (\<lambda>_. False) (\<lambda>_. None) (\<lambda>_. None) []
      [DefaultConfigFile \<mapsto> writeTomlHeader True @ ''x''] [] = Some (Return (ClientRan example_client, fs'), [])"
    using example_Load example_Validate c
    by (simp add: f2p_main_def no_options_def fileExists_def runClient_def console_return_def Let_def)
  then show ?thesis using main_starts_valid [where cfg = example_client] c by fastforce
qed

section \<open>Changing the password\<close>

text \<open>After the password was changed on the terminal, loading the saved file gives the same server
  configuration with a hash against which the new password verifies.\<close>

theorem change_password_effect:
  assumes "toml_lossless T" "read_error os path = None" "write_error os path = None"
    and "IsServer cfg" "zstd_in_range (Common cfg)"
    and "bcrypt_laws B" "p \<noteq> []" "GenerateFromPassword B p = Inr h"
    and "toml_encode T (toml_of (cfg\<lparr>Server := (F2P_Config.Config.Server cfg)\<lparr>PasswordHash := h\<rparr>\<rparr>)) = Inr s"
    and "yes_no y = Some True"
  shows "\<exists>fs'. handleChangePassword T os B True fs cfg path (Line y # Line p # Line p # evs) = Some (Return (None, fs'), evs) \<and>
    Load T os fs' path = Inr (role_part (cfg\<lparr>Server := (F2P_Config.Config.Server cfg)\<lparr>PasswordHash := h\<rparr>\<rparr>)) \<and>
    h \<noteq> [] \<and> VerifyPassword B p h"
proof -
  let ?cfg = "cfg\<lparr>Server := (F2P_Config.Config.Server cfg)\<lparr>PasswordHash := h\<rparr>\<rparr>"
  have saved: "fst (Save T os fs ?cfg path) = None"
      "Load T os (snd (Save T os fs ?cfg path)) path = Inr (role_part ?cfg)"
    using Save_then_Load [OF assms(1-3,9)] assms(5) by simp_all
  have hash: "HashPassword B p = h" using assms(7,8) by (simp add: HashPassword_def)
  have ok: "h \<noteq> []" "VerifyPassword B p h"
    using assms(6,8) unfolding bcrypt_laws_def by (auto simp: VerifyPassword_def)
  have yes: "AskYesNo (Line y # Line p # Line p # evs) = Some (Return True, Line p # Line p # evs)"
    using AskYesNo_first_answer [of "[]" y True "Line p # Line p # evs"] assms(10) by simp
  have "handleChangePassword T os B True fs cfg path (Line y # Line p # Line p # evs) =
      Some (Return (None, snd (Save T os fs ?cfg path)), evs)"
    using saved(1) assms(4) hash yes
    by (cases "Save T os fs ?cfg path")
      (simp add: handleChangePassword_def console_bind_def console_return_def Let_def del: AskYesNo.simps)
  then show ?thesis using saved(2) ok by blast
qed

definition new_password_config :: Config where
  "new_password_config = example_server_config\<lparr>Server := (F2P_Config.Config.Server example_server_config)\<lparr>PasswordHash := ''$new''\<rparr>\<rparr>"

text \<open>A TOML parameter that knows this one configuration.\<close>

definition one_toml :: toml_lib where
  "one_toml =
     \<lparr>toml_encode = (\<lambda>doc. if doc = toml_of new_password_config then Inr ''x'' else Inl (EnvError ''not encoded'')),
      toml_decode = (\<lambda>s. Inr (role_part new_password_config, \<lambda>_. True))\<rparr>"

theorem change_password_effect_witness:
  "\<exists>fs'. handleChangePassword one_toml example_os example_bcrypt True Map.empty example_server_config ''c''
      [Line ''y'', Line ''new'', Line ''new''] = Some (Return (None, fs'), []) \<and>
    Load one_toml example_os fs' ''c'' = Inr (role_part new_password_config) \<and> VerifyPassword example_bcrypt ''new'' ''$new''"
proof -
  have l: "toml_lossless one_toml"
    by (auto simp: toml_lossless_def one_toml_def config_of_toml_of split: if_splits)
  have e: "toml_encode one_toml (toml_of (example_server_config\<lparr>Server :=
      (F2P_Config.Config.Server example_server_config)\<lparr>PasswordHash := ''$new''\<rparr>\<rparr>)) = Inr ''x''"
    by (simp add: one_toml_def new_password_config_def)
  have y: "yes_no ''y'' = Some True"
    by (simp add: yes_no_def TrimSpace_def ToLower_def to_lower_def is_space_def Let_def)
  have g: "GenerateFromPassword example_bcrypt ''new'' = Inr ''$new''" by (simp add: example_bcrypt_def)
  have z: "IsServer example_server_config" "zstd_in_range (Common example_server_config)"
    using example_in_range by (simp_all add: example_server_config_def example_client_def)
  show ?thesis
    using change_password_effect [OF l _ _ z example_bcrypt_laws _ g e y, of example_os "''c''" Map.empty "[]"]
    by (auto simp: example_os_def new_password_config_def)
qed

section \<open>Relays\<close>

definition relay_candidates :: "string \<Rightarrow> (string \<Rightarrow> string list) \<Rightarrow> string list \<Rightarrow> (string \<times> string list) list" where
  "relay_candidates self addrs peers = map (\<lambda>p. (p, addrs p)) (filter (\<lambda>p. p \<noteq> self \<and> addrs p \<noteq> []) peers)"

lemma relay_source_eq:
  "relay_source (\<lambda>_. False) numPeers self addrs n peers =
     (if numPeers > 0 then take (nat (numPeers - int n)) (relay_candidates self addrs peers)
      else relay_candidates self addrs peers)"
proof (induction "\<lambda>_ :: nat. False" numPeers self addrs n peers rule: relay_source.induct)
  case (2 numPeers self addrs n p ps)
  show ?case
  proof (cases "numPeers > 0 \<and> int n \<ge> numPeers")
    case False
    then have "numPeers > 0 \<Longrightarrow> nat (numPeers - int n) = Suc (nat (numPeers - int (Suc n)))" by simp
    then show ?thesis using 2 False by (auto simp: relay_candidates_def)
  qed simp
qed (simp add: relay_candidates_def)

text \<open>The peers offered as relays are, in the order of the DHT, the first so many of those that are not
  the server itself and have known addresses: all of them when no number was asked for.\<close>

theorem relay_source_spec:
  "createAutoRelayPeerSource (\<lambda>_. False) numPeers self addrs (Inr peers) =
     (if numPeers > 0 then take (nat numPeers) (relay_candidates self addrs peers)
      else relay_candidates self addrs peers)"
  by (simp add: createAutoRelayPeerSource_def relay_source_eq)

section \<open>Handlers\<close>

lemma stream_handlers_distinct: "distinct (map fst (stream_handlers s))"
  by (simp add: stream_handlers_def protocol_defs Let_def)


section \<open>Stopping\<close>

lemma close_control_table [simp]:
  "authenticatedClients (close_control so s) = authenticatedClients s" "sessions (close_control so s) = sessions s"
  by (simp_all add: close_control_def close_stream_def split: option.split)

lemma fold_notify:
  "fold notify_session peers (n, s) = (n', s') \<Longrightarrow>
   authenticatedClients s' = authenticatedClients s \<and> sessions s' = sessions s \<and>
   set n' = set n \<union> {i. \<exists>p \<in> set peers. authenticatedClients s p = Some i \<and> sessions s i \<noteq> None}"
proof (induction peers arbitrary: n s)
  case (Cons p ps)
  obtain n1 s1 where 1: "notify_session p (n, s) = (n1, s1)" by (cases "notify_session p (n, s)")
  then have s1: "authenticatedClients s1 = authenticatedClients s" "sessions s1 = sessions s"
      "set n1 = set n \<union> {i. authenticatedClients s p = Some i \<and> sessions s i \<noteq> None}"
    by (auto simp: notify_session_def split: option.splits)
  show ?case using Cons.IH [of n1 s1] Cons.prems 1 s1 by auto
qed auto

lemma close_host_closed:
  assumes "streams (close_host s) i = Some st" "st_kind st = Libp2p"
  shows "\<not> st_open st"
proof -
  obtain z where "st = (if st_kind z = Libp2p then z\<lparr>st_open := False\<rparr> else z)"
    using assms(1) by (auto simp: close_host_def)
  then show ?thesis using assms(2) by (cases "st_kind z = Libp2p") simp_all
qed

text \<open>Stopping the server notifies every session of the table, and no libp2p stream is open
  afterwards.\<close>

theorem server_stop_notifies:
  assumes "Server_Stop peers s = (notified, s')" and "set peers = dom (authenticatedClients s)"
    and "\<And>p i. authenticatedClients s p = Some i \<Longrightarrow> sessions s i \<noteq> None"
  shows "set notified = ran (authenticatedClients s) \<and>
    (\<forall>i st. streams s' i = Some st \<and> st_kind st = Libp2p \<longrightarrow> \<not> st_open st)"
proof -
  obtain s1 where f: "fold notify_session peers ([], s) = (notified, s1)" and s': "s' = close_host s1"
    using assms(1) by (auto simp: Server_Stop_def notifyClientsServerShutdown_def split: prod.splits)
  have "set notified = {i. \<exists>p \<in> set peers. authenticatedClients s p = Some i \<and> sessions s i \<noteq> None}"
    using fold_notify [OF f] by auto
  also have "\<dots> = ran (authenticatedClients s)" using assms(2,3) by (auto simp: ran_def dom_def)
  finally show ?thesis using close_host_closed by (auto simp: s')
qed

theorem server_stop_notifies_witness:
  "set (fst (Server_Stop [''p''] (sessions_init\<lparr>authenticatedClients := [''p'' \<mapsto> 1],
     sessions := [1 \<mapsto> \<lparr>peerID = ''p'', controlStream = Some 1\<rparr>]\<rparr>))) = {1}"
proof -
  let ?s = "sessions_init\<lparr>authenticatedClients := [''p'' \<mapsto> 1], sessions := [1 \<mapsto> \<lparr>peerID = ''p'', controlStream = Some 1\<rparr>]\<rparr>"
  have "set (fst (Server_Stop [''p''] ?s)) = ran (authenticatedClients ?s) \<and>
    (\<forall>i st. streams (snd (Server_Stop [''p''] ?s)) i = Some st \<and> st_kind st = Libp2p \<longrightarrow> \<not> st_open st)"
    by (rule server_stop_notifies [of "[''p'']" ?s]) (auto split: if_splits)
  then show ?thesis by simp
qed

end
