(* ===== verification/F2P_Forwarding.thy ===== *)
theory F2P_Forwarding
  imports F2P_Main
begin

text \<open>
  A forwarded connection from end to end: a local connection of the client opens a data stream,
  directly over QUIC or through libp2p, with or without compression; the server routes the stream,
  checks the request and dials the target of the service. The theorems say that both sides come to
  proxy, each having consumed exactly the handshake of the other, so that what follows on the stream
  in either direction is what the pipe copies.
\<close>

section \<open>What a data stream carries\<close>

text \<open>The bytes a side sees on a stream, with the compression taken off, and the byte strings that carry
  given data.\<close>

definition payload :: "zstd_lib \<Rightarrow> bool \<Rightarrow> stream_view \<Rightarrow> stream_view" where
  "payload L z v = (if z then decode L (fst v) (snd v) else v)"

definition carries :: "zstd_lib \<Rightarrow> bool \<Rightarrow> bytes \<Rightarrow> bytes \<Rightarrow> bool" where
  "carries L z w d \<longleftrightarrow> (\<forall>p e. payload L z (w @ p, e) = (d @ fst (payload L z (p, e)), snd (payload L z (p, e))))"

fun ds_view :: "zstd_lib \<Rightarrow> data_stream \<Rightarrow> stream_view" where
  "ds_view L (Plain c) = conn_view c"
| "ds_view L (Duplex d) = zstd_view L conn_view d"

fun ds_conn :: "data_stream \<Rightarrow> conn" where
  "ds_conn (Plain c) = c"
| "ds_conn (Duplex d) = base d"

lemma carries_plain [simp]: "carries L False w d \<longleftrightarrow> w = d"
  by (auto simp: carries_def payload_def)

lemma carries_zstd [simp]: "carries L True w d \<longleftrightarrow> aligned L w d"
  by (simp add: carries_def payload_def aligned_def)

lemma carriesD: "carries L z w d \<Longrightarrow> payload L z (w @ p, e) = (d @ fst (payload L z (p, e)), snd (payload L z (p, e)))"
  by (simp add: carries_def)

lemma SetInfo_stream [simp]: "base (SetInfo d a b c e) = base d" "readBuf (SetInfo d a b c e) = readBuf d"
  by (simp_all add: SetInfo_def Let_def)

lemma new_duplex [simp]: "base (NewZstdDuplex c) = c" "readBuf (NewZstdDuplex c) = []"
  by (simp_all add: NewZstdDuplex_def)

text \<open>A duplex that has just been made on a healthy stream, and one that was written to.\<close>

lemma fresh_duplex:
  assumes "conn_healthy c" "base d = c" "readBuf d = []"
  shows "duplex_ready L (out_bytes c) d" "duplex_sent L (out_bytes c) d = []"
    "zstd_view L conn_view d = payload L True (conn_view c)"
  using assms
  by (simp_all add: zstd_ready_def healthy_from_def zstd_sent_def aligned_Nil zstd_view_def payload_def split: prod.split)

lemma written_duplex:
  assumes "duplex_ready L b d" "duplex_sent L b d = x"
  shows "\<exists>w. out_bytes (base d) = b @ w \<and> aligned L w x"
  using assms by (auto simp: zstd_ready_def healthy_from_def)

section \<open>The server's side\<close>

lemma data_connection_proxies:
  assumes "proto_lossless Q" "zstd_lossless L" "chunk_ok P" "fits Q msg" "fits Q (response_msg cfg msg)"
    and "m_Type msg = SERVICE_REQUEST" "request_allowed cfg msg service"
    and "m_Protocol msg \<in> {''tcp'', ''udp''}" "dial (m_Protocol msg) (sc_Target service) = Inr t"
    and "payload L z (conn_view sv) = (frame_of Q msg @ rest, e)" "conn_healthy sv"
  shows "\<exists>s2 a. handleDataConnection (NewServer cfg) Q P L dial sv peer z = Some (Inr (Proxy t), s2) \<and>
    ds_view L s2 = (rest, e) \<and> out_bytes (ds_conn s2) = out_bytes sv @ a \<and> carries L z a (frame_of Q (response_msg cfg msg))"
proof -
  have ne: "m_ServiceName msg \<noteq> []" "m_Protocol msg \<noteq> []" using assms(7) by (simp_all add: request_allowed_def)
  have dialled: "connectAndProxy dial (m_Protocol msg) (sc_Target service) = Inr (Proxy t)"
    using assms(8,9) by (auto simp: connectAndProxy_def)
  show ?thesis
  proof (cases z)
    case False
    then have v: "conn_view sv = (frame_of Q msg @ rest, e)" using assms(10) by (simp add: payload_def)
    from pc.handshake_answers [OF assms(1,4,5,6) ne v assms(11)] assms(7) dialled False show ?thesis
      by (auto simp: handleDataConnection_def handle_data_on_def)
  next
    case True
    let ?d = "SetInfo (NewZstdDuplex sv) ''server'' [] peer []"
    have v: "zstd_view L conn_view ?d = (frame_of Q msg @ rest, e)"
      using fresh_duplex(3) [OF assms(11), of ?d L] assms(10) True by simp
    note fresh = fresh_duplex(1,2) [OF assms(11), of ?d L, simplified]
    note ch = message_channel.handshake_answers [OF zstd_channel [OF assms(2,3), of "out_bytes sv"]]
    from ch [OF assms(1,4,5,6) ne v fresh(1)] assms(7) fresh(2)
    obtain d' where d': "handleServiceHandshake (NewServer cfg) Q (zstd_Read L conn_read) (zstd_Write P L conn_write) ?d =
        Some (Inr (service, m_ServiceName msg, m_Protocol msg), d')"
      "duplex_sent L (out_bytes sv) d' = frame_of Q (response_msg cfg msg)" "duplex_ready L (out_bytes sv) d'"
      "zstd_view L conn_view d' = (rest, e)"
      by auto
    have "zstd_view L conn_view (SetInfo d' [] n [] p) = (rest, e)" for n p
      using d'(4) by (simp add: zstd_view_def)
    then show ?thesis
      using d'(1) written_duplex [OF d'(3,2)] dialled True by (auto simp: handleDataConnection_def handle_data_on_def)
  qed
qed

section \<open>The client's side\<close>

abbreviation uses_zstd :: "Client \<Rightarrow> LocalServiceConfig \<Rightarrow> bool" where
  "uses_zstd c ls \<equiv> serviceCompress c (lc_Name ls) = Some True"

lemma local_connection_proxies:
  fixes ls protocol
  defines "req \<equiv> request_msg (lc_Name ls) protocol (lc_Password ls)"
  assumes "proto_lossless Q" "zstd_lossless L" "chunk_ok P" "fits Q req" "fits Q resp"
    and "m_Type resp = SERVICE_RESPONSE" "m_Success resp"
    and "openDataStream openQ newStream (uses_zstd c ls) c = Some (Inr st)" "conn_healthy st"
    and "payload L (uses_zstd c ls) (conn_view st) = (frame_of Q resp @ rest, e)"
  shows "\<exists>s1 w. handleLocalConnForProtocol Q P L openQ newStream server ls protocol c = Some (Proxied s1) \<and>
    ds_view L s1 = (rest, e) \<and> out_bytes (ds_conn s1) = out_bytes st @ w \<and> carries L (uses_zstd c ls) w (frame_of Q req)"
proof -
  have z: "(case serviceCompress c (lc_Name ls) of Some v \<Rightarrow> v | None \<Rightarrow> False) = uses_zstd c ls"
    by (simp split: option.split)
  show ?thesis
  proof (cases "uses_zstd c ls")
    case False
    then have v: "conn_view st = (frame_of Q resp @ rest, e)" using assms(11) by (simp add: payload_def)
    from pc.client_learns [OF assms(2) assms(5) [unfolded req_def] assms(6,7) v assms(10)] assms(8,9) False show ?thesis
      unfolding handleLocalConnForProtocol_def z by (auto simp: req_def)
  next
    case True
    let ?d = "SetInfo (NewZstdDuplex st) ''client'' (lc_Name ls) server protocol"
    have v: "zstd_view L conn_view ?d = (frame_of Q resp @ rest, e)"
      using fresh_duplex(3) [OF assms(10), of ?d L] assms(11) True by simp
    note fresh = fresh_duplex(1,2) [OF assms(10), of ?d L, simplified]
    note ch = message_channel.client_learns [OF zstd_channel [OF assms(3,4), of "out_bytes st"]]
    from ch [OF assms(2) assms(5) [unfolded req_def] assms(6,7) v fresh(1)] assms(8) fresh(2)
    obtain d' where d': "checkServiceAvailability Q (zstd_Write P L conn_write) (ReceiveOne Q (zstd_Read L conn_read)) ?d
        (lc_Name ls) protocol (lc_Password ls) = Some (Inr resp, d')"
      "duplex_sent L (out_bytes st) d' = frame_of Q req" "duplex_ready L (out_bytes st) d'"
      "zstd_view L conn_view d' = (rest, e)"
      by (auto simp: req_def)
    show ?thesis
      using d' written_duplex [OF d'(3,2)] True assms(9) unfolding handleLocalConnForProtocol_def z by auto
  qed
qed

section \<open>Opening and routing\<close>

abbreviation type_byte :: "bool \<Rightarrow> byte" where
  "type_byte z \<equiv> (if z then StreamTypeDataZstd else StreamTypeData)"

lemma quic_open:
  assumes "directConn c = Some q" "openQ q = Inr st0" "conn_healthy st0"
  obtains st where "openDataStream openQ newStream z c = Some (Inr st)" "conn_healthy st" "conn_view st = conn_view st0"
    "out_bytes st = out_bytes st0 @ [type_byte z]"
proof -
  obtain st where st: "conn_write st0 [type_byte z] = Some ((1, None), st)" "conn_healthy st" "conn_view st = conn_view st0"
      "out_bytes st = out_bytes st0 @ [type_byte z]"
    using assms(3) by (auto simp: conn_write_def conn_healthy_def conn_view_def)
  then show thesis using that [of st] assms(1,2) by (simp add: openDataStream_def Let_def split: if_splits)
qed

lemma quic_routed:
  assumes "conn_view sv = (type_byte z # p, e)" "conn_healthy sv"
  obtains sv' where "handleQUICConnection [sv] = Some [DataStream sv' z]" "conn_view sv' = (p, e)" "conn_healthy sv'"
    "out_bytes sv' = out_bytes sv"
proof -
  obtain sv' where r: "ReadFull conn_read sv 1 = Some (([type_byte z], None), sv')" and v: "conn_view sv' = (p, e)"
    using cs.ReadFull_ok [OF _ assms(1), of 1] by auto
  have "outward sv' = outward sv" by (rule ReadFull_outward [OF r])
  then show thesis
    using that [of sv'] r v assms(2)
    by (cases z) (auto simp: outward_def idx_def StreamTypeControl_def StreamTypeData_def StreamTypeDataZstd_def)
qed

lemma granted_response:
  assumes "request_allowed cfg msg service"
  shows "m_Type (response_msg cfg msg) = SERVICE_RESPONSE" "m_Success (response_msg cfg msg)"
  using assms response_msg_spec [of cfg msg] by auto

lemma request_msg_fields:
  "m_Type (request_msg n p w) = SERVICE_REQUEST" "m_ServiceName (request_msg n p w) = n" "m_Protocol (request_msg n p w) = p"
  by (simp_all add: request_msg_def)

section \<open>End to end\<close>

text \<open>C4: a connection is forwarded over a direct QUIC connection. If the configuration of the server allows
  the request of a local service and its target can be dialled, then a client that finds the server's
  answer on the stream goes on to proxy, and on every stream that delivers the client's bytes, in
  whatever fragments and followed by whatever else, the server routes the stream to its data handler
  with the client's choice of compression, dials the target and goes on to proxy, having answered
  with the bytes the client reads. Both sides have consumed exactly the handshake: what they see next
  is what follows on the stream.\<close>

theorem forwarded_over_quic:
  fixes ls protocol c
  defines "req \<equiv> request_msg (lc_Name ls) protocol (lc_Password ls)" and "z \<equiv> uses_zstd c ls"
  assumes libs: "proto_lossless Q" "zstd_lossless L" "chunk_ok P" "chunk_ok P'"
    and fit: "fits Q req" "fits Q (response_msg cfg req)"
    and granted: "request_allowed cfg req service" "protocol \<in> {''tcp'', ''udp''}" "dial protocol (sc_Target service) = Inr t"
    and client: "directConn c = Some q" "openQ q = Inr st0" "conn_healthy st0"
    and answer: "payload L z (conn_view st0) = (frame_of Q (response_msg cfg req) @ rest, e)"
  shows "\<exists>s1 w. handleLocalConnForProtocol Q P L openQ newStream server ls protocol c = Some (Proxied s1) \<and>
    ds_view L s1 = (rest, e) \<and> out_bytes (ds_conn s1) = out_bytes st0 @ w \<and>
    (\<forall>sv rest' e'. conn_view sv = (w @ rest', e') \<and> conn_healthy sv \<longrightarrow>
      (\<exists>sv' s2 a. handleQUICConnection [sv] = Some [DataStream sv' z] \<and>
        handleQUICDataStream (NewServer cfg) Q P' L dial True peer z sv' = Some (Some (Inr (Proxy t)), s2) \<and>
        ds_view L s2 = payload L z (rest', e') \<and> out_bytes (ds_conn s2) = out_bytes sv @ a \<and>
        carries L z a (frame_of Q (response_msg cfg req))))"
proof -
  obtain st where st: "openDataStream openQ newStream z c = Some (Inr st)" "conn_healthy st" "conn_view st = conn_view st0"
      "out_bytes st = out_bytes st0 @ [type_byte z]"
    using quic_open [of c q openQ st0 newStream z, OF client] by blast
  have v: "payload L (uses_zstd c ls) (conn_view st) =
      (frame_of Q (response_msg cfg (request_msg (lc_Name ls) protocol (lc_Password ls))) @ rest, e)"
    using answer st(3) by (simp add: z_def req_def)
  obtain s1 w where s1: "handleLocalConnForProtocol Q P L openQ newStream server ls protocol c = Some (Proxied s1)"
      "ds_view L s1 = (rest, e)" "out_bytes (ds_conn s1) = out_bytes st @ w" "carries L z w (frame_of Q req)"
    using local_connection_proxies [OF libs(1-3) fit [unfolded req_def] granted_response [OF granted(1) [unfolded req_def]]
      st(1) [unfolded z_def] st(2) v, of server] by (auto simp: z_def req_def)
  have "\<exists>sv' s2 a. handleQUICConnection [sv] = Some [DataStream sv' z] \<and>
        handleQUICDataStream (NewServer cfg) Q P' L dial True peer z sv' = Some (Some (Inr (Proxy t)), s2) \<and>
        ds_view L s2 = payload L z (rest', e') \<and> out_bytes (ds_conn s2) = out_bytes sv @ a \<and>
        carries L z a (frame_of Q (response_msg cfg req))"
    if sv: "conn_view sv = (type_byte z # w @ rest', e')" "conn_healthy sv" for sv rest' e'
  proof -
    obtain sv' where sv': "handleQUICConnection [sv] = Some [DataStream sv' z]" "conn_view sv' = (w @ rest', e')"
        "conn_healthy sv'" "out_bytes sv' = out_bytes sv"
      using quic_routed [OF sv] by blast
    have v: "payload L z (conn_view sv') = (frame_of Q req @ fst (payload L z (rest', e')), snd (payload L z (rest', e')))"
      using carriesD [OF s1(4)] sv'(2) by simp
    show ?thesis
      using data_connection_proxies [OF libs(1,2,4) fit _ granted(1) _ _ v sv'(3), of dial t peer] granted(2,3) sv'(1,4)
      by (auto simp: req_def request_msg_fields handleQUICDataStream_def)
  qed
  then show ?thesis using s1 st(4) by (intro exI [of _ s1] exI [of _ "type_byte z # w"]) simp
qed

text \<open>C14: the same over libp2p. The client opens its stream for the data protocol of its base protocol
  that says whether it compresses, and for no other: the host need not be able to open a stream for
  any other protocol. A server with the same base protocol has registered this protocol for its data
  handler, and the handler reads from it whether the client compresses, so that both sides
  run the handshake and what follows with the same choice.\<close>

theorem forwarded_over_libp2p:
  fixes ls protocol c cfg
  defines "req \<equiv> request_msg (lc_Name ls) protocol (lc_Password ls)" and "z \<equiv> uses_zstd c ls"
    and "proto \<equiv> (if uses_zstd c ls then DataProtocolZstd else DataProtocol) (cc_Protocol (Common cfg))"
  assumes libs: "proto_lossless Q" "zstd_lossless L" "chunk_ok P" "chunk_ok P'"
    and fit: "fits Q req" "fits Q (response_msg cfg req)"
    and granted: "request_allowed cfg req service" "protocol \<in> {''tcp'', ''udp''}" "dial protocol (sc_Target service) = Inr t"
    and base: "cc_Protocol (Common (cl_config c)) = cc_Protocol (Common cfg)"
    and client: "directConn c = None" "newStream proto = Inr st0" "conn_healthy st0"
    and answer: "payload L z (conn_view st0) = (frame_of Q (response_msg cfg req) @ rest, e)"
  shows "map_of (stream_handlers (NewServer cfg)) proto = Some DataHandler \<and>
    (\<exists>s1 w. handleLocalConnForProtocol Q P L openQ newStream server ls protocol c = Some (Proxied s1) \<and>
    ds_view L s1 = (rest, e) \<and> out_bytes (ds_conn s1) = out_bytes st0 @ w \<and>
    (\<forall>sv rest' e'. conn_view sv = (w @ rest', e') \<and> conn_healthy sv \<longrightarrow>
      (\<exists>s2 a. handleDataStream (NewServer cfg) Q P' L dial True proto peer sv = Some (Some (Inr (Proxy t)), s2) \<and>
        ds_view L s2 = payload L z (rest', e') \<and> out_bytes (ds_conn s2) = out_bytes sv @ a \<and>
        carries L z a (frame_of Q (response_msg cfg req)))))"
proof -
  have opened: "openDataStream openQ newStream (uses_zstd c ls) c = Some (Inr st0)"
    using client(1,2) base by (cases "uses_zstd c ls") (simp_all add: openDataStream_def Let_def proto_def)
  have registered: "map_of (stream_handlers (NewServer cfg)) proto = Some DataHandler"
    by (simp add: stream_handlers_def proto_def protocol_defs Let_def NewServer_tables)
  have suffix: "HasSuffix proto ''/data+zstd'' \<longleftrightarrow> z"
    using zstd_suffix plain_data_not_zstd by (simp add: proto_def z_def)
  obtain s1 w where s1: "handleLocalConnForProtocol Q P L openQ newStream server ls protocol c = Some (Proxied s1)"
      "ds_view L s1 = (rest, e)" "out_bytes (ds_conn s1) = out_bytes st0 @ w" "carries L z w (frame_of Q req)"
    using local_connection_proxies [OF libs(1-3) fit [unfolded req_def] granted_response [OF granted(1) [unfolded req_def]]
      opened client(3) answer [unfolded z_def req_def], of server] by (auto simp: z_def req_def)
  have "\<exists>s2 a. handleDataStream (NewServer cfg) Q P' L dial True proto peer sv = Some (Some (Inr (Proxy t)), s2) \<and>
        ds_view L s2 = payload L z (rest', e') \<and> out_bytes (ds_conn s2) = out_bytes sv @ a \<and>
        carries L z a (frame_of Q (response_msg cfg req))"
    if "conn_view sv = (w @ rest', e')" "conn_healthy sv" for sv rest' e'
  proof -
    have v: "payload L z (conn_view sv) = (frame_of Q req @ fst (payload L z (rest', e')), snd (payload L z (rest', e')))"
      using carriesD [OF s1(4)] that(1) by simp
    show ?thesis
      using data_connection_proxies [OF libs(1,2,4) fit _ granted(1) _ _ v that(2), of dial t peer] granted(2,3) suffix
      by (auto simp: req_def request_msg_fields handleDataStream_def)
  qed
  then show ?thesis using registered s1 by blast
qed

section \<open>What is forwarded\<close>

text \<open>The bytes that decode from a frame do not depend on what follows the frame, or on how the stream ends;
  hence a longer part of a compressed stream decodes to more of its data.\<close>

lemma spec_uvarint_more: "spec_uvarint k x sh p e = Inr (v, rest) \<Longrightarrow> spec_uvarint k x sh (p @ q) e' = Inr (v, rest @ q)"
  by (induction k x sh p e rule: spec_uvarint.induct) (auto split: if_splits)

lemma decode_frame_more:
  assumes "decode_frame L p e = Inr (out, rest)"
  shows "decode_frame L (p @ q) e' = Inr (out, rest @ q)"
proof (cases p)
  case Nil
  then show ?thesis using assms by (simp add: decode_frame_def)
next
  case (Cons flag p1)
  obtain n p2 where u: "spec_uvarint 10 0 0 p1 e = Inr (n, p2)"
    using assms Cons by (auto simp: decode_frame_def split: sum.splits)
  then show ?thesis using assms spec_uvarint_more [OF u, of q e'] Cons
    by (auto simp: decode_frame_def split: if_splits sum.splits)
qed

lemma decode_more: "prefix (fst (decode L p e)) (fst (decode L (p @ q) e'))"
proof (induction L p e rule: decode.induct)
  case (1 L p e)
  show ?case
  proof (cases "decode_frame L p e")
    case (Inl er)
    then show ?thesis by (simp add: decode.simps [of L p e])
  next
    case (Inr x)
    obtain out rest where x: "x = (out, rest)" by (cases x)
    note more = decode_frame_more [OF Inr [unfolded x], of q e']
    show ?thesis
    proof (cases "out = []")
      case False
      then have "prefix (fst (decode L rest e)) (fst (decode L (rest @ q) e'))" using "1.IH" [OF Inr x [symmetric]] by simp
      then show ?thesis using Inr x more False
        by (simp add: decode.simps [of L p e] decode.simps [of L "p @ q" e'] case_prod_beta)
    qed (use Inr x in \<open>simp add: decode.simps [of L p e]\<close>)
  qed
qed

lemma payload_mono: "prefix x y \<Longrightarrow> prefix (fst (payload L z (x, e))) (fst (payload L z (y, e')))"
  by (auto simp: payload_def prefix_def [of x] intro: decode_more)

lemma payload_ends: "fst (payload L z (x, e)) = fst (payload L z (x, e'))"
  by (rule prefix_order.antisym; rule payload_mono; simp)

text \<open>A data stream as an end of a pipe; the connections to the local application and to the target are
  data streams without compression.\<close>

fun ds_read :: "zstd_lib \<Rightarrow> data_stream reader" where
  "ds_read L (Plain c) n = map_option (\<lambda>(r, c'). (r, Plain c')) (conn_read c n)"
| "ds_read L (Duplex d) n = map_option (\<lambda>(r, d'). (r, Duplex d')) (zstd_Read L conn_read d n)"

fun ds_write :: "zstd_params \<Rightarrow> zstd_lib \<Rightarrow> data_stream writer" where
  "ds_write P L (Plain c) p = map_option (\<lambda>(r, c'). (r, Plain c')) (conn_write c p)"
| "ds_write P L (Duplex d) p = map_option (\<lambda>(r, d'). (r, Duplex d')) (zstd_Write P L conn_write d p)"

fun ds_close :: "data_stream \<Rightarrow> error option \<times> data_stream" where
  "ds_close (Plain c) = map_prod id Plain (conn_close c)"
| "ds_close (Duplex d) = map_prod id Duplex (zstd_Close conn_close d)"

definition stream_end :: "zstd_params \<Rightarrow> zstd_lib \<Rightarrow> data_stream ReadWriteCloser" where
  "stream_end P L = \<lparr>rw_read = ds_read L, rw_write = ds_write P L, rw_close = ds_close, rw_closed = (\<lambda>s. is_closed (ds_conn s))\<rparr>"

fun compressed :: "data_stream \<Rightarrow> bool" where
  "compressed (Plain _) = False"
| "compressed (Duplex _) = True"

text \<open>What a stream carries of the data written after its first \<open>n\<close> bytes, and that these are whole frames.\<close>

definition ds_sent :: "zstd_lib \<Rightarrow> nat \<Rightarrow> data_stream \<Rightarrow> bytes" where
  "ds_sent L n s = fst (payload L (compressed s) (drop n (out_bytes (ds_conn s)), EOF))"

definition ds_ready :: "zstd_lib \<Rightarrow> nat \<Rightarrow> data_stream \<Rightarrow> bool" where
  "ds_ready L n s \<longleftrightarrow> n \<le> length (out_bytes (ds_conn s)) \<and> carries L (compressed s) (drop n (out_bytes (ds_conn s))) (ds_sent L n s)"

abbreviation ds_healthy :: "data_stream \<Rightarrow> bool" where
  "ds_healthy s \<equiv> conn_healthy (ds_conn s)"

lemma stream_end_simps [simp]:
  "rw_read (stream_end P L) = ds_read L" "rw_write (stream_end P L) = ds_write P L" "rw_close (stream_end P L) = ds_close"
  "rw_closed (stream_end P L) = (\<lambda>s. is_closed (ds_conn s))"
  by (simp_all add: stream_end_def)

lemma ds_ready_duplex: "ds_ready L n (Duplex d) = zstd_ready L n out_bytes (\<lambda>_. True) d" "ds_sent L n (Duplex d) = zstd_sent L n out_bytes d"
  by (simp_all add: ds_ready_def ds_sent_def zstd_ready_def zstd_sent_def payload_def)

lemma ds_ready_plain: "ds_ready L n (Plain c) \<longleftrightarrow> n \<le> length (out_bytes c)" "ds_sent L n (Plain c) = drop n (out_bytes c)"
  by (simp_all add: ds_ready_def ds_sent_def payload_def)

lemma ds_read_data:
  assumes "0 < n" "ds_read L s n = Some ((p, rerr), s')"
  shows "(if rerr = None then p @ fst (ds_view L s') else p) = fst (ds_view L s)"
proof (cases s)
  case (Plain c)
  then obtain c' where "conn_read c n = Some ((p, rerr), c')" "s' = Plain c'" using assms(2) by auto
  then show ?thesis using cs.read_pending [OF TrueI assms(1)] Plain by fastforce
next
  case (Duplex d)
  then obtain d' where "zstd_Read L conn_read d n = Some ((p, rerr), d')" "s' = Duplex d'" using assms(2) by auto
  then show ?thesis using zs.read_pending [OF TrueI assms(1)] Duplex by fastforce
qed

lemma ds_read_conn:
  assumes "ds_read L s n = Some (r, s')"
  shows "compressed s' = compressed s \<and> out_bytes (ds_conn s') = out_bytes (ds_conn s) \<and>
    is_closed (ds_conn s') = is_closed (ds_conn s) \<and> out_room (ds_conn s') = out_room (ds_conn s)"
proof (cases s)
  case (Plain c)
  then show ?thesis using assms conn_read_keeps by auto
next
  case (Duplex d)
  let ?I = "\<lambda>c. out_bytes c = out_bytes (base d) \<and> is_closed c = is_closed (base d) \<and> out_room c = out_room (base d)"
  have "keeps ?I (conn_read c m)" if "?I c" for c m
    using that conn_read_keeps by (fastforce simp: keeps_def)
  then have "keeps (\<lambda>z. ?I (base z)) (zstd_Read L conn_read d n)" by (rule zstd_Read_keeps [where I = ?I]) simp_all
  then show ?thesis using assms Duplex by (auto simp: keeps_def)
qed

lemma ds_write_conn:
  assumes "chunk_ok P" "ds_write P L s p = Some (w, s')"
  shows "compressed s' = compressed s \<and> ds_view L s' = ds_view L s \<and> is_closed (ds_conn s') = is_closed (ds_conn s) \<and>
    (ds_healthy s' = ds_healthy s)"
proof -
  have W: "in_segs c' = in_segs c \<and> in_err c' = in_err c \<and> is_closed c' = is_closed c \<and> conn_healthy c' = conn_healthy c"
    if "conn_write c q = Some (r, c')" for c q r c'
    using that by (auto simp: conn_write_def conn_healthy_def split: if_splits option.splits)
  show ?thesis
  proof (cases s)
    case (Plain c)
    then show ?thesis using assms(2) W by (fastforce simp: conn_view_def)
  next
    case (Duplex d)
    let ?I = "\<lambda>c. in_segs c = in_segs (base d) \<and> in_err c = in_err (base d) \<and> is_closed c = is_closed (base d) \<and>
        conn_healthy c = conn_healthy (base d)"
    have "keeps ?I (conn_write c q)" if "?I c" for c q
      using that W by (fastforce simp: keeps_def)
    then have "keeps (\<lambda>z. ?I (base z) \<and> readBuf z = readBuf d) (zstd_Write P L conn_write d p)"
      by (rule zstd_Write_keeps [where I = ?I, OF _ assms(1)]) simp_all
    then show ?thesis using assms(2) Duplex by (auto simp: keeps_def zstd_view_def conn_view_def)
  qed
qed

lemma ds_write_data:
  assumes "zstd_lossless L" "chunk_ok P" "ds_ready L m s" "ds_write P L s p = Some ((n, werr), s')"
  shows "(\<exists>k. ds_sent L m s' = ds_sent L m s @ take k p) \<and>
    (werr = None \<longrightarrow> ds_sent L m s' = ds_sent L m s @ p \<and> ds_ready L m s') \<and> (ds_healthy s' \<longrightarrow> werr = None)"
proof (cases s)
  case (Plain c)
  then obtain c' where w: "conn_write c p = Some ((n, werr), c')" "s' = Plain c'" using assms(4) by auto
  moreover have "conn_healthy c' = conn_healthy c" using conn_write_keeps [OF w(1)] by simp
  moreover obtain k where "out_bytes c' = out_bytes c @ take k p" "werr = None \<longrightarrow> length p \<le> k" "conn_healthy c \<longrightarrow> werr = None"
    using conn_write_sends [OF w(1)] by blast
  ultimately show ?thesis using Plain assms(3) by (auto simp: ds_ready_plain)
next
  case (Duplex d)
  then obtain d' where w: "zstd_Write P L conn_write d p = Some ((n, werr), d')" "s' = Duplex d'" using assms(4) by auto
  have r: "zstd_ready L m out_bytes (\<lambda>_. True) d" using assms(3) Duplex by (simp add: ds_ready_duplex)
  obtain k where "n \<le> k" "k \<le> length p" "zstd_sent L m out_bytes d' = zstd_sent L m out_bytes d @ take k p"
      "werr = None \<longrightarrow> n = length p \<and> zstd_ready L m out_bytes (\<lambda>_. True) d'"
    using byte_sink.wr_spec [OF ck.zstd_sink [OF assms(1,2)] r, of p] w(1) by auto
  moreover have "werr = None" if "ds_healthy s'"
  proof -
    have "conn_healthy (base d)" using that ds_write_conn [OF assms(2,4)] Duplex by simp
    then have "zstd_ready L m out_bytes conn_healthy d" using r by (simp add: zstd_ready_def)
    then obtain z where "zstd_Write P L conn_write d p = Some ((length p, None), z)"
      using reliable_sink.wr_succeeds [OF hk.zstd_reliable [OF assms(1,2)]] by blast
    then show ?thesis using w(1) by simp
  qed
  ultimately show ?thesis using Duplex w(2) by (auto simp: ds_ready_duplex)
qed

lemma ds_close_conn:
  assumes "ds_close s = (e, s')"
  shows "compressed s' = compressed s \<and> ds_view L s' = ds_view L s \<and> out_bytes (ds_conn s') = out_bytes (ds_conn s) \<and>
    (ds_healthy s' \<longrightarrow> ds_healthy s) \<and> (is_closed (ds_conn s) \<longrightarrow> is_closed (ds_conn s'))"
  using assms
  by (cases s) (auto simp: conn_close_def zstd_Close_def conn_view_def zstd_view_def conn_healthy_def split: if_splits)

text \<open>So a data stream is what the pipe needs, whatever was written to each side before.\<close>

lemma stream_ends:
  assumes "zstd_lossless L" "chunk_ok P"
  shows "pipe_end (stream_end P L) (\<lambda>s. fst (ds_view L s)) (\<lambda>d. ds_sent L (n d)) (\<lambda>d. ds_ready L (n d)) (\<lambda>s. ds_healthy s)"
proof unfold_locales
  fix c c' :: data_stream and r and k :: nat and d
  assume "rw_read (stream_end P L) c k = Some (r, c')"
  then show "ds_sent L (n d) c' = ds_sent L (n d) c \<and> (ds_ready L (n d) c \<longrightarrow> ds_ready L (n d) c') \<and> (ds_healthy c' \<longrightarrow> ds_healthy c) \<and>
      (rw_closed (stream_end P L) c \<longrightarrow> rw_closed (stream_end P L) c')"
    using ds_read_conn [of L c k r c'] by (simp add: ds_sent_def ds_ready_def conn_healthy_def)
next
  fix c c' :: data_stream and e d
  assume "rw_close (stream_end P L) c = (e, c')"
  then show "fst (ds_view L c') = fst (ds_view L c) \<and> ds_sent L (n d) c' = ds_sent L (n d) c \<and>
      (ds_ready L (n d) c \<longrightarrow> ds_ready L (n d) c') \<and> (ds_healthy c' \<longrightarrow> ds_healthy c) \<and>
      (rw_closed (stream_end P L) c \<longrightarrow> rw_closed (stream_end P L) c')"
    using ds_close_conn [of c e c' L] by (simp add: ds_sent_def ds_ready_def)
next
  fix c c' :: data_stream and p rerr and k :: nat
  assume "0 < k" "rw_read (stream_end P L) c k = Some ((p, rerr), c')"
  then show "(if rerr = None then p @ fst (ds_view L c') else p) = fst (ds_view L c)"
    using ds_read_data [of k L c p rerr c'] by (simp only: stream_end_simps)
next
  fix c c' :: data_stream and d p k werr
  assume "ds_ready L (n d) c" "rw_write (stream_end P L) c p = Some ((k, werr), c')"
  then have w: "ds_ready L (n d) c" "ds_write P L c p = Some ((k, werr), c')" by simp_all
  show "(\<exists>k. ds_sent L (n d) c' = ds_sent L (n d) c @ take k p) \<and>
      (werr = None \<longrightarrow> ds_sent L (n d) c' = ds_sent L (n d) c @ p \<and> ds_ready L (n d) c') \<and> (ds_healthy c' \<longrightarrow> werr = None)"
    by (rule ds_write_data [OF assms w])
next
  fix c c' :: data_stream and p w
  assume "rw_write (stream_end P L) c p = Some (w, c')"
  then show "fst (ds_view L c') = fst (ds_view L c) \<and> (ds_healthy c' \<longrightarrow> ds_healthy c) \<and>
      (rw_closed (stream_end P L) c \<longrightarrow> rw_closed (stream_end P L) c')"
    using ds_write_conn [OF assms(2), of L c p w c'] by simp
qed

text \<open>The pipe of the client between a local connection and its data stream, and the pipe of
  \<^verbatim>\<open>connectAndProxy\<close> between a data stream and the target, with their idle timeouts.\<close>

definition proxyConnection :: "zstd_params \<Rightarrow> zstd_lib \<Rightarrow> conn \<Rightarrow> data_stream \<Rightarrow> time \<Rightarrow> data_stream pipe_state \<Rightarrow> bool" where
  "proxyConnection P L conn1 conn2 t s \<longleftrightarrow> preach (stream_end P L) (60 * second) (Plain conn1) conn2 t s"

definition proxy_target :: "zstd_params \<Rightarrow> zstd_lib \<Rightarrow> data_stream \<Rightarrow> conn \<Rightarrow> time \<Rightarrow> data_stream pipe_state \<Rightarrow> bool" where
  "proxy_target P L rw targetConn t s \<longleftrightarrow> preach (stream_end P L) (60 * second) rw (Plain targetConn) t s"

text \<open>The bytes written to a stream below its compression, and to a connection.\<close>

abbreviation wire :: "data_stream \<Rightarrow> bytes" where
  "wire s \<equiv> out_bytes (ds_conn s)"

text \<open>The copy loop of a side has come to the end of its input while its end was open and the other end
  takes data.\<close>

definition copied_all :: "data_stream pipe_state \<Rightarrow> bool \<Rightarrow> bool" where
  "copied_all s d \<longleftrightarrow> loop s d = L_Ended \<and> \<not> is_closed (ds_conn (side s d)) \<and> ds_healthy (side s (\<not> d))"

text \<open>One pipe between a connection \<open>a\<close> and a data stream \<open>s\<close>, on either side: what it writes to the stream
  carries a prefix of what is read from the connection, and the connection gets a prefix of what is
  left on the stream.\<close>

lemma ds_ready_start: "ds_ready L (length (wire s)) s" "ds_sent L (length (wire s)) s = []"
  by (cases s; simp add: ds_ready_duplex ds_ready_plain zstd_ready_def zstd_sent_def aligned_Nil)+

lemma pipe_ends_copy:
  assumes libs: "zstd_lossless L" "chunk_ok P" and p: "preach (stream_end P L) idle x y t s"
  defines "n \<equiv> \<lambda>d. length (wire (if d then x else y))"
  shows "prefix (ds_sent L (n False) (side s False)) (fst (ds_view L x))"
    and "prefix (ds_sent L (n True) (side s True)) (fst (ds_view L y))"
    and "copied_all s True \<Longrightarrow> ds_sent L (n False) (side s False) = fst (ds_view L x)"
    and "copied_all s False \<Longrightarrow> ds_sent L (n True) (side s True) = fst (ds_view L y)"
  using pipe_end.copies [OF stream_ends [OF libs, of n] p] ds_ready_start [of L x] ds_ready_start [of L y]
  by (simp_all add: n_def copied_all_def)

text \<open>The kind of an end does not change.\<close>

lemma pipe_kinds:
  assumes "chunk_ok P" "preach (stream_end P L) idle x y t s"
  shows "compressed (side s d) = compressed (if d then x else y)"
  using assms(2)
proof (induction rule: preach_induct)
  case init
  show ?case by (simp add: BothWithIdle_def)
next
  case (step s s')
  have close: "compressed (snd (ds_close e)) = compressed e" for e using ds_close_conn [of e] by (metis prod.collapse)
  from step(2) have "compressed (side s' d) = compressed (side s d)"
    by cases (auto simp: close_side_def close dest: ds_read_conn ds_write_conn [OF assms(1)])
  with step(3) show ?case by simp
qed

text \<open>The stream between the two pipes: what arrives on one side, after the handshake, is what the other
  side has put on it.\<close>

lemma stream_carries:
  assumes "ds_view L r = payload L z (x, e)" "compressed w = z" "prefix (wire w0 @ x) (wire w)"
  shows "prefix (fst (ds_view L r)) (ds_sent L (length (wire w0)) w)"
    and "wire w0 @ x = wire w \<Longrightarrow> fst (ds_view L r) = ds_sent L (length (wire w0)) w"
proof -
  obtain y where y: "wire w = wire w0 @ x @ y" using assms(3) by (auto simp: prefix_def)
  have "prefix (fst (payload L z (x, e))) (fst (payload L z (x @ y, EOF)))" by (rule payload_mono) simp
  then show "prefix (fst (ds_view L r)) (ds_sent L (length (wire w0)) w)"
    using y by (simp add: assms(1,2) ds_sent_def)
  assume "wire w0 @ x = wire w"
  then have "y = []" using y by simp
  then show "fst (ds_view L r) = ds_sent L (length (wire w0)) w"
    using y payload_ends [of L z x e EOF] by (simp add: assms(1,2) ds_sent_def)
qed

text \<open>C5: what a forwarded connection carries, with compression (\<open>z\<close>) or without. The client pipes a local
  connection \<open>a\<close> and its end \<open>cs\<close> of the data stream, the server its end \<open>ss\<close> and the target \<open>b\<close>, both
  after whatever handshake they have written and read: \<open>up\<close> and \<open>down\<close> are the bytes that the stream still
  delivers to the server and to the client, with the data that a side has decompressed but not used
  counted in. As long as the stream delivers, in each direction, bytes that the other pipe has
  written, the target has received a prefix of what the local application sent, and the application a
  prefix of what the target sent, at every moment of every interleaving of the two pipes, their
  watchers and the closing of their ends. And nothing is held back: when, in one direction, the copy
  loops of both pipes have come to the end of their input while their ends were open and took data, and the
  stream has delivered all that was written to it, then everything has arrived that was sent in this direction, for
  either direction.\<close>

theorem tunnel_bytes:
  assumes libs: "zstd_lossless L" "chunk_ok P" "chunk_ok P'"
    and pipes: "proxyConnection P L a cs t p1" "proxy_target P' L ss b t' p2"
    and kinds: "compressed cs = z" "compressed ss = z"
    and fresh: "out_bytes a = []" "out_bytes b = []"
    and up: "ds_view L ss = payload L z (up, e)" "prefix (wire cs @ up) (wire (side p1 False))"
    and down: "ds_view L cs = payload L z (down, e')" "prefix (wire ss @ down) (wire (side p2 True))"
  shows "prefix (wire (side p2 False)) (unread a) \<and> prefix (wire (side p1 True)) (unread b) \<and>
    (copied_all p1 True \<and> wire cs @ up = wire (side p1 False) \<and> copied_all p2 True \<longrightarrow>
       wire (side p2 False) = unread a) \<and>
    (copied_all p2 False \<and> wire ss @ down = wire (side p2 True) \<and> copied_all p1 False \<longrightarrow>
       wire (side p1 True) = unread b)"
proof -
  note P1 = pipes(1) [unfolded proxyConnection_def] and P2 = pipes(2) [unfolded proxy_target_def]
  note c1 = pipe_ends_copy [OF libs(1,2) P1] and c2 = pipe_ends_copy [OF libs(1,3) P2]
  have plain: "ds_sent L 0 (side p1 True) = wire (side p1 True)" "ds_sent L 0 (side p2 False) = wire (side p2 False)"
    using pipe_kinds [OF libs(2) P1, of True] pipe_kinds [OF libs(3) P2, of False] by (simp_all add: ds_sent_def payload_def)
  have "compressed (side p1 False) = z" "compressed (side p2 True) = z"
    using pipe_kinds [OF libs(2) P1, of False] pipe_kinds [OF libs(3) P2, of True] kinds by simp_all
  note s1 = stream_carries [OF up(1) this(1) up(2)] and s2 = stream_carries [OF down(1) this(2) down(2)]
  show ?thesis
    using c1 c2 s1 s2 by (auto simp: fresh plain unread_view dest: prefix_order.trans)
qed

section \<open>Examples\<close>

lemma frame_of_bounds: "fits Q m \<Longrightarrow> frame_of Q m \<noteq> [] \<and> length (frame_of Q m) \<le> 2 ^ 30"
  by (auto simp: fits_def frame_of_def message_frame_def put_uint32_def maxProtoMsgSize_def split: sum.splits)

definition example_local :: LocalServiceConfig where
  "example_local = \<lparr>lc_Name = ''ssh'', lc_Local = ''127.0.0.1:2222'', lc_Password = ''pw'', lc_Protocol = [''tcp''], lc_Enabled = True\<rparr>"

abbreviation example_req :: UnifiedMessage where
  "example_req \<equiv> request_msg ''ssh'' ''tcp'' ''pw''"

lemma example_fits:
  "fits (list_proto example_agreed) example_req" "fits (list_proto example_agreed) (response_msg example_server_config example_req)"
  by (rule example_agreed_proto(2); simp add: example_agreed_def)+

lemma example_granted: "\<exists>service. request_allowed example_server_config example_req service"
  by (auto simp: request_allowed_def find_service_def example_server_config_def request_msg_def)

lemma default_chunk: "chunk_ok default_zstd_params"
  by (simp add: chunk_ok_def default_zstd_params_def)

lemmas example_facts = example_agreed_proto(1) example_zstd_lossless default_chunk example_fits

theorem forwarded_over_quic_witness:
  "\<exists>s1. handleLocalConnForProtocol (list_proto example_agreed) default_zstd_params example_zstd
     (\<lambda>_. Inr (example_conn (frame_of (list_proto example_agreed) (response_msg example_server_config example_req) @ [42])))
     (\<lambda>_. Inl EOF) ''S'' example_local ''tcp'' ((NewClient example_server_config)\<lparr>directConn := Some 5\<rparr>) = Some (Proxied s1) \<and>
   ds_view example_zstd s1 = ([42], EOF)"
proof -
  obtain service where "request_allowed example_server_config example_req service" using example_granted by blast
  then show ?thesis
    using forwarded_over_quic [where Q = "list_proto example_agreed" and P = default_zstd_params and P' = default_zstd_params
        and L = example_zstd and ls = example_local and protocol = "''tcp''" and cfg = example_server_config
        and c = "(NewClient example_server_config)\<lparr>directConn := Some 5\<rparr>" and q = 5 and rest = "[42]" and e = EOF
        and ?st0.0 = "example_conn (frame_of (list_proto example_agreed) (response_msg example_server_config example_req) @ [42])"
        and openQ = "\<lambda>_. Inr (example_conn (frame_of (list_proto example_agreed) (response_msg example_server_config example_req) @ [42]))"
        and newStream = "\<lambda>_. Inl EOF" and server = "''S''" and dial = "\<lambda>_ _. Inr ()" and t = "()" and service = service]
      example_facts
    by (simp add: example_local_def NewClient_def payload_def) blast
qed

theorem forwarded_over_libp2p_witness:
  "\<exists>s1. handleLocalConnForProtocol (list_proto example_agreed) default_zstd_params example_zstd (\<lambda>_. Inl EOF)
     (\<lambda>p. if p = DataProtocolZstd (cc_Protocol (Common example_server_config))
           then Inr (example_conn (encode_frame default_zstd_params example_zstd
             (frame_of (list_proto example_agreed) (response_msg example_server_config example_req))))
           else Inl EOF)
     ''S'' example_local ''tcp'' ((NewClient example_server_config)\<lparr>serviceCompress := [''ssh'' \<mapsto> True]\<rparr>) = Some (Proxied s1) \<and>
   ds_view example_zstd s1 = ([], EOF)"
proof -
  let ?f = "frame_of (list_proto example_agreed) (response_msg example_server_config example_req)"
  obtain service where g: "request_allowed example_server_config example_req service" using example_granted by blast
  have "aligned example_zstd (encode_frame default_zstd_params example_zstd ?f) ?f"
    using aligned_encode_frame [OF example_facts(2)] frame_of_bounds [OF example_facts(5)] by blast
  then have v: "decode example_zstd (encode_frame default_zstd_params example_zstd ?f) EOF = (?f, EOF)"
    using aligned_def [of example_zstd _ ?f] by (metis append_Nil2 decode_Nil fst_conv snd_conv)
  show ?thesis
    using forwarded_over_libp2p [where Q = "list_proto example_agreed" and P = default_zstd_params and P' = default_zstd_params
        and L = example_zstd and ls = example_local and protocol = "''tcp''" and cfg = example_server_config
        and c = "(NewClient example_server_config)\<lparr>serviceCompress := [''ssh'' \<mapsto> True]\<rparr>" and rest = "[]" and e = EOF
        and ?st0.0 = "example_conn (encode_frame default_zstd_params example_zstd ?f)"
        and newStream = "\<lambda>p. if p = DataProtocolZstd (cc_Protocol (Common example_server_config))
           then Inr (example_conn (encode_frame default_zstd_params example_zstd ?f)) else Inl EOF"
        and openQ = "\<lambda>_. Inl EOF" and server = "''S''" and dial = "\<lambda>_ _. Inr ()" and t = "()" and service = service]
      example_facts g v
    by (simp add: example_local_def NewClient_def payload_def) blast
qed

text \<open>A compressed stream that carries two bytes to the server and none back.\<close>

definition example_cs :: data_stream where
  "example_cs = Duplex (NewZstdDuplex fresh_conn)"

definition example_ss :: data_stream where
  "example_ss = Duplex (NewZstdDuplex (fresh_conn\<lparr>in_segs := [[0, 2, 1, 2]]\<rparr>))"

lemma example_frame:
  "PutUvarint 2 = [2]" "frame_payload default_zstd_params example_zstd [1, 2] = (0, [1, 2])"
  "encode_frame default_zstd_params example_zstd [1, 2] = [0, 2, 1, 2]"
proof -
  show u: "PutUvarint 2 = [2]" by (subst PutUvarint.simps) simp
  show f: "frame_payload default_zstd_params example_zstd [1, 2] = (0, [1, 2])"
    by (simp add: frame_payload_def default_zstd_params_def)
  show "encode_frame default_zstd_params example_zstd [1, 2] = [0, 2, 1, 2]" by (simp add: encode_frame_def f u)
qed

lemma example_ds_write:
  "\<exists>s. ds_write default_zstd_params example_zstd example_cs [1, 2] = Some ((2, None), s) \<and> wire s = [0, 2, 1, 2]"
proof -
  have w: "conn_write c p = Some ((length p, None), c\<lparr>out_bytes := out_bytes c @ p\<rparr>)" if "\<not> is_closed c" "out_room c = None" for c p
    using that by (simp add: conn_write_def)
  have c: "zstdChunkSizeB default_zstd_params = 32768" by (simp add: default_zstd_params_def)
  show ?thesis
    by (simp add: example_cs_def zstd_Write_def zstd_Write_loop.simps [of _ _ _ _ "[1, 2]"] zstd_Write_loop.simps [of _ _ _ _ "[]"]
        c example_frame(1,2) Let_def w NewZstdDuplex_def fresh_conn_def writeUvarint_def flagCompressed_def)
qed

lemma example_ds_read:
  "\<exists>s1 s2 e. ds_read example_zstd example_ss bufSize = Some (([1, 2], None), s1) \<and>
     ds_read example_zstd s1 bufSize = Some (([], Some e), s2) \<and> \<not> is_closed (ds_conn s2)"
proof -
  let ?d = "NewZstdDuplex (fresh_conn\<lparr>in_segs := [[0, 2, 1, 2]]\<rparr>)"
  have v: "conn_view (base ?d) = ([0, 2, 1, 2], EOF)" by (simp add: conn_view_def fresh_conn_def)
  have f: "decode_frame example_zstd [0, 2, 1, 2] EOF = Inr ([1, 2], [])"
    using decode_frame_encode [OF example_zstd_lossless, of "[1, 2]" default_zstd_params "[]" EOF] by (simp add: example_frame(3))
  obtain z where z: "zstd_Read example_zstd conn_read ?d bufSize = Some (readBuf_Read z bufSize)" "readBuf z = [1, 2]"
      "conn_view (base z) = ([], EOF)"
    using cs.zstd_Read_frame [OF TrueI v, of example_zstd bufSize] f by auto
  define z1 where "z1 = z\<lparr>readBuf := []\<rparr>"
  have r1: "ds_read example_zstd example_ss bufSize = Some (([1, 2], None), Duplex z1)"
    using z by (simp add: example_ss_def readBuf_Read_def bufSize_def z1_def)
  have "conn_view (base z1) = ([], EOF)" "readBuf z1 = []" using z(3) by (simp_all add: z1_def)
  then obtain z2 where "zstd_Read example_zstd conn_read z1 bufSize = Some (([], Some EOF), z2)"
    using cs.zstd_Read_frame [OF TrueI, of z1 "[]" EOF example_zstd bufSize] by (auto simp: decode_frame_def)
  then have r2: "ds_read example_zstd (Duplex z1) bufSize = Some (([], Some EOF), Duplex z2)" by simp
  have "\<not> is_closed (ds_conn (Duplex z2))"
    using ds_read_conn [OF r2] ds_read_conn [OF r1] by (simp add: example_ss_def fresh_conn_def)
  then show ?thesis using r1 r2 by blast
qed

theorem tunnel_bytes_witness:
  "\<exists>p1 p2. proxyConnection default_zstd_params example_zstd example_a example_cs 0 p1 \<and>
     proxy_target default_zstd_params example_zstd example_ss fresh_conn 0 p2 \<and>
     wire (side p1 False) = [0, 2, 1, 2] \<and> wire (side p2 False) = [1, 2] \<and> unread example_a = [1, 2]"
proof -
  let ?E = "stream_end default_zstd_params example_zstd"
  obtain s where s: "ds_write default_zstd_params example_zstd example_cs [1, 2] = Some ((2, None), s)" "wire s = [0, 2, 1, 2]"
    using example_ds_write by blast
  have a: "rw_read ?E (Plain example_a) bufSize = Some (([1, 2], None), Plain (example_a\<lparr>in_segs := [[]]\<rparr>))"
    "rw_write ?E example_cs [1, 2] = Some ((2, None), s)"
    "rw_read ?E (Plain (example_a\<lparr>in_segs := [[]]\<rparr>)) bufSize = Some (([], Some EOF), Plain (example_a\<lparr>in_segs := []\<rparr>))"
    using s(1) by (simp_all add: example_a_def fresh_conn_def conn_read_def bufSize_def)
  obtain p1 where p1: "preach ?E (60 * second) (Plain example_a) example_cs 0 p1" "loop p1 True = L_Ended"
      "side p1 True = Plain (example_a\<lparr>in_segs := []\<rparr>)" "side p1 False = s"
    by (rule copy_run [OF a(1) _ a(2,3), where idle = "60 * second" and t = 0]) auto
  obtain s1 s2 e where r: "ds_read example_zstd example_ss bufSize = Some (([1, 2], None), s1)"
     "ds_read example_zstd s1 bufSize = Some (([], Some e), s2)" "\<not> is_closed (ds_conn s2)"
    using example_ds_read by blast
  have b: "rw_read ?E example_ss bufSize = Some (([1, 2], None), s1)"
    "rw_write ?E (Plain fresh_conn) [1, 2] = Some ((2, None), Plain (fresh_conn\<lparr>out_bytes := [1, 2]\<rparr>))"
    "rw_read ?E s1 bufSize = Some (([], Some e), s2)"
    using r by (simp_all add: fresh_conn_def conn_write_def)
  obtain p2 where p2: "preach ?E (60 * second) example_ss (Plain fresh_conn) 0 p2" "loop p2 True = L_Ended" "side p2 True = s2"
      "side p2 False = Plain (fresh_conn\<lparr>out_bytes := [1, 2]\<rparr>)"
    by (rule copy_run [OF b(1) _ b(2,3), where idle = "60 * second" and t = 0]) auto
  have pipes: "proxyConnection default_zstd_params example_zstd example_a example_cs 0 p1"
    "proxy_target default_zstd_params example_zstd example_ss fresh_conn 0 p2"
    using p1(1) p2(1) by (simp_all add: proxyConnection_def proxy_target_def)
  have kinds: "compressed example_cs = True" "compressed example_ss = True" "out_bytes example_a = []" "out_bytes fresh_conn = []"
    by (simp_all add: example_cs_def example_ss_def example_a_def fresh_conn_def)
  have up: "ds_view example_zstd example_ss = payload example_zstd True ([0, 2, 1, 2], EOF)"
    "prefix (wire example_cs @ [0, 2, 1, 2]) (wire (side p1 False))"
    using s(2) p1(4) by (simp_all add: example_ss_def example_cs_def fresh_conn_def conn_view_def zstd_view_def payload_def split: prod.split)
  have down: "ds_view example_zstd example_cs = payload example_zstd True ([], EOF)" "prefix (wire example_ss @ []) (wire (side p2 True))"
    by (simp_all add: example_ss_def example_cs_def fresh_conn_def conn_view_def zstd_view_def payload_def)
  have "copied_all p1 True" "copied_all p2 True" "wire example_cs @ [0, 2, 1, 2] = wire (side p1 False)"
    using p1 p2 r(3) s ds_write_conn [OF default_chunk s(1)]
    by (simp_all add: copied_all_def conn_healthy_def example_a_def example_cs_def fresh_conn_def)
  then have "wire (side p2 False) = unread example_a"
    using tunnel_bytes [OF example_zstd_lossless default_chunk default_chunk pipes kinds up down] by blast
  then show ?thesis using pipes p1(4) p2(4) s(2)
    by (intro exI [of _ p1] exI [of _ p2]) (simp add: example_a_def unread_def)
qed

end
