(* ===== verification/F2P_Handlers.thy ===== *)
theory F2P_Handlers
  imports F2P_Sessions
begin

text \<open>
  The server's handlers of control streams as whole functions: \<^verbatim>\<open>handleControlStream\<close> and
  \<^verbatim>\<open>handleAuthenticationStream\<close> of \<^verbatim>\<open>internal/server/handlers_control.go\<close>, \<^verbatim>\<open>handleQUICControlStream\<close> of
  \<^verbatim>\<open>handlers_holepunch.go\<close> and the deferred function of \<^verbatim>\<open>monitorControlStream\<close>, each run without
  interruption. They work on the tables of \<open>sessions_state\<close> and leave its bookkeeping (\<open>handlers\<close>,
  \<open>auths\<close>) alone. The theorems show that each of them is a run of the interleaved steps of
  \<open>F2P_Sessions\<close>, so that the invariants proved there hold for them, and what a session leaves behind.
\<close>

section \<open>The handlers\<close>

text \<open>\<open>s.authenticatedClients[p] = cs\<close> under the lock, the tag, and the new session with the number of
  its stream.\<close>

definition register :: "nat \<Rightarrow> ClientSession \<Rightarrow> sessions_state \<Rightarrow> sessions_state" where
  "register i cs s =
     (let s1 = s\<lparr>sessions := (sessions s)(i \<mapsto> cs), authenticatedClients := (authenticatedClients s)(peerID cs \<mapsto> i)\<rparr>
      in s1\<lparr>tags := insert (peerID cs) (tags s1)\<rparr>)"

definition go_monitor :: "nat \<Rightarrow> sessions_state \<Rightarrow> sessions_state" where
  "go_monitor i s = s\<lparr>monitors := (monitors s)(i \<mapsto> M_Run)\<rparr>"

text \<open>Take the old session out of the table, close its dispatcher and its libp2p stream.\<close>

definition replace_old :: "string \<Rightarrow> sessions_state \<Rightarrow> sessions_state" where
  "replace_old p s =
     (case authenticatedClients s p of
        None \<Rightarrow> s
      | Some old \<Rightarrow>
          let s1 = s\<lparr>authenticatedClients := (authenticatedClients s)(p := None)\<rparr>;
              s2 = s1\<lparr>dispClosed := insert old (dispClosed s1)\<rparr>
          in (case sessions s2 old of Some cs \<Rightarrow> close_control (controlStream cs) s2 | None \<Rightarrow> s2))"

definition handleAuthenticationStream ::
    "Server \<Rightarrow> bcrypt_lib \<Rightarrow> proto_lib \<Rightarrow> 's writer \<Rightarrow> (MessageType list \<Rightarrow> 's \<Rightarrow> ((error + UnifiedMessage) \<times> 's) option) \<Rightarrow>
     nat \<Rightarrow> string \<Rightarrow> sessions_state \<Rightarrow> 's \<Rightarrow> (error option \<times> sessions_state \<times> 's) option" where
  "handleAuthenticationStream S B Q wr wait i remotePeer s c = do {
     a \<leftarrow> handleAuthOnControl S B Q wr c wait;
     case a of
       (Some e, c1) \<Rightarrow> Some (Some (Errorf ''handshake failed: %v'' [FErr e]), s\<lparr>dispClosed := insert i (dispClosed s)\<rparr>, c1)
     | (None, c1) \<Rightarrow> Some (None, go_monitor i (register i \<lparr>peerID = remotePeer, controlStream = Some i\<rparr> s), c1) }"

definition handleControlStream ::
    "Server \<Rightarrow> bcrypt_lib \<Rightarrow> proto_lib \<Rightarrow> 's writer \<Rightarrow> (MessageType list \<Rightarrow> 's \<Rightarrow> ((error + UnifiedMessage) \<times> 's) option) \<Rightarrow>
     nat \<Rightarrow> string \<Rightarrow> sessions_state \<Rightarrow> 's \<Rightarrow> (sessions_state \<times> 's) option" where
  "handleControlStream S B Q wr wait i remotePeer s c =
     (if authenticatedClients s remotePeer = None then do {
        r \<leftarrow> handleAuthenticationStream S B Q wr wait i remotePeer s c;
        case r of
          (Some e, s1, c1) \<Rightarrow> Some (ClosePeer remotePeer s1, c1)
        | (None, s1, c1) \<Rightarrow> Some (s1, c1) }
      else
        Some (go_monitor i (register i \<lparr>peerID = remotePeer, controlStream = Some i\<rparr> (replace_old remotePeer s)), c))"

text \<open>The handler of a direct connection up to its call of \<^verbatim>\<open>monitorControlStream\<close>; the result says
  whether it gets there.\<close>

definition handleQUICControlStream ::
    "Server \<Rightarrow> bcrypt_lib \<Rightarrow> proto_lib \<Rightarrow> 's writer \<Rightarrow> (MessageType list \<Rightarrow> 's \<Rightarrow> ((error + UnifiedMessage) \<times> 's) option) \<Rightarrow>
     nat \<Rightarrow> string \<Rightarrow> sessions_state \<Rightarrow> 's \<Rightarrow> (bool \<times> sessions_state \<times> 's) option" where
  "handleQUICControlStream S B Q wr wait i clientPeer s c =
     (let monitored = (\<lambda>s. go_monitor i (register i \<lparr>peerID = clientPeer, controlStream = None\<rparr> s))
      in if authenticatedClients s clientPeer = None then do {
           a \<leftarrow> handleAuthOnControl S B Q wr c wait;
           case a of
             (Some e, c1) \<Rightarrow> Some (False, close_stream i (s\<lparr>dispClosed := insert i (dispClosed s)\<rparr>), c1)
           | (None, c1) \<Rightarrow> Some (True, monitored s, c1) }
         else Some (True, monitored (replace_old clientPeer s), c))"

text \<open>The handler for a control stream of either kind.\<close>

definition handle_control ::
    "kind \<Rightarrow> Server \<Rightarrow> bcrypt_lib \<Rightarrow> proto_lib \<Rightarrow> 's writer \<Rightarrow> (MessageType list \<Rightarrow> 's \<Rightarrow> ((error + UnifiedMessage) \<times> 's) option) \<Rightarrow>
     nat \<Rightarrow> string \<Rightarrow> sessions_state \<Rightarrow> 's \<Rightarrow> (sessions_state \<times> 's) option" where
  "handle_control k S B Q wr wait i p s c =
     (if k = Libp2p then handleControlStream S B Q wr wait i p s c
      else map_option snd (handleQUICControlStream S B Q wr wait i p s c))"

text \<open>The deferred function of the monitor.\<close>

definition monitor_deferred :: "nat \<Rightarrow> ClientSession \<Rightarrow> sessions_state \<Rightarrow> sessions_state" where
  "monitor_deferred i clientSession s =
     (let current = Option.bind (authenticatedClients s (peerID clientSession)) (sessions s);
          s1 = (if current \<noteq> None \<and> controlStream (the current) = controlStream clientSession
                then s\<lparr>authenticatedClients := (authenticatedClients s)(peerID clientSession := None)\<rparr> else s);
          s2 = s1\<lparr>tags := tags s1 - {peerID clientSession}\<rparr>;
          s3 = (case controlStream clientSession of Some k \<Rightarrow> close_stream k s2 | None \<Rightarrow> s2);
          s4 = s3\<lparr>dispClosed := insert i (dispClosed s3)\<rparr>
      in ClosePeer (peerID clientSession) s4)"

section \<open>Refinement\<close>

lemma handlers_register:
  assumes "handlers s i = Some H_Install" "streams s i = Some st"
  shows "(sstep S B Q)\<^sup>*\<^sup>* s ((go_monitor i (register i (new_session i st) s))\<lparr>handlers := (handlers s)(i \<mapsto> H_Done)\<rparr>)"
proof -
  have "sstep S B Q s (handler_install i st s)" by (rule sstep.install [OF assms])
  moreover have "sstep S B Q (handler_install i st s) (handler_tag i st (handler_install i st s))"
    by (rule sstep.tag) (simp_all add: handler_install_def assms(2))
  moreover have "handler_tag i st (handler_install i st s) =
      (go_monitor i (register i (new_session i st) s))\<lparr>handlers := (handlers s)(i \<mapsto> H_Done)\<rparr>"
    by (simp add: handler_install_def handler_tag_def go_monitor_def register_def new_session_def Let_def)
  ultimately show ?thesis by (metis converse_rtranclp_into_rtranclp rtranclp.rtrancl_refl)
qed

lemma handlers_replace:
  assumes "handlers s i = Some H_Check" "streams s i = Some st" "authenticatedClients s (st_peer st) = Some old"
  shows "(sstep S B Q)\<^sup>*\<^sup>* s ((replace_old (st_peer st) s)\<lparr>handlers := (handlers s)(i \<mapsto> H_Install)\<rparr>)"
proof -
  let ?s1 = "handler_check i st s" and ?s2 = "handler_lock i st (handler_check i st s)"
  have "sstep S B Q s ?s1" by (rule sstep.check [OF assms(1,2)])
  moreover have "sstep S B Q ?s1 ?s2" by (rule sstep.lock) (simp_all add: handler_check_def assms)
  moreover have "sstep S B Q ?s2 (handler_close_old i old ?s2)"
    by (rule sstep.close_old) (simp add: handler_check_def handler_lock_def assms)
  moreover have "handler_close_old i old ?s2 = (replace_old (st_peer st) s)\<lparr>handlers := (handlers s)(i \<mapsto> H_Install)\<rparr>"
    by (auto simp: handler_check_def handler_lock_def handler_close_old_def replace_old_def assms Let_def close_control_def
        close_stream_def split: option.splits cong: if_cong)
  ultimately show ?thesis by (metis converse_rtranclp_into_rtranclp rtranclp.rtrancl_refl)
qed

lemma handlers_authenticated:
  assumes "handlers s i = Some H_Check" "streams s i = Some st" "authenticatedClients s (st_peer st) = None"
    and "handleAuthOnControl S B Q conn_write c (answers w) = Some (None, c')"
  shows "(sstep S B Q)\<^sup>*\<^sup>* s (s\<lparr>auths := insert (i, w) (auths s), handlers := (handlers s)(i \<mapsto> H_Install)\<rparr>)"
proof -
  let ?s1 = "handler_check i st s"
  have "sstep S B Q s ?s1" by (rule sstep.check [OF assms(1,2)])
  moreover have "sstep S B Q ?s1 (?s1\<lparr>auths := insert (i, w) (auths ?s1), handlers := (handlers ?s1)(i \<mapsto> H_Install)\<rparr>)"
    by (rule sstep.auth_ok [OF _ assms(4)]) (simp add: handler_check_def assms(3))
  moreover have "?s1\<lparr>auths := insert (i, w) (auths ?s1), handlers := (handlers ?s1)(i \<mapsto> H_Install)\<rparr> =
      s\<lparr>auths := insert (i, w) (auths s), handlers := (handlers s)(i \<mapsto> H_Install)\<rparr>"
    by (simp add: handler_check_def)
  ultimately show ?thesis by (metis converse_rtranclp_into_rtranclp rtranclp.rtrancl_refl)
qed

lemma handlers_refused:
  assumes "handlers s i = Some H_Check" "streams s i = Some st" "authenticatedClients s (st_peer st) = None"
    and "handleAuthOnControl S B Q conn_write c (answers w) = Some (Some e, c')"
  shows "(sstep S B Q)\<^sup>*\<^sup>* s
    ((if st_kind st = Libp2p then ClosePeer (st_peer st) (s\<lparr>dispClosed := insert i (dispClosed s)\<rparr>)
      else close_stream i (s\<lparr>dispClosed := insert i (dispClosed s)\<rparr>))\<lparr>handlers := (handlers s)(i \<mapsto> H_Done)\<rparr>)"
proof -
  let ?t = "(if st_kind st = Libp2p then ClosePeer (st_peer st) (s\<lparr>dispClosed := insert i (dispClosed s)\<rparr>)
      else close_stream i (s\<lparr>dispClosed := insert i (dispClosed s)\<rparr>))\<lparr>handlers := (handlers s)(i \<mapsto> H_Done)\<rparr>"
  let ?s1 = "handler_check i st s" and ?s2 = "handler_auth_failed i st (handler_check i st s)"
  have 1: "sstep S B Q s ?s1" by (rule sstep.check [OF assms(1,2)])
  have 2: "sstep S B Q ?s1 ?s2"
    by (rule sstep.auth_failed [OF _ _ assms(4)]) (simp_all add: handler_check_def assms)
  show ?thesis
  proof (cases "st_kind st")
    case Libp2p
    have "sstep S B Q ?s2 ((ClosePeer (st_peer st) ?s2)\<lparr>handlers := (handlers ?s2)(i \<mapsto> H_Done)\<rparr>)"
      by (rule sstep.close_peer) (simp_all add: handler_check_def handler_auth_failed_def Libp2p assms)
    moreover have "(ClosePeer (st_peer st) ?s2)\<lparr>handlers := (handlers ?s2)(i \<mapsto> H_Done)\<rparr> = ?t"
      by (simp add: handler_check_def handler_auth_failed_def Libp2p ClosePeer_def assms)
    ultimately show ?thesis using 1 2 by (metis converse_rtranclp_into_rtranclp rtranclp.rtrancl_refl)
  next
    case QUIC
    have "?s2 = ?t"
      by (simp add: handler_check_def handler_auth_failed_def QUIC close_stream_def assms cong: if_cong)
    with 1 2 show ?thesis by (metis converse_rtranclp_into_rtranclp rtranclp.rtrancl_refl)
  qed
qed

lemma replace_old_fields [simp]:
  "handlers (replace_old p s) = handlers s" "info (replace_old p s) = info s" "auths (replace_old p s) = auths s"
  "tags (replace_old p s) = tags s" "monitors (replace_old p s) = monitors s" "sessions (replace_old p s) = sessions s"
  by (auto simp: replace_old_def Let_def close_control_def close_stream_def info_def fun_eq_iff
      option.map_comp comp_def split: option.splits)

lemma info_Some: "info s i = Some (k, p) \<Longrightarrow> \<exists>st. streams s i = Some st \<and> st_kind st = k \<and> st_peer st = p"
  by (auto simp: info_def)

definition entry :: "kind \<Rightarrow> nat \<Rightarrow> string \<Rightarrow> ClientSession" where
  "entry k i p = \<lparr>peerID = p, controlStream = (if k = Libp2p then Some i else None)\<rparr>"

lemma handlers_installed:
  assumes "(sstep S B Q)\<^sup>*\<^sup>* s (t\<lparr>handlers := (handlers s)(i \<mapsto> H_Install)\<rparr>)" "info t i = Some (k, p)"
  shows "(sstep S B Q)\<^sup>*\<^sup>* s ((go_monitor i (register i (entry k i p) t))\<lparr>handlers := (handlers s)(i \<mapsto> H_Done)\<rparr>)"
proof -
  let ?t = "t\<lparr>handlers := (handlers s)(i \<mapsto> H_Install)\<rparr>"
  obtain st where st: "streams t i = Some st" "st_kind st = k" "st_peer st = p" using info_Some [OF assms(2)] by blast
  have "(sstep S B Q)\<^sup>*\<^sup>* ?t ((go_monitor i (register i (new_session i st) ?t))\<lparr>handlers := (handlers ?t)(i \<mapsto> H_Done)\<rparr>)"
    by (rule handlers_register) (simp_all add: st)
  moreover have "(go_monitor i (register i (new_session i st) ?t))\<lparr>handlers := (handlers ?t)(i \<mapsto> H_Done)\<rparr> =
      (go_monitor i (register i (entry k i p) t))\<lparr>handlers := (handlers s)(i \<mapsto> H_Done)\<rparr>"
    by (simp add: go_monitor_def register_def new_session_def entry_def st Let_def)
  ultimately show ?thesis using assms(1) by (metis rtranclp_trans)
qed

definition opened_by :: "sessions_state \<Rightarrow> nat \<Rightarrow> kind \<Rightarrow> string \<Rightarrow> bool" where
  "opened_by s i k p \<longleftrightarrow> handlers s i = Some H_Check \<and> info s i = Some (k, p)"

lemma go_monitor_more [simp]:
  "(go_monitor i s)\<lparr>handlers := h\<rparr> = go_monitor i (s\<lparr>handlers := h\<rparr>)" "(go_monitor i s)\<lparr>auths := a\<rparr> = go_monitor i (s\<lparr>auths := a\<rparr>)"
  "(register i cs s)\<lparr>handlers := h\<rparr> = register i cs (s\<lparr>handlers := h\<rparr>)" "(register i cs s)\<lparr>auths := a\<rparr> = register i cs (s\<lparr>auths := a\<rparr>)"
  by (simp_all add: go_monitor_def register_def Let_def)

lemma same_auths: "auths t = A \<Longrightarrow> t\<lparr>handlers := h, auths := A\<rparr> = t\<lparr>handlers := h\<rparr>"
  by simp

lemma upd_swap: "t\<lparr>handlers := h, auths := a\<rparr> = t\<lparr>auths := a, handlers := h\<rparr>" for t :: sessions_state
  by simp

lemma handler_replaces:
  assumes "opened_by s i k p" "authenticatedClients s p = Some old"
  shows "(sstep S B Q)\<^sup>*\<^sup>* s ((go_monitor i (register i (entry k i p) (replace_old p s)))\<lparr>handlers := (handlers s)(i \<mapsto> H_Done)\<rparr>)"
proof -
  obtain st where st: "streams s i = Some st" "st_kind st = k" "st_peer st = p"
    using info_Some [of s i k p] assms(1) unfolding opened_by_def by blast
  have "(sstep S B Q)\<^sup>*\<^sup>* s ((replace_old p s)\<lparr>handlers := (handlers s)(i \<mapsto> H_Install)\<rparr>)"
    using handlers_replace [of s i st old S B Q] assms st by (simp add: opened_by_def)
  from handlers_installed [OF this] assms(1) show ?thesis by (simp add: opened_by_def)
qed

lemma handler_grants:
  assumes "opened_by s i k p" "authenticatedClients s p = None" "handleAuthOnControl S B Q conn_write c (answers w) = Some (None, c')"
  shows "(sstep S B Q)\<^sup>*\<^sup>* s ((go_monitor i (register i (entry k i p) s))\<lparr>handlers := (handlers s)(i \<mapsto> H_Done), auths := insert (i, w) (auths s)\<rparr>)"
proof -
  let ?t = "s\<lparr>auths := insert (i, w) (auths s)\<rparr>"
  obtain st where st: "streams s i = Some st" "st_kind st = k" "st_peer st = p"
    using info_Some [of s i k p] assms(1) unfolding opened_by_def by blast
  have "(sstep S B Q)\<^sup>*\<^sup>* s (?t\<lparr>handlers := (handlers s)(i \<mapsto> H_Install)\<rparr>)"
    using handlers_authenticated [of s i st S B Q c w c'] assms st by (simp add: opened_by_def)
  moreover have "info ?t i = Some (k, p)" using assms(1) by (simp add: opened_by_def info_def)
  ultimately show ?thesis using handlers_installed [where t = ?t and s = s and i = i and k = k and p = p and S = S and B = B and Q = Q] by (simp add: upd_swap)
qed

lemma handler_refuses:
  assumes "opened_by s i k p" "authenticatedClients s p = None" "handleAuthOnControl S B Q conn_write c (answers w) = Some (Some e, c')"
  shows "(sstep S B Q)\<^sup>*\<^sup>* s
    ((if k = Libp2p then ClosePeer p (s\<lparr>dispClosed := insert i (dispClosed s)\<rparr>)
      else close_stream i (s\<lparr>dispClosed := insert i (dispClosed s)\<rparr>))\<lparr>handlers := (handlers s)(i \<mapsto> H_Done)\<rparr>)"
proof -
  obtain st where "streams s i = Some st" "st_kind st = k" "st_peer st = p"
    using info_Some [of s i k p] assms(1) unfolding opened_by_def by blast
  moreover have "handlers s i = Some H_Check" using assms(1) by (simp add: opened_by_def)
  ultimately show ?thesis using handlers_refused [of s i st S B Q c w e c'] assms(2,3) by (cases k) simp_all
qed

lemma handle_control_new:
  assumes "authenticatedClients s p = None" "handleAuthOnControl S B Q wr c wait = Some (eo, c')"
  shows "handle_control k S B Q wr wait i p s c =
    Some ((case eo of None \<Rightarrow> go_monitor i (register i (entry k i p) s)
           | Some e \<Rightarrow> (if k = Libp2p then ClosePeer p else close_stream i) (s\<lparr>dispClosed := insert i (dispClosed s)\<rparr>)), c')"
  using assms
  by (cases eo; cases k) (simp_all add: handle_control_def handleControlStream_def handleQUICControlStream_def
      handleAuthenticationStream_def entry_def Let_def)

text \<open>C16: the handlers of control streams, run as a whole, are runs of the interleaved steps: from a
  state in which stream \<open>i\<close> has just been opened, the state that the handler leaves is reached by
  the steps, up to the record of the answers to the authentication. Every invariant of
  \<open>F2P_Sessions\<close> therefore holds for the handlers as they are written.\<close>

theorem control_handlers_refine:
  assumes "opened_by s i k p" "handle_control k S B Q conn_write (answers w) i p s c = Some (s', c')"
  shows "\<exists>a \<in> {auths s, insert (i, w) (auths s)}. (sstep S B Q)\<^sup>*\<^sup>* s (s'\<lparr>handlers := (handlers s)(i \<mapsto> H_Done), auths := a\<rparr>)"
proof (cases "authenticatedClients s p")
  case (Some old)
  then have s': "s' = go_monitor i (register i (entry k i p) (replace_old p s))"
    using assms(2) by (cases k) (auto simp: handle_control_def handleControlStream_def handleQUICControlStream_def entry_def Let_def)
  then have "auths s' = auths s" by (simp add: go_monitor_def register_def Let_def)
  then have "s'\<lparr>handlers := h, auths := auths s\<rparr> = s'\<lparr>handlers := h\<rparr>" for h by (rule same_auths)
  with handler_replaces [OF assms(1) Some, of S B Q] show ?thesis
    by (intro bexI [of _ "auths s"]) (simp_all add: s' del: go_monitor_more)
next
  case None
  then obtain eo where a: "handleAuthOnControl S B Q conn_write c (answers w) = Some (eo, c')"
    using assms(2) by (auto simp: handle_control_def handleControlStream_def handleQUICControlStream_def
      handleAuthenticationStream_def bind_eq_Some_conv Let_def split: if_splits option.splits prod.splits)
  note s' = handle_control_new [OF None a, of k i, unfolded assms(2)]
  show ?thesis
  proof (cases eo)
    case granted: None
    from handler_grants [OF assms(1) None a [unfolded granted]] show ?thesis using s' granted by simp
  next
    case refused: (Some e)
    from handler_refuses [OF assms(1) None a [unfolded refused]] show ?thesis
      using s' refused by (cases k) (simp_all add: ClosePeer_def close_stream_def)
  qed
qed

lemma monitor_deferred_steps:
  "monitor_close i cs (monitor_untag i cs (monitor_delete i cs (s\<lparr>monitors := (monitors s)(i \<mapsto> M_Delete)\<rparr>))) =
     (monitor_deferred i cs s)\<lparr>monitors := (monitors s)(i \<mapsto> M_Done)\<rparr>"
  by (auto simp: monitor_close_def monitor_untag_def monitor_delete_def monitor_deferred_def Let_def close_control_def
      close_stream_def ClosePeer_def split: option.splits bind_splits cong: if_cong)

lemma monitor_deferred_refines:
  assumes "sreach S B Q s" "monitors s i = Some M_Run" "sessions s i = Some cs"
  shows "sreach S B Q ((monitor_deferred i cs s)\<lparr>monitors := (monitors s)(i \<mapsto> M_Done)\<rparr>)"
  using old_cleanup [OF assms] by (simp add: monitor_deferred_steps)

section \<open>What a session leaves behind\<close>

lemma register_fields [simp]:
  "authenticatedClients (register i cs s) = (authenticatedClients s)(peerID cs \<mapsto> i)"
  "sessions (register i cs s) = (sessions s)(i \<mapsto> cs)" "tags (register i cs s) = insert (peerID cs) (tags s)"
  "streams (register i cs s) = streams s" "dispClosed (register i cs s) = dispClosed s"
  by (simp_all add: register_def Let_def)

lemma go_monitor_fields [simp]:
  "authenticatedClients (go_monitor i s) = authenticatedClients s" "sessions (go_monitor i s) = sessions s"
  "tags (go_monitor i s) = tags s" "streams (go_monitor i s) = streams s" "dispClosed (go_monitor i s) = dispClosed s"
  "monitors (go_monitor i s) = (monitors s)(i \<mapsto> M_Run)"
  by (simp_all add: go_monitor_def)

text \<open>C28: a session that nothing disturbs leaves the table as it found it. If the peer had no session
  when its control stream was opened and it authenticates, the handler enters it, and the clean-up of
  its monitor takes it out again, removes the tag, closes the dispatcher and every libp2p stream of
  the peer, and changes no stream of another peer. A control stream of a direct QUIC connection,
  however, is left as it was: nothing closes it when its session ends.\<close>

theorem session_life:
  assumes "authenticatedClients s p = None" "info s i = Some (k, p)"
    and "handleAuthOnControl S B Q wr c wait = Some (None, c')" "handle_control k S B Q wr wait i p s c = Some (s', c')"
  defines "s'' \<equiv> monitor_deferred i (entry k i p) s'"
  shows "authenticatedClients s' = (authenticatedClients s)(p \<mapsto> i) \<and> sessions s' i = Some (entry k i p) \<and>
    authenticatedClients s'' = authenticatedClients s \<and> tags s'' = tags s - {p} \<and> dispClosed s'' = insert i (dispClosed s) \<and>
    (\<forall>j st. streams s j = Some st \<longrightarrow>
       streams s'' j = Some (if st_kind st = Libp2p \<and> st_peer st = p then st\<lparr>st_open := False\<rparr> else st))"
proof -
  have s': "s' = go_monitor i (register i (entry k i p) s)"
    using handle_control_new [OF assms(1,3), of k i] assms(4) by simp
  have "(authenticatedClients s)(p := None) = authenticatedClients s" using assms(1) by (simp add: fun_upd_idem)
  then show ?thesis
    using assms(2)
    by (auto simp: s''_def s' monitor_deferred_def entry_def Let_def ClosePeer_def close_stream_def info_def)
qed

section \<open>Witnesses\<close>

definition one_stream :: "kind \<Rightarrow> sessions_state" where
  "one_stream k = sessions_init\<lparr>streams := [1 \<mapsto> \<lparr>st_kind = k, st_peer = ''p'', st_open = True\<rparr>], handlers := [1 \<mapsto> H_Check]\<rparr>"

lemma one_stream: "authenticatedClients (one_stream k) p = None" "info (one_stream k) 1 = Some (k, ''p'')"
    "opened_by (one_stream k) 1 k ''p''"
  by (simp_all add: one_stream_def sessions_init_def info_def opened_by_def)

theorem control_handlers_refine_witness:
  "\<exists>s' a. authenticatedClients s' ''p'' = Some 1 \<and>
     (sstep open_server example_bcrypt request_proto)\<^sup>*\<^sup>* (one_stream QUIC) (s'\<lparr>handlers := [1 \<mapsto> H_Done], auths := a\<rparr>)"
proof -
  obtain c' where a: "handleAuthOnControl open_server example_bcrypt request_proto conn_write fresh_conn
     (answers (Inr (zero_message\<lparr>m_Type := AUTH_REQUEST\<rparr>))) = Some (None, c')" using open_auth by blast
  note h = handle_control_new [OF one_stream(1) a, of QUIC 1, unfolded option.case]
  obtain A where "(sstep open_server example_bcrypt request_proto)\<^sup>*\<^sup>* (one_stream QUIC)
      ((go_monitor 1 (register 1 (entry QUIC 1 ''p'') (one_stream QUIC)))\<lparr>handlers := (handlers (one_stream QUIC))(1 \<mapsto> H_Done), auths := A\<rparr>)"
    using control_handlers_refine [OF one_stream(3) h] by blast
  moreover have "(handlers (one_stream QUIC))(1 \<mapsto> H_Done) = [1 \<mapsto> H_Done]" by (simp add: one_stream_def)
  ultimately show ?thesis
    by (intro exI [of _ "go_monitor 1 (register 1 (entry QUIC 1 ''p'') (one_stream QUIC))"] exI [of _ A])
      (simp add: entry_def del: go_monitor_more)
qed

text \<open>The control stream of a direct QUIC connection is still open when its session has ended.\<close>

theorem session_life_witness:
  "\<exists>s' c'. handle_control QUIC open_server example_bcrypt request_proto conn_write
       (answers (Inr (zero_message\<lparr>m_Type := AUTH_REQUEST\<rparr>))) 1 ''p'' (one_stream QUIC) fresh_conn = Some (s', c') \<and>
     authenticatedClients (monitor_deferred 1 (entry QUIC 1 ''p'') s') ''p'' = None \<and>
     streams (monitor_deferred 1 (entry QUIC 1 ''p'') s') 1 = Some \<lparr>st_kind = QUIC, st_peer = ''p'', st_open = True\<rparr>"
proof -
  obtain c' where a: "handleAuthOnControl open_server example_bcrypt request_proto conn_write fresh_conn
     (answers (Inr (zero_message\<lparr>m_Type := AUTH_REQUEST\<rparr>))) = Some (None, c')" using open_auth by blast
  note h = handle_control_new [OF one_stream(1) a, of QUIC 1, unfolded option.case]
  have st: "streams (one_stream QUIC) 1 = Some \<lparr>st_kind = QUIC, st_peer = ''p'', st_open = True\<rparr>" by (simp add: one_stream_def)
  from session_life [OF one_stream(1,2) a h] st h one_stream(1) [of QUIC "''p''"] show ?thesis by auto
qed

end
