(* ===== verification/F2P_Control.thy ===== *)
theory F2P_Control
  imports F2P_Dispatcher F2P_Agreement F2P_Handlers
begin

text \<open>
  The control stream of a connection from end to end: on both sides a dispatcher reads the stream, the
  server authenticates the client and then runs its monitor, the client authenticates and verifies its
  services. The theorems compose the handshakes, the dispatchers and the framing on the bytes of the
  stream.
\<close>

section \<open>Waiting on a dispatcher that reads a stream\<close>

text \<open>
  \<open>WaitFor_run\<close> is a call of \<^verbatim>\<open>WaitFor\<close> together with the goroutine of \<^verbatim>\<open>Start\<close> under the schedule in which
  the reader runs while the caller sleeps: the caller scans the queues, and whenever it has to wait, the
  reader receives the next message, or the error that ends it, and wakes the caller. The clock
  stands at \<open>u\<close> meanwhile and the context of the call does not end; the concurrent model of
  \<open>F2P_Dispatcher\<close> has both.
\<close>

partial_function (option) WaitFor_run ::
    "proto_lib \<Rightarrow> 's reader \<Rightarrow> time \<Rightarrow> MessageType list \<Rightarrow> Dispatcher \<times> 's \<Rightarrow>
     ((error + UnifiedMessage) \<times> Dispatcher \<times> 's) option" where
  "WaitFor_run Q rd u ts ds =
     (case wait_pass u ts (fst ds) of
        (Delivered m, d) \<Rightarrow> Some (Inr m, d, snd ds)
      | (Failed e, d) \<Rightarrow> Some (Inl e, d, snd ds)
      | (MustWait, d) \<Rightarrow> do {
          r \<leftarrow> receiveMessage Q rd (snd ds);
          case r of
            (Inl e, s) \<Rightarrow> WaitFor_run Q rd u ts (record_error e d, s)
          | (Inr m, s) \<Rightarrow> WaitFor_run Q rd u ts (enqueue u m d, s) })"

text \<open>Writing on the stream below a dispatcher.\<close>

definition on_stream :: "'s writer \<Rightarrow> ('d \<times> 's) writer" where
  "on_stream wr ds p = map_option (\<lambda>(r, s). (r, fst ds, s)) (wr (snd ds) p)"

text \<open>No error, not closed, and messages only of the types \<open>H\<close> in the queues.\<close>

definition only :: "MessageType set \<Rightarrow> Dispatcher \<Rightarrow> bool" where
  "only H d \<longleftrightarrow> err d = None \<and> \<not> closed d \<and> (\<forall>t. t \<notin> H \<longrightarrow> queues d t = [])"

lemma only_new: "only H NewDispatcher" "only H (NewDispatcher\<lparr>started := True\<rparr>)"
  by (simp_all add: only_def NewDispatcher_def)

lemma scan_empty: "\<forall>t \<in> set ts. queues d t = [] \<Longrightarrow> scan u ts d = (None, d)"
  by (induction ts) (simp_all add: fun_upd_idem)

lemma wait_pass_only: "only H d \<Longrightarrow> set ts \<inter> H = {} \<Longrightarrow> wait_pass u ts d = (MustWait, d)"
  using scan_empty [of ts d u] by (simp add: only_def wait_pass_def disjoint_iff)

lemma not_expired_now: "\<not> expired u \<lparr>e_msg = m, enqueueAt = u\<rparr>"
  by (simp add: expired_def time_sub_def effective_ttl_def Let_def)

lemma enqueue_only: "only H d \<Longrightarrow> m_Type m \<in> H \<Longrightarrow> only H (enqueue u m d)"
  by (auto simp: only_def enqueue_def Let_def split: prod.splits)

lemma enqueue_wait:
  assumes "only H d" "m_Type m \<notin> H" "m_Type m \<in> set ts" "set ts \<inter> H = {}"
  shows "\<exists>d'. wait_pass u ts (enqueue u m d) = (Delivered m, d') \<and> only H d'"
proof -
  define d1 where "d1 = enqueue u m d"
  have q: "queues d1 (m_Type m) = [\<lparr>e_msg = m, enqueueAt = u\<rparr>]"
      "\<And>t. t \<noteq> m_Type m \<Longrightarrow> queues d1 t = queues d t" "err d1 = None" "\<not> closed d1"
    using assms(1,2) by (auto simp: d1_def enqueue_def only_def perTypeLimit_def)
  have "\<exists>d'. scan u ts d1 = (Some \<lparr>e_msg = m, enqueueAt = u\<rparr>, d') \<and> only H d'"
    if "m_Type m \<in> set ts" "set ts \<inter> H = {}" for ts
    using that
  proof (induction ts)
    case (Cons t ts)
    show ?case
    proof (cases "t = m_Type m")
      case True
      then show ?thesis using q not_expired_now [of u m] assms(1,2) by (simp add: only_def)
    next
      case False
      then have "queues d1 t = []" using q(2) assms(1) Cons.prems by (auto simp: only_def)
      then show ?thesis using Cons False by (simp add: fun_upd_idem)
    qed
  qed simp
  from this [OF assms(3,4)] show ?thesis by (auto simp: wait_pass_def d1_def)
qed

text \<open>This is one of the schedules of the dispatcher: a call that returns is a run of its interleavings,
  from a caller that has just been called and a reader that is receiving (or has recorded its error) to
  the caller's return with the same result. The channel \<^verbatim>\<open>notify\<close> is the only part of the state that the
  two descriptions need not share.\<close>

lemma notify_irrelevant:
  "wait_pass u ts (d\<lparr>notify := n\<rparr>) = map_prod id (\<lambda>d'. d'\<lparr>notify := n\<rparr>) (wait_pass u ts d)"
  "enqueue u m (d\<lparr>notify := n\<rparr>) = (enqueue u m d)\<lparr>notify := n\<rparr>"
  "record_error e (d\<lparr>notify := n\<rparr>) = (record_error e d)\<lparr>notify := n\<rparr>"
proof -
  have scan: "scan u ts (d\<lparr>notify := n\<rparr>) = map_prod id (\<lambda>d'. d'\<lparr>notify := n\<rparr>) (scan u ts d)" for d
  proof (induction ts arbitrary: d)
    case (Cons t ts)
    obtain r q k where "take_live u (queues d t) = (r, q, k)" by (metis prod.exhaust)
    then show ?case
      using Cons.IH [of "d\<lparr>queues := (queues d)(t := q), droppedExpired := (droppedExpired d)(t := droppedExpired d t + of_nat k)\<rparr>"]
      by (cases d; cases r) (simp_all add: Let_def)
  qed simp
  show "wait_pass u ts (d\<lparr>notify := n\<rparr>) = map_prod id (\<lambda>d'. d'\<lparr>notify := n\<rparr>) (wait_pass u ts d)"
    by (auto simp: wait_pass_def scan split: prod.split option.split)
  show "enqueue u m (d\<lparr>notify := n\<rparr>) = (enqueue u m d)\<lparr>notify := n\<rparr>"
    by (simp add: enqueue_def Let_def split: prod.split)
  show "record_error e (d\<lparr>notify := n\<rparr>) = (record_error e d)\<lparr>notify := n\<rparr>"
    by (simp add: record_error_def)
qed

definition served :: "nat \<Rightarrow> time \<Rightarrow> MessageType list \<Rightarrow> Dispatcher \<Rightarrow> dsys \<Rightarrow> bool" where
  "served i u ts d x \<longleftrightarrow> waiters x i = Some (W_Scan ts) \<and> clock x = u \<and> (\<exists>n. disp x = d\<lparr>notify := n\<rparr>) \<and>
     (reader x = R_Receive \<or> err d \<noteq> None)"

lemma served_message:
  assumes "served i u ts d x" "wait_pass u ts d = (MustWait, d1)"
  shows "\<exists>x'. (dstep W)\<^sup>*\<^sup>* x x' \<and> served i u ts (enqueue u m d1) x'"
proof -
  obtain n where x: "waiters x i = Some (W_Scan ts)" "clock x = u" "disp x = d\<lparr>notify := n\<rparr>"
      "reader x = R_Receive \<or> err d \<noteq> None" using assms(1) by (auto simp: served_def)
  have d1: "err d = None" "\<not> closed d1"
    using wait_pass_MustWait [OF assms(2)] by (auto simp: shrunk_def)
  define d2 where "d2 = enqueue u m d1"
  have cl: "closed d2 = closed d1" by (simp add: d2_def enqueue_def Let_def split: prod.split)
  define x1 where "x1 = x\<lparr>disp := d1\<lparr>notify := n\<rparr>, waiters := (waiters x)(i \<mapsto> W_Select ts)\<rparr>"
  define x2 where "x2 = x1\<lparr>reader := R_Enqueue u m\<rparr>"
  define x3 where "x3 = x2\<lparr>disp := d2\<lparr>notify := n\<rparr>, reader := R_Broadcast False,
      received := (received x2)(m_Type m := received x2 (m_Type m) @ [m])\<rparr>"
  define x4 where "x4 = x3\<lparr>disp := d2\<lparr>notify := True\<rparr>, reader := R_Top\<rparr>"
  define x5 where "x5 = x4\<lparr>reader := R_Receive\<rparr>"
  define x6 where "x6 = x5\<lparr>disp := d2\<lparr>notify := False\<rparr>, waiters := (waiters x5)(i \<mapsto> W_Scan ts)\<rparr>"
  have s1: "dstep W x x1"
    unfolding x1_def by (rule dstep.w_block [OF x(1)]) (simp add: x(2,3) notify_irrelevant assms(2))
  have s2: "dstep W x1 x2"
    using dstep.rd_message [of x1 W m] x(2,4) d1(1) by (simp add: x1_def x2_def)
  have s3: "dstep W x2 x3"
    using dstep.rd_enqueue [of x2 u m W] by (simp add: x3_def x2_def x1_def d2_def notify_irrelevant)
  have s4: "dstep W x3 x4"
    using dstep.rd_broadcast [of x3 False W] by (simp add: x4_def x3_def broadcast_def)
  have s5: "dstep W x4 x5"
    unfolding x5_def by (rule dstep.rd_continue) (simp_all add: x4_def IsClosed_def cl d1(2))
  have s6: "dstep W x5 x6"
    using dstep.w_wake [of x5 i ts W] by (simp add: x6_def x5_def x4_def x3_def x2_def x1_def)
  have "(dstep W)\<^sup>*\<^sup>* x x6"
    by (rule converse_rtranclp_into_rtranclp [OF s1 converse_rtranclp_into_rtranclp [OF s2 converse_rtranclp_into_rtranclp [OF s3 converse_rtranclp_into_rtranclp [OF s4 converse_rtranclp_into_rtranclp [OF s5 r_into_rtranclp [of "dstep W", OF s6]]]]]])
  moreover have "served i u ts d2 x6"
    using x(2) by (auto simp: served_def x6_def x5_def x4_def x3_def x2_def x1_def)
  ultimately show ?thesis by (auto simp: d2_def)
qed

lemma served_error:
  assumes "served i u ts d x" "wait_pass u ts d = (MustWait, d1)"
  shows "\<exists>x'. (dstep W)\<^sup>*\<^sup>* x x' \<and> served i u ts (record_error e d1) x'"
proof -
  obtain n where x: "waiters x i = Some (W_Scan ts)" "clock x = u" "disp x = d\<lparr>notify := n\<rparr>"
      "reader x = R_Receive \<or> err d \<noteq> None" using assms(1) by (auto simp: served_def)
  have d1: "err d = None" "\<not> closed d1"
    using wait_pass_MustWait [OF assms(2)] by (auto simp: shrunk_def)
  define d2 where "d2 = record_error e d1"
  have er: "err d2 \<noteq> None" by (simp add: d2_def record_error_def d1(2))
  define x1 where "x1 = x\<lparr>disp := d1\<lparr>notify := n\<rparr>, waiters := (waiters x)(i \<mapsto> W_Select ts)\<rparr>"
  define x2 where "x2 = x1\<lparr>disp := d2\<lparr>notify := n\<rparr>, reader := R_Broadcast True\<rparr>"
  define x3 where "x3 = x2\<lparr>disp := d2\<lparr>notify := True\<rparr>, reader := R_Returned\<rparr>"
  define x4 where "x4 = x3\<lparr>disp := d2\<lparr>notify := False\<rparr>, waiters := (waiters x3)(i \<mapsto> W_Scan ts)\<rparr>"
  have s1: "dstep W x x1"
    unfolding x1_def by (rule dstep.w_block [OF x(1)]) (simp add: x(2,3) notify_irrelevant assms(2))
  have s2: "dstep W x1 x2"
    using dstep.rd_error [of x1 W e] x(4) d1(1) by (simp add: x1_def x2_def d2_def notify_irrelevant)
  have s3: "dstep W x2 x3"
    using dstep.rd_broadcast [of x2 True W] by (simp add: x3_def x2_def broadcast_def)
  have s4: "dstep W x3 x4"
    using dstep.w_wake [of x3 i ts W] by (simp add: x4_def x3_def x2_def x1_def)
  have "(dstep W)\<^sup>*\<^sup>* x x4"
    by (rule converse_rtranclp_into_rtranclp [OF s1 converse_rtranclp_into_rtranclp [OF s2 converse_rtranclp_into_rtranclp [OF s3 r_into_rtranclp [of "dstep W", OF s4]]]])
  moreover have "served i u ts d2 x4"
    using x(2) er by (auto simp: served_def x4_def x3_def x2_def x1_def)
  ultimately show ?thesis by (auto simp: d2_def)
qed

text \<open>C17: a call of \<^verbatim>\<open>WaitFor\<close> with the reader of its stream, as the other theorems of this theory use it,
  is one of the interleavings of the dispatcher: when it returns, the steps of the concurrent model
  lead from a caller that begins to scan, and a reader that receives, to the caller's return with the
  same result and the same queues.\<close>

theorem WaitFor_run_scheduled:
  assumes "WaitFor_run Q rd u ts (d, s) = Some (r, d', s')" and "served i u ts d x"
  shows "\<exists>x' n. (dstep W)\<^sup>*\<^sup>* x x' \<and> waiters x' i = Some (W_Returned r) \<and> disp x' = d'\<lparr>notify := n\<rparr>"
proof -
  have "WaitFor_run Q rd u ts ds = Some y \<Longrightarrow> \<forall>x. served i u ts (fst ds) x \<longrightarrow>
     (\<exists>x' n. (dstep W)\<^sup>*\<^sup>* x x' \<and> waiters x' i = Some (W_Returned (fst y)) \<and> disp x' = (fst (snd y))\<lparr>notify := n\<rparr>)" for ds y
  proof (erule WaitFor_run.raw_induct [where P = "\<lambda>Q rd u ts ds y. \<forall>x. served i u ts (fst ds) x \<longrightarrow>
     (\<exists>x' n. (dstep W)\<^sup>*\<^sup>* x x' \<and> waiters x' i = Some (W_Returned (fst y)) \<and> disp x' = (fst (snd y))\<lparr>notify := n\<rparr>)",
      rotated], goal_cases)
    case (1 f Q rd u ts ds y)
    show ?case
    proof (intro allI impI)
      fix x
      assume sx: "served i u ts (fst ds) x"
      then obtain n where x: "waiters x i = Some (W_Scan ts)" "clock x = u" "disp x = (fst ds)\<lparr>notify := n\<rparr>"
        by (auto simp: served_def)
      obtain res d1 where w: "wait_pass u ts (fst ds) = (res, d1)" by fastforce
      show "\<exists>x' n. (dstep W)\<^sup>*\<^sup>* x x' \<and> waiters x' i = Some (W_Returned (fst y)) \<and> disp x' = (fst (snd y))\<lparr>notify := n\<rparr>"
      proof (cases res)
        case (Delivered m)
        define x1 where "x1 = x\<lparr>disp := d1\<lparr>notify := n\<rparr>, waiters := (waiters x)(i \<mapsto> W_Returned (Inr m)),
            delivered := (delivered x)(m_Type m := delivered x (m_Type m) @ [m])\<rparr>"
        have "dstep W x x1"
          unfolding x1_def by (rule dstep.w_deliver [OF x(1)]) (simp add: x(2,3) notify_irrelevant w Delivered)
        then have "(dstep W)\<^sup>*\<^sup>* x x1" by (rule r_into_rtranclp)
        then show ?thesis using 1(2) w Delivered by (intro exI [of _ x1] exI [of _ n]) (auto simp: x1_def)
      next
        case (Failed e)
        define x1 where "x1 = x\<lparr>disp := d1\<lparr>notify := n\<rparr>, waiters := (waiters x)(i \<mapsto> W_Returned (Inl e))\<rparr>"
        have "dstep W x x1"
          unfolding x1_def by (rule dstep.w_fail [OF x(1)]) (simp add: x(2,3) notify_irrelevant w Failed)
        then have "(dstep W)\<^sup>*\<^sup>* x x1" by (rule r_into_rtranclp)
        then show ?thesis using 1(2) w Failed by (intro exI [of _ x1] exI [of _ n]) (auto simp: x1_def)
      next
        case MustWait
        obtain rr s1 where r: "receiveMessage Q rd (snd ds) = Some (rr, s1)"
          using 1(2) w MustWait by (auto simp: bind_eq_Some_conv)
        show ?thesis
        proof (cases rr)
          case (Inl e)
          obtain x1 where x1: "(dstep W)\<^sup>*\<^sup>* x x1" "served i u ts (record_error e d1) x1"
            using served_error [OF sx, of d1 W e] w MustWait by blast
          have "f Q rd u ts (record_error e d1, s1) = Some y" using 1(2) w MustWait r Inl by simp
          from 1(1) [OF this] x1(2) obtain x' k where x': "(dstep W)\<^sup>*\<^sup>* x1 x'"
              "waiters x' i = Some (W_Returned (fst y))" "disp x' = (fst (snd y))\<lparr>notify := k\<rparr>" by auto
          then show ?thesis using rtranclp_trans [OF x1(1) x'(1)] by blast
        next
          case (Inr m)
          obtain x1 where x1: "(dstep W)\<^sup>*\<^sup>* x x1" "served i u ts (enqueue u m d1) x1"
            using served_message [OF sx, of d1 W m] w MustWait by blast
          have "f Q rd u ts (enqueue u m d1, s1) = Some y" using 1(2) w MustWait r Inr by simp
          from 1(1) [OF this] x1(2) obtain x' k where x': "(dstep W)\<^sup>*\<^sup>* x1 x'"
              "waiters x' i = Some (W_Returned (fst y))" "disp x' = (fst (snd y))\<lparr>notify := k\<rparr>" by auto
          then show ?thesis using rtranclp_trans [OF x1(1) x'(1)] by blast
        qed
      qed
    qed
  qed
  from this [of "(d, s)" "(r, d', s')"] assms show ?thesis by auto
qed

section \<open>The channel below a dispatcher\<close>

definition frames :: "proto_lib \<Rightarrow> UnifiedMessage list \<Rightarrow> bytes" where
  "frames Q ms = concat (map (frame_of Q) ms)"

lemma frames_simps [simp]:
  "frames Q [] = []" "frames Q (m # ms) = frame_of Q m @ frames Q ms" "frames Q (ms @ ms') = frames Q ms @ frames Q ms'"
  by (simp_all add: frames_def)

context message_channel
begin

lemma send_below:
  assumes "fits Q m" "ready s"
  obtains s' where "sendMessage Q (on_stream wr) (d, s) m = Some (None, d, s')" "sent s' = sent s @ frame_of Q m" "ready s'"
    "view s' = view s"
proof -
  have "reliable_sink (on_stream wr) (sent \<circ> snd) (ready \<circ> snd)"
  proof unfold_locales
    fix ds :: "'b \<times> 's" and p
    assume "(ready \<circ> snd) ds"
    then obtain s' where "wr (snd ds) p = Some ((length p, None), s')" "sent s' = sent (snd ds) @ p" "ready s'"
      using wr_spec [of "snd ds" p] wr_succeeds [of "snd ds" p] by fastforce
    then show "\<exists>n eo s' k. on_stream wr ds p = Some ((n, eo), s') \<and> n \<le> k \<and> k \<le> length p \<and>
        (sent \<circ> snd) s' = (sent \<circ> snd) ds @ take k p \<and> (eo = None \<longrightarrow> n = length p \<and> (ready \<circ> snd) s')"
      and "\<exists>s'. on_stream wr ds p = Some ((length p, None), s')"
      by (auto simp: on_stream_def intro!: exI [of _ "length p"] exI [of _ None])
  qed
  then obtain ds' where ds': "sendMessage Q (on_stream wr) (d, s) m = Some (None, ds')"
      "sent (snd ds') = sent s @ frame_of Q m" "ready (snd ds')"
    using reliable_sink.sendMessage_fits [of "on_stream wr" "sent \<circ> snd" "ready \<circ> snd" "(d, s)" Q m] assms by auto
  have "keeps (\<lambda>ds'. fst ds' = d \<and> view (snd ds') = view s) (on_stream wr ds p)"
    if "fst ds = d \<and> view (snd ds) = view s" for ds p
    using wr_keeps [of "snd ds" "view s" p] that by (auto simp: keeps_def on_stream_def)
  then have "keeps (\<lambda>ds'. fst ds' = d \<and> view (snd ds') = view s) (sendMessage Q (on_stream wr) (d, s) m)"
    by (rule sendMessage_keeps) simp_all
  with ds' that show thesis by (cases ds') (auto simp: keeps_def)
qed

text \<open>\<^verbatim>\<open>WaitFor\<close> passes over messages of types that nobody waits for and returns the next one.\<close>

lemma WaitFor_next:
  assumes "proto_lossless Q" "only H d" "list_all (\<lambda>h. m_Type h \<in> H \<and> fits Q h) hs"
    and "m_Type m \<notin> H" "m_Type m \<in> set ts" "set ts \<inter> H = {}" "fits Q m"
    and "view s = (frames Q hs @ frame_of Q m @ rest, e)" "ready s"
  shows "\<exists>d' s'. WaitFor_run Q rd u ts (d, s) = Some (Inr m, d', s') \<and> only H d' \<and> view s' = (rest, e) \<and>
    sent s' = sent s \<and> ready s'"
  using assms(2,3,8,9)
proof (induction hs arbitrary: d s)
  case Nil
  obtain s' where s': "receiveMessage Q rd s = Some (Inr m, s')" "view s' = (rest, e)" "sent s' = sent s" "ready s'"
    using receive_channel [OF assms(1,7), of s rest e] Nil by auto
  obtain d' where d': "wait_pass u ts (enqueue u m d) = (Delivered m, d')" "only H d'"
    using enqueue_wait [OF Nil(1) assms(4,5,6)] by blast
  have "WaitFor_run Q rd u ts (d, s) = WaitFor_run Q rd u ts (enqueue u m d, s')"
    using wait_pass_only [OF Nil(1) assms(6)] s' by (subst WaitFor_run.simps) simp
  also have "\<dots> = Some (Inr m, d', s')" using d' by (subst WaitFor_run.simps) simp
  finally show ?case using d' s' by blast
next
  case (Cons h hs)
  obtain s' where s': "receiveMessage Q rd s = Some (Inr h, s')" "view s' = (frames Q hs @ frame_of Q m @ rest, e)"
      "sent s' = sent s" "ready s'"
    using receive_channel [OF assms(1), of h s "frames Q hs @ frame_of Q m @ rest" e] Cons.prems by auto
  have "only H (enqueue u h d)" using enqueue_only Cons.prems(1,2) by simp
  from Cons.IH [OF this _ s'(2,4)] Cons.prems(2) s'(3) obtain d'' s'' where
    "WaitFor_run Q rd u ts (enqueue u h d, s') = Some (Inr m, d'', s'')" "only H d''" "view s'' = (rest, e)"
      "sent s'' = sent s" "ready s''" by auto
  moreover have "WaitFor_run Q rd u ts (d, s) = WaitFor_run Q rd u ts (enqueue u h d, s')"
    using wait_pass_only [OF Cons.prems(1) assms(6)] s' by (subst WaitFor_run.simps) simp
  ultimately show ?case by auto
qed

end

section \<open>The server's monitor with its messager\<close>

text \<open>The select loop of the monitor on its stream: which case the \<^verbatim>\<open>select\<close> takes is the list of picks.
  The result says whether the monitor returned; it is then about to clean up.\<close>

datatype pick = P_Done | P_Tick | P_Msg

fun monitor_serve ::
    "F2P_Service.Server \<Rightarrow> proto_lib \<Rightarrow> 's reader \<Rightarrow> 's writer \<Rightarrow> time \<Rightarrow> pick list \<Rightarrow> monitor_state \<Rightarrow> Dispatcher \<times> 's \<Rightarrow>
     (bool \<times> monitor_state \<times> Dispatcher \<times> 's) option" where
  "monitor_serve S Q rd wr u [] m st = Some (False, m, st)"
| "monitor_serve S Q rd wr u (P_Done # ps) m st = Some (True, m, st)"
| "monitor_serve S Q rd wr u (P_Tick # ps) m st =
     (case monitor_step m (Tick None) of
        None \<Rightarrow> Some (True, m, st)
      | Some _ \<Rightarrow> do {
          w \<leftarrow> SendHeartbeat Q (on_stream wr) st;
          case w of (eo, st1) \<Rightarrow>
            (case monitor_step m (Tick eo) of
               None \<Rightarrow> Some (True, m, st1)
             | Some (m', _) \<Rightarrow> monitor_serve S Q rd wr u ps m' st1) })"
| "monitor_serve S Q rd wr u (P_Msg # ps) m st = do {
     r \<leftarrow> WaitFor_run Q rd u [HEARTBEAT, SERVICE_REQUEST, CLIENT_SHUTDOWN] st;
     case r of
       (Inl e, st1) \<Rightarrow> Some (True, m, st1)
     | (Inr msg, st1) \<Rightarrow>
         (case monitor_step m (Received msg) of
            None \<Rightarrow> Some (True, m, st1)
          | Some (m', acts) \<Rightarrow>
              if Verified msg \<in> set acts then do {
                st2 \<leftarrow> handleServiceVerificationRequest S Q (on_stream wr) st1 msg;
                monitor_serve S Q rd wr u ps m' st2 }
              else monitor_serve S Q rd wr u ps m' st1) }"

text \<open>The whole monitor: the loop, and the deferred function once it has returned.\<close>

definition monitorControlStream ::
    "F2P_Service.Server \<Rightarrow> proto_lib \<Rightarrow> 's reader \<Rightarrow> 's writer \<Rightarrow> time \<Rightarrow> pick list \<Rightarrow> nat \<Rightarrow> ClientSession \<Rightarrow>
     sessions_state \<Rightarrow> Dispatcher \<times> 's \<Rightarrow> (sessions_state \<times> Dispatcher \<times> 's) option" where
  "monitorControlStream S Q rd wr u ps i clientSession s st = do {
     r \<leftarrow> monitor_serve S Q rd wr u ps monitor_init st;
     case r of
       (returned, _, st1) \<Rightarrow> Some ((if returned then monitor_deferred i clientSession s else s), st1) }"

definition ping_msg :: UnifiedMessage where
  "ping_msg = zero_message\<lparr>m_Type := HEARTBEAT, m_Message := ''ping'', m_TtlMs := 10000\<rparr>"

lemma ttl_heartbeat: "ttl_of (10 * second) = Inr 10000"
  by (simp add: ttl_of_def)

lemma SendHeartbeat_msg: "SendHeartbeat Q wr s = sendMessage Q wr s ping_msg"
  by (simp add: SendHeartbeat_def SendWithTTL_def ttl_heartbeat [simplified] ping_msg_def)

lemma verification_msg:
  "handleServiceVerificationRequest (NewServer cfg) Q wr s msg = map_option snd (sendMessage Q wr s (response_msg cfg msg))"
  by (auto simp: handleServiceVerificationRequest_def response_msg_def SendServiceResponse_def SendWithTTL_def ttl_default
      split: prod.splits option.splits)

text \<open>What the monitor sends: pings and the answers to the requests, in order.\<close>

fun outputs :: "Config \<Rightarrow> pick list \<Rightarrow> UnifiedMessage list \<Rightarrow> UnifiedMessage list" where
  "outputs cfg (P_Tick # ps) rs = ping_msg # outputs cfg ps rs"
| "outputs cfg (P_Msg # ps) (r # rs) = response_msg cfg r # outputs cfg ps rs"
| "outputs cfg _ _ = []"

definition pings_left :: "monitor_state \<Rightarrow> pick list \<Rightarrow> int" where
  "pings_left m ps = missed m + (if waitingAck m then 1 else 0) + int (count_list ps P_Tick)"

context message_channel
begin

lemma monitor_serve_run:
  assumes "proto_lossless Q" "fits Q ping_msg"
    and "list_all (\<lambda>r. m_Type r = SERVICE_REQUEST \<and> fits Q r \<and> fits Q (response_msg cfg r)) rs"
    and "P_Done \<notin> set ps" "count_list ps P_Msg = length rs" "pings_left m ps \<le> 2"
    and "only {} d" "view s = (frames Q rs @ rest, e)" "ready s"
  shows "\<exists>m' d' s'. monitor_serve (NewServer cfg) Q rd wr u ps m (d, s) = Some (False, m', d', s') \<and> only {} d' \<and>
    sent s' = sent s @ frames Q (outputs cfg ps rs) \<and> view s' = (rest, e) \<and> ready s'"
  using assms(3-)
proof (induction ps arbitrary: m rs d s)
  case Nil
  then show ?case by simp
next
  case (Cons p ps)
  show ?case
  proof (cases p)
    case P_Tick
    define m1 where "m1 = (if waitingAck m then m\<lparr>missed := missed m + 1, waitingAck := True\<rparr> else m\<lparr>waitingAck := True\<rparr>)"
    have left: "pings_left m1 ps \<le> 2" "\<not> (waitingAck m \<and> missed m + 1 \<ge> maxMissed)"
      using Cons.prems(4) P_Tick by (auto simp: pings_left_def m1_def maxMissed_def split: if_splits)
    then have step: "\<exists>a. monitor_step m (Tick None) = Some (m1, a)" by (auto simp: m1_def Let_def)
    obtain s1 where s1: "sendMessage Q (on_stream wr) (d, s) ping_msg = Some (None, d, s1)"
        "sent s1 = sent s @ frame_of Q ping_msg" "ready s1" "view s1 = view s"
      using send_below [OF assms(2) Cons.prems(7), of d] by blast
    have "count_list ps P_Msg = length rs" using Cons.prems(3) P_Tick by simp
    from Cons.IH [OF Cons.prems(1) _ this left(1) Cons.prems(5), of s1] Cons.prems(2,6) s1(3,4)
    show ?thesis using step s1(1,2) by (auto simp: P_Tick SendHeartbeat_msg simp del: monitor_step.simps)
  next
    case P_Msg
    then obtain r rs' where rs: "rs = r # rs'" using Cons.prems(3) by (cases rs) auto
    have r: "m_Type r = SERVICE_REQUEST" "fits Q r" "fits Q (response_msg cfg r)" using Cons.prems(1) rs by simp_all
    obtain d1 s1 where s1: "WaitFor_run Q rd u [HEARTBEAT, SERVICE_REQUEST, CLIENT_SHUTDOWN] (d, s) = Some (Inr r, d1, s1)"
        "only {} d1" "view s1 = (frames Q rs' @ rest, e)" "sent s1 = sent s" "ready s1"
      using WaitFor_next [OF assms(1) Cons.prems(5), of "[]" r "[HEARTBEAT, SERVICE_REQUEST, CLIENT_SHUTDOWN]" s
          "frames Q rs' @ rest" e u] r Cons.prems(6,7) rs by auto
    obtain s2 where s2: "sendMessage Q (on_stream wr) (d1, s1) (response_msg cfg r) = Some (None, d1, s2)"
        "sent s2 = sent s1 @ frame_of Q (response_msg cfg r)" "ready s2" "view s2 = view s1"
      using send_below [OF r(3) s1(5), of d1] by blast
    have step: "monitor_step m (Received r) = Some (m, [Verified r])" using r(1) by (simp add: IsShutdownMessage_def)
    have "pings_left m ps \<le> 2" "count_list ps P_Msg = length rs'" "list_all (\<lambda>r. m_Type r = SERVICE_REQUEST \<and> fits Q r \<and> fits Q (response_msg cfg r)) rs'"
      using Cons.prems(1,3,4) P_Msg rs by (auto simp: pings_left_def)
    from Cons.IH [OF this(3) _ this(2,1) s1(2), of s2] Cons.prems(2) s1(3,4) s2(2-4)
    show ?thesis using step s1(1) s2(1) by (auto simp: P_Msg rs verification_msg simp del: monitor_step.simps)
  qed (use Cons.prems(2) in simp)
qed

end

section \<open>The client's handshakes on its dispatcher\<close>

definition service_requests :: "LocalServiceConfig \<Rightarrow> UnifiedMessage list" where
  "service_requests ls =
     (if lc_Enabled ls then map (\<lambda>p. request_msg (lc_Name ls) p (lc_Password ls)) (lc_Protocol ls) else [])"

definition client_requests :: "Config \<Rightarrow> UnifiedMessage list" where
  "client_requests ccfg = concat (map service_requests (c_Services (F2P_Config.Config.Client ccfg)))"

definition server_compress :: "Config \<Rightarrow> string \<Rightarrow> bool" where
  "server_compress cfg name = (case find_service cfg name of Some service \<Rightarrow> service_compress cfg service | None \<Rightarrow> False)"

text \<open>The client with what it has learned about the compression of some services.\<close>

definition learn :: "Config \<Rightarrow> string \<Rightarrow> Client \<Rightarrow> Client" where
  "learn cfg name c = c\<lparr>serviceCompress := (serviceCompress c)(name \<mapsto> server_compress cfg name)\<rparr>"

definition learn_service :: "Config \<Rightarrow> LocalServiceConfig \<Rightarrow> Client \<Rightarrow> Client" where
  "learn_service cfg ls c = (if service_requests ls \<noteq> [] then learn cfg (lc_Name ls) c else c)"

lemma EqualFold_bool [simp]: "EqualFold (format_bool b) ''true'' = b"
  by (cases b) (simp_all add: format_bool_def EqualFold_def ToLower_def)

lemma learn_simps [simp]:
  "controlDispatcher (learn cfg n c) = controlDispatcher c" "controlMessager (learn cfg n c) = controlMessager c"
  "learn cfg n (learn cfg n c) = learn cfg n c"
  by (simp_all add: learn_def)

abbreviation heartbeat :: "proto_lib \<Rightarrow> UnifiedMessage \<Rightarrow> bool" where
  "heartbeat Q h \<equiv> m_Type h \<in> {HEARTBEAT} \<and> fits Q h"

text \<open>The messages of the server after the authentication: the responses in order, with heartbeats
  anywhere between them.\<close>

definition answering :: "proto_lib \<Rightarrow> Config \<Rightarrow> UnifiedMessage list \<Rightarrow> UnifiedMessage list \<Rightarrow> bool" where
  "answering Q cfg rs outs \<longleftrightarrow> filter (\<lambda>m. m_Type m \<noteq> HEARTBEAT) outs = map (response_msg cfg) rs \<and> list_all (fits Q) outs"

lemma answering_Cons:
  assumes "answering Q cfg (r # rs) outs"
  obtains hs outs' where "outs = hs @ response_msg cfg r # outs'" "list_all (heartbeat Q) hs" "fits Q (response_msg cfg r)"
    "answering Q cfg rs outs'"
proof -
  from assms obtain hs outs' where "outs = hs @ response_msg cfg r # outs'" "\<forall>h \<in> set hs. \<not> m_Type h \<noteq> HEARTBEAT"
      "filter (\<lambda>m. m_Type m \<noteq> HEARTBEAT) outs' = map (response_msg cfg) rs"
    using filter_eq_Cons_iff [of "\<lambda>m. m_Type m \<noteq> HEARTBEAT" outs "response_msg cfg r" "map (response_msg cfg) rs"]
    by (auto simp: answering_def)
  with that assms show thesis by (auto simp: answering_def list_all_iff)
qed

context message_channel
begin

abbreviation client_wait :: "proto_lib \<Rightarrow> time \<Rightarrow> MessageType \<Rightarrow> Dispatcher \<times> 's \<Rightarrow> ((error + UnifiedMessage) \<times> Dispatcher \<times> 's) option" where
  "client_wait Q u t \<equiv> WaitFor_run Q rd u [t]"

lemma verify_one:
  assumes "proto_lossless Q" "fits Q (request_msg n p w)" "request_allowed cfg (request_msg n p w) service"
    and "answering Q cfg (request_msg n p w # rs) outs" "only {HEARTBEAT} d" "view s = (frames Q outs @ rest, e)" "ready s"
    and "controlDispatcher c \<noteq> None" "controlMessager c \<noteq> None"
  shows "\<exists>d' s' outs'. verifyServiceOnControlStream Q (on_stream wr) (client_wait Q u SERVICE_RESPONSE) n p w c (d, s) =
      Some (None, learn cfg n c, d', s') \<and> only {HEARTBEAT} d' \<and> sent s' = sent s @ frame_of Q (request_msg n p w) \<and>
    answering Q cfg rs outs' \<and> view s' = (frames Q outs' @ rest, e) \<and> ready s'"
proof -
  let ?r = "request_msg n p w"
  obtain hs outs' where o: "outs = hs @ response_msg cfg ?r # outs'" "list_all (heartbeat Q) hs" "fits Q (response_msg cfg ?r)"
      "answering Q cfg rs outs'" using answering_Cons [OF assms(4)] by blast
  note spec = response_msg_spec [of cfg ?r]
  obtain s1 where s1: "sendMessage Q (on_stream wr) (d, s) ?r = Some (None, d, s1)" "sent s1 = sent s @ frame_of Q ?r"
      "ready s1" "view s1 = view s" using send_below [OF assms(2,7), of d] by blast
  have v: "view s1 = (frames Q hs @ frame_of Q (response_msg cfg ?r) @ frames Q outs' @ rest, e)"
    using s1(4) assms(6) o(1) by simp
  obtain d' s' where w: "client_wait Q u SERVICE_RESPONSE (d, s1) = Some (Inr (response_msg cfg ?r), d', s')" "only {HEARTBEAT} d'"
      "view s' = (frames Q outs' @ rest, e)" "sent s' = sent s1" "ready s'"
    using WaitFor_next [OF assms(1,5) o(2) _ _ _ o(3) v s1(3), of "[SERVICE_RESPONSE]" u] spec by auto
  have "find_service cfg n = Some service" using assms(3) by (simp add: request_allowed_def request_msg_def)
  then have z: "m_Data (response_msg cfg ?r) ''zstd'' = Some (format_bool (server_compress cfg n))"
    using spec assms(3) by (auto simp: server_compress_def)
  have "m_Type (response_msg cfg ?r) = SERVICE_RESPONSE" "m_Success (response_msg cfg ?r)" using spec assms(3) by auto
  then have "checkServiceAvailability Q (on_stream wr) (client_wait Q u SERVICE_RESPONSE) (d, s) n p w =
      Some (Inr (response_msg cfg ?r), d', s')"
    using s1(1) w(1) by (simp add: checkServiceAvailability_def SendServiceRequest_msg)
  then have "verifyServiceOnControlStream Q (on_stream wr) (client_wait Q u SERVICE_RESPONSE) n p w c (d, s) =
      Some (None, learn cfg n c, d', s')"
    using assms(8,9) z by (auto simp: verifyServiceOnControlStream_def learn_def)
  then show ?thesis using w(2-5) s1(2) o(4) by auto
qed

lemma verify_protocols_run:
  assumes "proto_lossless Q" "\<forall>p \<in> set ps. fits Q (request_msg (lc_Name ls) p (lc_Password ls)) \<and>
      (\<exists>service. request_allowed cfg (request_msg (lc_Name ls) p (lc_Password ls)) service)"
    and "answering Q cfg (map (\<lambda>p. request_msg (lc_Name ls) p (lc_Password ls)) ps @ rs) outs" "only {HEARTBEAT} d"
    and "view s = (frames Q outs @ rest, e)" "ready s" "controlDispatcher c \<noteq> None" "controlMessager c \<noteq> None"
  shows "\<exists>d' s' outs'. verify_protocols Q (on_stream wr) (client_wait Q u SERVICE_RESPONSE) ls ps c (d, s) =
      Some (None, (if ps = [] then c else learn cfg (lc_Name ls) c), d', s') \<and> only {HEARTBEAT} d' \<and>
    sent s' = sent s @ frames Q (map (\<lambda>p. request_msg (lc_Name ls) p (lc_Password ls)) ps) \<and>
    answering Q cfg rs outs' \<and> view s' = (frames Q outs' @ rest, e) \<and> ready s'"
  using assms(2-)
proof (induction ps arbitrary: outs d s c)
  case (Cons p ps)
  let ?r = "\<lambda>p. request_msg (lc_Name ls) p (lc_Password ls)"
  obtain service where g: "request_allowed cfg (?r p) service" using Cons.prems(1) by auto
  obtain d1 s1 outs1 where 1: "verifyServiceOnControlStream Q (on_stream wr) (client_wait Q u SERVICE_RESPONSE)
        (lc_Name ls) p (lc_Password ls) c (d, s) = Some (None, learn cfg (lc_Name ls) c, d1, s1)" "only {HEARTBEAT} d1"
      "sent s1 = sent s @ frame_of Q (?r p)" "answering Q cfg (map ?r ps @ rs) outs1" "view s1 = (frames Q outs1 @ rest, e)" "ready s1"
    using verify_one [OF assms(1) _ g, of "map ?r ps @ rs" outs d s rest e c u] Cons.prems by auto
  from Cons.IH [OF _ 1(4,2,5,6), of "learn cfg (lc_Name ls) c"] Cons.prems(1,6,7) obtain d2 s2 outs2 where
    "verify_protocols Q (on_stream wr) (client_wait Q u SERVICE_RESPONSE) ls ps (learn cfg (lc_Name ls) c) (d1, s1) =
      Some (None, learn cfg (lc_Name ls) c, d2, s2)" "only {HEARTBEAT} d2"
    "sent s2 = sent s1 @ frames Q (map ?r ps)" "answering Q cfg rs outs2" "view s2 = (frames Q outs2 @ rest, e)" "ready s2"
    by (auto split: if_splits)
  then show ?case using 1(1,3) by auto
qed auto

lemma verify_services_run:
  assumes "proto_lossless Q" "\<forall>r \<in> set (concat (map service_requests lss)). fits Q r \<and> (\<exists>service. request_allowed cfg r service)"
    and "answering Q cfg (concat (map service_requests lss)) outs" "only {HEARTBEAT} d"
    and "view s = (frames Q outs @ rest, e)" "ready s" "controlDispatcher c \<noteq> None" "controlMessager c \<noteq> None"
  shows "\<exists>d' s' hs. verify_services Q (on_stream wr) (client_wait Q u SERVICE_RESPONSE) lss c (d, s) =
      Some (None, fold (learn_service cfg) lss c, d', s') \<and> only {HEARTBEAT} d' \<and>
    sent s' = sent s @ frames Q (concat (map service_requests lss)) \<and>
    list_all (heartbeat Q) hs \<and> view s' = (frames Q hs @ rest, e) \<and> ready s'"
  using assms(2-)
proof (induction lss arbitrary: outs d s c)
  case Nil
  have "list_all (heartbeat Q) outs" using Nil(2) by (auto simp: answering_def filter_empty_conv list_all_iff)
  then show ?case using Nil by auto
next
  case (Cons ls lss)
  show ?case
  proof (cases "lc_Enabled ls")
    case False
    then show ?thesis using Cons.IH [of outs d s c] Cons.prems by (simp add: service_requests_def learn_service_def)
  next
    case True
    then have rq: "service_requests ls = map (\<lambda>p. request_msg (lc_Name ls) p (lc_Password ls)) (lc_Protocol ls)"
      by (simp add: service_requests_def)
    obtain d1 s1 outs1 where 1: "verify_protocols Q (on_stream wr) (client_wait Q u SERVICE_RESPONSE) ls (lc_Protocol ls) c (d, s) =
          Some (None, learn_service cfg ls c, d1, s1)" "only {HEARTBEAT} d1" "sent s1 = sent s @ frames Q (service_requests ls)"
        "answering Q cfg (concat (map service_requests lss)) outs1" "view s1 = (frames Q outs1 @ rest, e)" "ready s1"
      using verify_protocols_run [OF assms(1), of "lc_Protocol ls" ls cfg "concat (map service_requests lss)" outs d s rest e c u]
        Cons.prems rq by (auto simp: learn_service_def)
    have "controlDispatcher (learn_service cfg ls c) \<noteq> None" "controlMessager (learn_service cfg ls c) \<noteq> None"
      using Cons.prems(6,7) by (simp_all add: learn_service_def)
    from Cons.IH [OF _ 1(4,2,5,6) this] Cons.prems(1) obtain d2 s2 hs where
      "verify_services Q (on_stream wr) (client_wait Q u SERVICE_RESPONSE) lss (learn_service cfg ls c) (d1, s1) =
         Some (None, fold (learn_service cfg) lss (learn_service cfg ls c), d2, s2)" "only {HEARTBEAT} d2"
      "sent s2 = sent s1 @ frames Q (concat (map service_requests lss))" "list_all (heartbeat Q) hs"
      "view s2 = (frames Q hs @ rest, e)" "ready s2" by auto
    then show ?thesis using 1(1,3) True by auto
  qed
qed

end

section \<open>Authentication on the dispatchers\<close>

definition authed :: "bool \<Rightarrow> string \<Rightarrow> Client \<Rightarrow> Client" where
  "authed req typed c =
     (if req \<and> \<not> hasCachedServerPassword c then c\<lparr>cachedServerPassword := typed, hasCachedServerPassword := True\<rparr> else c)"

definition forgotten :: "Client \<Rightarrow> Client" where
  "forgotten c = c\<lparr>cachedServerPassword := [], hasCachedServerPassword := False\<rparr>"

abbreviation requires :: "Config \<Rightarrow> bool" where
  "requires cfg \<equiv> PasswordHash (F2P_Config.Config.Server cfg) \<noteq> []"

lemma send_auth_msgs:
  "SendPasswordRequired Q wr s r = sendMessage Q wr s (required_msg r)"
  "SendAuthRequest Q wr s p = sendMessage Q wr s (auth_msg p)"
  "SendAuthResponse Q wr s True [] = sendMessage Q wr s (verdict_msg True)"
  "SendAuthResponse Q wr s False ''Invalid password'' = sendMessage Q wr s (verdict_msg False)"
  by (simp_all add: SendPasswordRequired_def SendAuthRequest_def SendAuthResponse_def SendWithTTL_def ttl_default auth_msgs)

lemma auth_msg_fields:
  "m_Type (required_msg r) = PASSWORD_REQUIRED" "m_RequirePassword (required_msg r) = r" "m_Type (verdict_msg b) = AUTH_RESPONSE"
  "m_Success (verdict_msg b) = b" "m_Type (auth_msg p) = AUTH_REQUEST" "m_Password (auth_msg p) = p"
  by (simp_all add: auth_msgs)

context message_channel
begin

lemma server_auth_served:
  assumes "proto_lossless Q" "fits Q (required_msg (requires cfg))" "fits Q (auth_msg p)" "fits Q (verdict_msg (password_ok B cfg p))"
    and "only {} d" "view s = (frame_of Q (auth_msg p) @ rest, e)" "ready s"
  shows "\<exists>rs d' s'. handleAuthOnControl (NewServer cfg) B Q (on_stream wr) (d, s) (WaitFor_run Q rd u) = Some (rs, d', s') \<and>
    only {} d' \<and> sent s' = sent s @ frame_of Q (required_msg (requires cfg)) @ frame_of Q (verdict_msg (password_ok B cfg p)) \<and>
    view s' = (rest, e) \<and> ready s' \<and> (rs = None \<longleftrightarrow> password_ok B cfg p)"
proof -
  obtain s1 where s1: "sendMessage Q (on_stream wr) (d, s) (required_msg (requires cfg)) = Some (None, d, s1)"
      "sent s1 = sent s @ frame_of Q (required_msg (requires cfg))" "ready s1" "view s1 = view s"
    using send_below [OF assms(2,7), of d] by blast
  obtain d2 s2 where s2: "WaitFor_run Q rd u [AUTH_REQUEST, CLIENT_SHUTDOWN] (d, s1) = Some (Inr (auth_msg p), d2, s2)" "only {} d2"
      "view s2 = (rest, e)" "sent s2 = sent s1" "ready s2"
    using WaitFor_next [OF assms(1,5), of "[]" "auth_msg p" "[AUTH_REQUEST, CLIENT_SHUTDOWN]" s1 rest e u] assms(3,6) s1(3,4)
    by (auto simp: auth_msg_fields)
  obtain s3 where s3: "sendMessage Q (on_stream wr) (d2, s2) (verdict_msg (password_ok B cfg p)) = Some (None, d2, s3)"
      "sent s3 = sent s2 @ frame_of Q (verdict_msg (password_ok B cfg p))" "ready s3" "view s3 = view s2"
    using send_below [OF assms(4) s2(5), of d2] by blast
  show ?thesis
    using s1 s2 s3
    by (cases "password_ok B cfg p")
      (auto simp: handleAuthOnControl_def send_auth_msgs auth_msg_fields NewServer_tables password_ok_def Let_def)
qed

lemma client_auth_served:
  assumes "proto_lossless Q" "fits Q (required_msg req)" "fits Q (verdict_msg ok)" "fits Q (auth_msg (client_password req typed c))"
    and "only {HEARTBEAT} d" "view s = (frame_of Q (required_msg req) @ frame_of Q (verdict_msg ok) @ rest, e)" "ready s"
    and "controlDispatcher c \<noteq> None" "controlMessager c \<noteq> None"
  shows "\<exists>re d' s'. authenticateWithServer Q (on_stream wr) (client_wait Q u) (Inr typed) c (d, s) =
      Some (re, (if ok then authed req typed c else forgotten c), d', s') \<and> only {HEARTBEAT} d' \<and>
    sent s' = sent s @ frame_of Q (auth_msg (client_password req typed c)) \<and> view s' = (rest, e) \<and> ready s' \<and>
    re = (if ok then None else Some (Errorf ''authentication failed: %s'' [FStr (m_Message (verdict_msg ok))]))"
proof -
  obtain d1 s1 where s1: "client_wait Q u PASSWORD_REQUIRED (d, s) = Some (Inr (required_msg req), d1, s1)" "only {HEARTBEAT} d1"
      "view s1 = (frame_of Q (verdict_msg ok) @ rest, e)" "sent s1 = sent s" "ready s1"
    using WaitFor_next [OF assms(1,5), of "[]" "required_msg req" "[PASSWORD_REQUIRED]" s "frame_of Q (verdict_msg ok) @ rest" e u]
      assms(2,6,7) by (auto simp: auth_msg_fields)
  obtain s2 where s2: "sendMessage Q (on_stream wr) (d1, s1) (auth_msg (client_password req typed c)) = Some (None, d1, s2)"
      "sent s2 = sent s1 @ frame_of Q (auth_msg (client_password req typed c))" "ready s2" "view s2 = view s1"
    using send_below [OF assms(4) s1(5), of d1] by blast
  obtain d3 s3 where s3: "client_wait Q u AUTH_RESPONSE (d1, s2) = Some (Inr (verdict_msg ok), d3, s3)" "only {HEARTBEAT} d3"
      "view s3 = (rest, e)" "sent s3 = sent s2" "ready s3"
    using WaitFor_next [OF assms(1) s1(2), of "[]" "verdict_msg ok" "[AUTH_RESPONSE]" s2 rest e u] assms(3) s1(3) s2(3,4)
    by (auto simp: auth_msg_fields)
  note run = authenticateWithServer_def s1(1) s2(1) s3(1) send_auth_msgs auth_msg_fields authed_def forgotten_def
  have r: "authenticateWithServer Q (on_stream wr) (client_wait Q u) (Inr typed) c (d, s) =
      Some ((if ok then None else Some (Errorf ''authentication failed: %s'' [FStr (m_Message (verdict_msg ok))])),
        (if ok then authed req typed c else forgotten c), d3, s3)"
    using assms(8,9) s2(1) unfolding client_password_def
    by (cases req; cases "hasCachedServerPassword c"; cases ok) (simp_all add: run del: not_None_eq)
  show ?thesis using r s1(4) s2(2) s3(2-5) by simp
qed

end

section \<open>The whole session\<close>

definition control_env :: "proto_lib \<Rightarrow> time \<Rightarrow> string \<Rightarrow> (Dispatcher \<times> conn) ctl_env" where
  "control_env Q u typed =
     \<lparr>ce_proto = Q, ce_write = on_stream conn_write, ce_wait = (\<lambda>t. WaitFor_run Q conn_read u [t]), ce_asked = Inr typed\<rparr>"

definition fresh_disp :: Dispatcher where
  "fresh_disp = NewDispatcher\<lparr>started := True\<rparr>"

lemma effect_fields [simp]:
  "serviceCompress (effect x c) = serviceCompress c" "servicesStarted (effect x c) = servicesStarted c"
  "effects (effect x c) = effects c @ [x]"
  by (simp_all add: effect_def)

lemma startLocalService_fields [simp]:
  "serviceCompress (startLocalService ls c) = serviceCompress c" "servicesStarted (startLocalService ls c) = servicesStarted c"
proof -
  have "serviceCompress (fold (\<lambda>p c. if p = ''tcp'' then effect (StartListener ''tcp'' a) c
         else if p = ''udp'' then effect (StartListener ''udp'' a) c else c) ps c) = serviceCompress c \<and>
    servicesStarted (fold (\<lambda>p c. if p = ''tcp'' then effect (StartListener ''tcp'' a) c
         else if p = ''udp'' then effect (StartListener ''udp'' a) c else c) ps c) = servicesStarted c" for ps a
    by (induction ps arbitrary: c) simp_all
  then show "serviceCompress (startLocalService ls c) = serviceCompress c" "servicesStarted (startLocalService ls c) = servicesStarted c"
    by (simp_all add: startLocalService_def)
qed

lemma fold_keeps: "(\<And>x c. f (g x c) = f c) \<Longrightarrow> f (fold g xs c) = f c"
  by (induction xs arbitrary: c) simp_all

lemma startServicesOnce_fields [simp]:
  "serviceCompress (startServicesOnce c) = serviceCompress c" "servicesStarted (startServicesOnce c)"
proof -
  have "serviceCompress (startLocalServices c) = serviceCompress c" "servicesStarted (startLocalServices c) = servicesStarted c" for c
    unfolding startLocalServices_def by (rule fold_keeps; simp split: option.split)+
  then show "serviceCompress (startServicesOnce c) = serviceCompress c" "servicesStarted (startServicesOnce c)"
    by (simp_all add: startServicesOnce_def)
qed

lemma learned:
  assumes "ls \<in> set lss" "service_requests ls \<noteq> []"
  shows "serviceCompress (fold (learn_service cfg) lss c) (lc_Name ls) = Some (server_compress cfg (lc_Name ls))"
proof -
  have keep: "serviceCompress (fold (learn_service cfg) lss c) n = Some (server_compress cfg n)"
    if "serviceCompress c n = Some (server_compress cfg n)" for n c lss
    using that
  proof (induction lss arbitrary: c)
    case (Cons l lss)
    then show ?case using Cons.IH [of "learn_service cfg l c"] by (simp add: learn_service_def learn_def)
  qed simp
  show ?thesis using assms(1)
  proof (induction lss arbitrary: c)
    case (Cons l lss)
    have "serviceCompress (learn_service cfg ls c) (lc_Name ls) = Some (server_compress cfg (lc_Name ls))"
      using assms(2) by (simp add: learn_service_def learn_def)
    from keep [OF this, of lss] show ?case using Cons by (cases "ls = l") auto
  qed simp
qed

lemma learn_service_fields [simp]:
  "controlDispatcher (learn_service cfg ls c) = controlDispatcher c" "controlMessager (learn_service cfg ls c) = controlMessager c"
  "cl_config (learn_service cfg ls c) = cl_config c"
  by (simp_all add: learn_service_def learn_def)

lemma authed_fields [simp]:
  "controlDispatcher (authed req typed c) = controlDispatcher c" "controlMessager (authed req typed c) = controlMessager c"
  "cl_config (authed req typed c) = cl_config c"
  by (simp_all add: authed_def)

lemma outputs_answer:
  assumes "\<forall>r \<in> set rs. fits Q (response_msg cfg r)" "fits Q ping_msg" "P_Done \<notin> set ps" "count_list ps P_Msg = length rs"
  shows "answering Q cfg rs (outputs cfg ps rs)"
  using assms
proof (induction cfg ps rs rule: outputs.induct)
  case (1 cfg ps rs)
  then show ?case by (simp add: answering_def ping_msg_def)
next
  case (2 cfg ps r rs)
  then show ?case using response_msg_spec [of cfg r] by (simp add: answering_def)
qed (auto simp: answering_def)

text \<open>C3: a session is established, over libp2p or a direct connection. Suppose the password of the client is right and the server's
  configuration allows every service request of the client's. Let the server's monitor tick at most twice
  while the requests come in, anywhere between them. When each side reads the bytes of the other, over
  every fragmentation and followed by whatever else, both authentications succeed, the handler of
  the server enters the peer into the table and its monitor answers every request and runs on, and the
  client starts its services and its monitor, having learned for each of its services the compression
  that the server prescribes. Both have written exactly the bytes that the other reads, and only
  heartbeats are left unread.\<close>

theorem session_established:
  fixes cfg :: Config and c :: Client and typed :: string
  defines "req \<equiv> requires cfg" and "p \<equiv> client_password (requires cfg) typed c" and "reqs \<equiv> client_requests (cl_config c)"
  defines "server_msgs \<equiv> \<lambda>ps. required_msg req # verdict_msg True # outputs cfg ps reqs"
  assumes lossless: "proto_lossless Q"
    and fit: "\<forall>m \<in> {required_msg req, verdict_msg True, auth_msg p, ping_msg} \<union> set reqs \<union> response_msg cfg ` set reqs. fits Q m"
    and new: "authenticatedClients s peer = None"
    and granted: "password_ok B cfg p" "\<forall>r \<in> set reqs. \<exists>service. request_allowed cfg r service"
    and picks: "P_Done \<notin> set ps" "count_list ps P_Msg = length reqs" "count_list ps P_Tick \<le> 2"
    and ready: "controlDispatcher c \<noteq> None" "controlMessager c \<noteq> None"
    and ss: "conn_view ss = (frames Q (auth_msg p # reqs) @ rest, e)" "conn_healthy ss"
    and cs: "conn_view cs = (frames Q (server_msgs ps) @ rest', e')" "conn_healthy cs"
  shows "(\<exists>s' st1 d ss'. handle_control k (NewServer cfg) B Q (on_stream conn_write) (WaitFor_run Q conn_read u) i peer s (fresh_disp, ss) =
        Some (s', st1) \<and> authenticatedClients s' = (authenticatedClients s)(peer \<mapsto> i) \<and>
      monitorControlStream (NewServer cfg) Q conn_read conn_write u ps i (entry k i peer) s' st1 = Some (s', d, ss') \<and>
      out_bytes ss' = out_bytes ss @ frames Q (server_msgs ps) \<and> conn_view ss' = (rest, e)) \<and>
    (\<exists>c' d cs' hs. run_protocol (control_env Q u' typed) h c (fresh_disp, cs) = Some (None, c', d, cs') \<and>
      out_bytes cs' = out_bytes cs @ frames Q (auth_msg p # reqs) \<and>
      conn_view cs' = (frames Q hs @ rest', e') \<and> list_all (\<lambda>m. m_Type m = HEARTBEAT) hs \<and>
      servicesStarted c' \<and> last (effects c') = StartMonitor \<and>
      (\<forall>ls \<in> set (c_Services (F2P_Config.Config.Client (cl_config c))). service_requests ls \<noteq> [] \<longrightarrow>
         serviceCompress c' (lc_Name ls) = Some (server_compress cfg (lc_Name ls))))"
proof (intro conjI)
  have ok: "password_ok B cfg p = True" using granted(1) by simp
  have types: "\<forall>r \<in> set reqs. m_Type r = SERVICE_REQUEST"
    by (auto simp: reqs_def client_requests_def service_requests_def request_msg_def split: if_splits)
  obtain d1 ss1 where s1: "handleAuthOnControl (NewServer cfg) B Q (on_stream conn_write) (fresh_disp, ss) (WaitFor_run Q conn_read u) =
        Some (None, d1, ss1)" "only {} d1" "out_bytes ss1 = out_bytes ss @ frame_of Q (required_msg req) @ frame_of Q (verdict_msg True)"
      "conn_view ss1 = (frames Q reqs @ rest, e)" "conn_healthy ss1"
    using pc.server_auth_served [OF lossless, of cfg p B fresh_disp ss "frames Q reqs @ rest" e u] fit ok ss only_new(2)
    by (auto simp: req_def fresh_disp_def)
  have "list_all (\<lambda>r. m_Type r = SERVICE_REQUEST \<and> fits Q r \<and> fits Q (response_msg cfg r)) reqs"
    using types fit by (auto simp: list_all_iff)
  from pc.monitor_serve_run [OF lossless _ this picks(1,2) _ s1(2,4,5), of monitor_init u] fit picks(3)
  obtain m d2 ss2 where "monitor_serve (NewServer cfg) Q conn_read conn_write u ps monitor_init (d1, ss1) = Some (False, m, d2, ss2)"
      "out_bytes ss2 = out_bytes ss1 @ frames Q (outputs cfg ps reqs)" "conn_view ss2 = (rest, e)"
    by (auto simp: pings_left_def monitor_init_def)
  moreover have "handle_control k (NewServer cfg) B Q (on_stream conn_write) (WaitFor_run Q conn_read u) i peer s (fresh_disp, ss) =
      Some (go_monitor i (register i (entry k i peer) s), d1, ss1)"
    using handle_control_new [OF new s1(1), of k i] by simp
  ultimately show "\<exists>s' st1 d ss'. handle_control k (NewServer cfg) B Q (on_stream conn_write) (WaitFor_run Q conn_read u) i peer s (fresh_disp, ss) =
        Some (s', st1) \<and> authenticatedClients s' = (authenticatedClients s)(peer \<mapsto> i) \<and>
      monitorControlStream (NewServer cfg) Q conn_read conn_write u ps i (entry k i peer) s' st1 = Some (s', d, ss') \<and>
      out_bytes ss' = out_bytes ss @ frames Q (server_msgs ps) \<and> conn_view ss' = (rest, e)"
    using s1(3) by (auto simp: server_msgs_def monitorControlStream_def entry_def)
next
  let ?V = "control_env Q u' typed" and ?lss = "c_Services (F2P_Config.Config.Client (cl_config c))"
  have reqs: "reqs = concat (map service_requests ?lss)" by (simp add: reqs_def client_requests_def)
  obtain d1 cs1 where c1: "authenticateWithServer Q (on_stream conn_write) (\<lambda>t. WaitFor_run Q conn_read u' [t]) (Inr typed) c (fresh_disp, cs) =
        Some (None, authed req typed c, d1, cs1)" "only {HEARTBEAT} d1"
      "out_bytes cs1 = out_bytes cs @ frame_of Q (auth_msg p)" "conn_view cs1 = (frames Q (outputs cfg ps reqs) @ rest', e')" "conn_healthy cs1"
    using pc.client_auth_served [OF lossless, of req True typed c fresh_disp cs "frames Q (outputs cfg ps reqs) @ rest'" e' u'] fit ready
      cs only_new(2) by (auto simp: req_def p_def fresh_disp_def server_msgs_def)
  have ans: "answering Q cfg (concat (map service_requests ?lss)) (outputs cfg ps reqs)"
    using outputs_answer [of reqs Q cfg ps] fit picks by (simp add: reqs)
  have "\<forall>r \<in> set (concat (map service_requests ?lss)). fits Q r \<and> (\<exists>service. request_allowed cfg r service)"
    using fit granted(2) by (simp add: reqs)
  from pc.verify_services_run [OF lossless this ans c1(2,4,5), of "authed req typed c" u'] ready
  obtain d2 cs2 hs where c2: "verify_services Q (on_stream conn_write) (WaitFor_run Q conn_read u' [SERVICE_RESPONSE]) ?lss (authed req typed c) (d1, cs1) =
        Some (None, fold (learn_service cfg) ?lss (authed req typed c), d2, cs2)"
      "out_bytes cs2 = out_bytes cs1 @ frames Q reqs" "list_all (heartbeat Q) hs" "conn_view cs2 = (frames Q hs @ rest', e')"
    by (auto simp: reqs)
  have run: "run_protocol ?V h c (fresh_disp, cs) =
      Some (None, effect StartMonitor (startServicesOnce (fold (learn_service cfg) ?lss (authed req typed c))), d2, cs2)"
    using c1(1) c2(1) by (simp add: run_protocol_def control_env_def verifyServiceConfiguration_def)
  show "\<exists>c' d cs' hs. run_protocol ?V h c (fresh_disp, cs) = Some (None, c', d, cs') \<and>
      out_bytes cs' = out_bytes cs @ frames Q (auth_msg p # reqs) \<and>
      conn_view cs' = (frames Q hs @ rest', e') \<and> list_all (\<lambda>m. m_Type m = HEARTBEAT) hs \<and>
      servicesStarted c' \<and> last (effects c') = StartMonitor \<and>
      (\<forall>ls \<in> set ?lss. service_requests ls \<noteq> [] \<longrightarrow>
         serviceCompress c' (lc_Name ls) = Some (server_compress cfg (lc_Name ls)))"
    using run c1(3) c2(2-4) learned
    by (intro exI [of _ "effect StartMonitor (startServicesOnce (fold (learn_service cfg) ?lss (authed req typed c)))"]
        exI [of _ d2] exI [of _ cs2] exI [of _ hs]) (auto simp: list_all_iff)
qed

text \<open>C6: a wrong password. Suppose that the server has a password and the one of the client does not
  verify. When each side reads the bytes of the other, the server's handshake fails and its
  handler closes the libp2p connections of the peer, or the QUIC stream, without entering it into the table, and the client's attempt fails with an authentication error before it sends
  a single service request: it closes its control stream and forgets the password it had, so that
  the next attempt asks again. It neither starts services nor a monitor.\<close>

theorem session_wrong_password:
  fixes cfg :: Config and c :: Client and typed :: string
  defines "req \<equiv> requires cfg" and "p \<equiv> client_password (requires cfg) typed c"
  assumes lossless: "proto_lossless Q"
    and fit: "\<forall>m \<in> {required_msg req, verdict_msg False, auth_msg p}. fits Q m"
    and new: "authenticatedClients s peer = None"
    and wrong: "\<not> password_ok B cfg p"
    and ready: "controlDispatcher c \<noteq> None" "controlMessager c \<noteq> None"
    and ss: "conn_view ss = (frame_of Q (auth_msg p) @ rest, e)" "conn_healthy ss"
    and cs: "conn_view cs = (frames Q [required_msg req, verdict_msg False] @ rest', e')" "conn_healthy cs"
  shows "(\<exists>d ss'. handle_control k (NewServer cfg) B Q (on_stream conn_write) (WaitFor_run Q conn_read u) i peer s (fresh_disp, ss) =
        Some ((if k = Libp2p then ClosePeer peer else close_stream i) (s\<lparr>dispClosed := insert i (dispClosed s)\<rparr>), d, ss') \<and> out_bytes ss' = out_bytes ss @ frames Q [required_msg req, verdict_msg False] \<and>
      conn_view ss' = (rest, e)) \<and>
    (\<exists>re d cs'. run_protocol (control_env Q u' typed) h c (fresh_disp, cs) =
        Some (Some (Errorf ''authentication failed: %v'' [FErr re]), effect (CloseStream h) (forgotten c), d, cs') \<and>
      out_bytes cs' = out_bytes cs @ frame_of Q (auth_msg p) \<and> conn_view cs' = (rest', e'))"
proof (intro conjI)
  have nok: "password_ok B cfg p = False" using wrong by simp
  obtain rs d ss' where "handleAuthOnControl (NewServer cfg) B Q (on_stream conn_write) (fresh_disp, ss) (WaitFor_run Q conn_read u) =
        Some (rs, d, ss')" "out_bytes ss' = out_bytes ss @ frame_of Q (required_msg req) @ frame_of Q (verdict_msg False)"
      "conn_view ss' = (rest, e)" "rs \<noteq> None"
    using pc.server_auth_served [OF lossless, of cfg p B fresh_disp ss rest e u] fit nok ss only_new(2)
    by (auto simp: req_def fresh_disp_def)
  then show "\<exists>d ss'. handle_control k (NewServer cfg) B Q (on_stream conn_write) (WaitFor_run Q conn_read u) i peer s (fresh_disp, ss) =
        Some ((if k = Libp2p then ClosePeer peer else close_stream i) (s\<lparr>dispClosed := insert i (dispClosed s)\<rparr>), d, ss') \<and> out_bytes ss' = out_bytes ss @ frames Q [required_msg req, verdict_msg False] \<and>
      conn_view ss' = (rest, e)"
    using handle_control_new [OF new, of "NewServer cfg" B Q "on_stream conn_write" "(fresh_disp, ss)" "WaitFor_run Q conn_read u" rs
        "(d, ss')" k i] by auto
next
  obtain d1 cs1 where "authenticateWithServer Q (on_stream conn_write) (\<lambda>t. WaitFor_run Q conn_read u' [t]) (Inr typed) c (fresh_disp, cs) =
        Some (Some (Errorf ''authentication failed: %s'' [FStr (m_Message (verdict_msg False))]), forgotten c, d1, cs1)"
      "out_bytes cs1 = out_bytes cs @ frame_of Q (auth_msg p)" "conn_view cs1 = (rest', e')"
    using pc.client_auth_served [OF lossless, of req False typed c fresh_disp cs rest' e' u'] fit ready cs only_new(2)
    by (auto simp: req_def p_def fresh_disp_def)
  then show "\<exists>re d cs'. run_protocol (control_env Q u' typed) h c (fresh_disp, cs) =
        Some (Some (Errorf ''authentication failed: %v'' [FErr re]), effect (CloseStream h) (forgotten c), d, cs') \<and>
      out_bytes cs' = out_bytes cs @ frame_of Q (auth_msg p) \<and> conn_view cs' = (rest', e')"
    by (simp add: run_protocol_def control_env_def)
qed

section \<open>Witnesses\<close>

definition example_client_config :: Config where
  "example_client_config = example_server_config\<lparr>IsServer := False,
     F2P_Config.Config.Client := zero_client\<lparr>c_Services :=
       [\<lparr>lc_Name = ''ssh'', lc_Local = ''127.0.0.1:2222'', lc_Password = ''pw'', lc_Protocol = [''tcp''], lc_Enabled = True\<rparr>]\<rparr>\<rparr>"

definition example_client :: Client where
  "example_client = (NewClient example_client_config)\<lparr>Client.controlStream := Some 1, controlMessager := Some 1, controlDispatcher := Some 1\<rparr>"

definition control_proto :: proto_lib where
  "control_proto = list_proto (ping_msg # verdict_msg False # auth_msg ''guess'' # example_agreed)"

lemma control_proto: "proto_lossless control_proto"
    "m \<in> {ping_msg, verdict_msg False, auth_msg ''guess''} \<union> set example_agreed \<Longrightarrow> fits control_proto m"
  unfolding control_proto_def by (rule list_proto_lossless, simp add: example_agreed_def) (rule list_proto_fits, auto)

lemma example_passwords: "password_ok example_bcrypt example_server_config ''secret''"
    "\<not> password_ok example_bcrypt example_server_config ''guess''" "requires example_server_config"
    "client_password True p example_client = p"
  by (simp_all add: password_ok_def example_server_config_def VerifyPassword_def example_bcrypt_def client_password_def
      example_client_def NewClient_def)

lemma example_requests: "client_requests (cl_config example_client) = [request_msg ''ssh'' ''tcp'' ''pw'']"
    "controlDispatcher example_client \<noteq> None" "controlMessager example_client \<noteq> None"
  by (simp_all add: client_requests_def service_requests_def example_client_def NewClient_def example_client_config_def
      example_server_config_def)

theorem session_established_witness:
  "\<exists>c' d cs' hs. run_protocol (control_env control_proto 0 ''secret'') 1 example_client
      (fresh_disp, example_conn (frames control_proto [required_msg True, verdict_msg True, ping_msg,
         response_msg example_server_config (request_msg ''ssh'' ''tcp'' ''pw'')])) = Some (None, c', d, cs') \<and>
    servicesStarted c' \<and> serviceCompress c' ''ssh'' = Some False"
proof -
  let ?Q = control_proto and ?r = "request_msg ''ssh'' ''tcp'' ''pw''" and ?ps = "[P_Tick, P_Msg]"
  have granted: "\<exists>service. request_allowed example_server_config ?r service"
    by (auto simp: request_allowed_def find_service_def example_server_config_def request_msg_def)
  have fits: "fits ?Q m" if "m \<in> {required_msg True, verdict_msg True, auth_msg ''secret'', ping_msg, ?r, response_msg example_server_config ?r}" for m
    using that example_passwords(1) by (intro control_proto(2)) (auto simp: example_agreed_def)
  have z: "server_compress example_server_config ''ssh'' = False" "c_Services (F2P_Config.Config.Client (cl_config example_client)) =
      [\<lparr>lc_Name = ''ssh'', lc_Local = ''127.0.0.1:2222'', lc_Password = ''pw'', lc_Protocol = [''tcp''], lc_Enabled = True\<rparr>]"
    by (simp_all add: server_compress_def find_service_def example_server_config_def service_compress_def
        example_client_def NewClient_def example_client_config_def)
  have out: "outputs example_server_config ?ps [?r] = [ping_msg, response_msg example_server_config ?r]" by simp
  from session_established [of ?Q example_server_config "''secret''" example_client sessions_init "''peer''" example_bcrypt ?ps
      "example_conn (frames ?Q [auth_msg ''secret'', ?r])" "[]" EOF
      "example_conn (frames ?Q [required_msg True, verdict_msg True, ping_msg, response_msg example_server_config ?r])" "[]" EOF
      Libp2p 0 7 0 1] control_proto(1) fits granted example_passwords example_requests
  show ?thesis by (auto simp: z service_requests_def sessions_init_def)
qed

theorem session_wrong_password_witness:
  "\<exists>re d cs'. run_protocol (control_env control_proto 0 ''guess'') 1 example_client
      (fresh_disp, example_conn (frames control_proto [required_msg True, verdict_msg False])) =
      Some (Some (Errorf ''authentication failed: %v'' [FErr re]), effect (CloseStream 1) (forgotten example_client), d, cs')"
proof -
  let ?Q = control_proto
  have fits: "fits ?Q m" if "m \<in> {required_msg True, verdict_msg False, auth_msg ''guess''}" for m
    using that by (intro control_proto(2)) (auto simp: example_agreed_def)
  from session_wrong_password [of ?Q example_server_config "''guess''" example_client sessions_init "''peer''" example_bcrypt
      "example_conn (frame_of ?Q (auth_msg ''guess''))" "[]" EOF
      "example_conn (frames ?Q [required_msg True, verdict_msg False])" "[]" EOF Libp2p 0 7 0 1]
    control_proto(1) fits example_passwords example_requests
  show ?thesis by (auto simp: sessions_init_def)
qed

theorem WaitFor_run_scheduled_witness:
  "\<exists>x'. (dstep {0})\<^sup>*\<^sup>* (dsys_init\<lparr>disp := fresh_disp, reader := R_Receive, waiters := [0 \<mapsto> W_Scan [HEARTBEAT]]\<rparr>) x' \<and>
     waiters x' 0 = Some (W_Returned (Inr ping_msg))"
proof -
  let ?x = "dsys_init\<lparr>disp := fresh_disp, reader := R_Receive, waiters := [0 \<mapsto> W_Scan [HEARTBEAT]]\<rparr>"
  have "fits control_proto ping_msg" by (rule control_proto(2)) simp
  then obtain d' s' where run: "WaitFor_run control_proto conn_read 0 [HEARTBEAT]
      (fresh_disp, example_conn (frame_of control_proto ping_msg @ [])) = Some (Inr ping_msg, d', s')"
    using pc.WaitFor_next [OF control_proto(1), of "{}" fresh_disp "[]" ping_msg "[HEARTBEAT]"
        "example_conn (frame_of control_proto ping_msg @ [])" "[]" EOF 0] only_new(2)
    by (auto simp: fresh_disp_def ping_msg_def)
  have "served 0 0 [HEARTBEAT] fresh_disp ?x"
    by (auto simp: served_def dsys_init_def fresh_disp_def NewDispatcher_def intro!: exI [of _ False])
  from WaitFor_run_scheduled [OF run this, of "{0}"] show ?thesis by blast
qed
end
