(* ===== verification/F2P_Lifecycle.thy ===== *)
theory F2P_Lifecycle
  imports F2P_Client F2P_Dispatcher
begin

text \<open>
  The life of a client: every operation of \<^verbatim>\<open>internal/client\<close> that changes its state, in any order, as a
  step relation, the well-formedness of the state that all of them keep, and what follows for the
  operations that rely on it.
\<close>

section \<open>The operations of a client\<close>

text \<open>A detection of the NAT type, with any answers of the network.\<close>

definition detects :: "(string list \<Rightarrow> NATInfo option \<times> error option) \<Rightarrow> bool" where
  "detects f \<longleftrightarrow> (\<exists>listen1 query listen2 extra. f = DetectNAT listen1 query listen2 extra)"

type_synonym control = "Dispatcher \<times> conn"

definition real_env :: "control conn_env \<Rightarrow> bool" where
  "real_env X \<longleftrightarrow> (\<forall>k. detects (hp_detect (cv_punch X k)))"

inductive client_step :: "Client \<Rightarrow> Client \<Rightarrow> bool" where
  connect: "real_env X \<Longrightarrow> connectToServer X c opened st = Some (r, c', opened', st') \<Longrightarrow> client_step c c'"
| connected: "client_step c (ResetBackoff c)"
| retry: "client_step c (IncreaseBackoff c)"
| detect: "detects f \<Longrightarrow> client_step c (client_detectNATType f c)"
| monitor: "client_monitorControlStream start es c = (c', d) \<Longrightarrow> client_step c c'"
| reason: "client_step c (SetShutdownReason r c)"
| context_done: "client_step c (cancel c)"
| stop: "client_step c (Client_Stop c)"

definition client_reach :: "Config \<Rightarrow> Client \<Rightarrow> bool" where
  "client_reach cfg c \<longleftrightarrow> client_step\<^sup>*\<^sup>* (NewClient cfg) c"

section \<open>Well-formedness\<close>

text \<open>The control stream in use, of either kind.\<close>

definition or_else :: "'a option \<Rightarrow> 'a option \<Rightarrow> 'a option" where
  "or_else x y = (case x of Some h \<Rightarrow> Some h | None \<Rightarrow> y)"

lemma or_else_simps [simp]: "or_else None y = y" "or_else (Some h) y = Some h" "or_else x None = x"
  by (simp_all add: or_else_def split: option.split)

abbreviation control_of :: "Client \<Rightarrow> nat option" where
  "control_of c \<equiv> or_else (controlStream c) (quicCtrlClose c)"

fun is_listener :: "effect \<Rightarrow> bool" where
  "is_listener (StartListener _ _) = True"
| "is_listener _ = False"

definition service_listeners :: "LocalServiceConfig \<Rightarrow> effect list" where
  "service_listeners ls =
     map (\<lambda>p. StartListener p (lc_Local ls)) (filter (\<lambda>p. p = ''tcp'' \<or> p = ''udp'') (lc_Protocol ls))"

definition listeners :: "Config \<Rightarrow> effect list" where
  "listeners cfg = (let ss = c_Services (F2P_Config.Config.Client cfg) in
     concat (map (\<lambda>name. case add_local ss Map.empty name of
         Some ls \<Rightarrow> if lc_Enabled ls then service_listeners ls else []
       | None \<Rightarrow> []) (remdups (map lc_Name ss))))"

definition client_wf :: "Config \<Rightarrow> Client \<Rightarrow> bool" where
  "client_wf cfg c \<longleftrightarrow>
     cl_config c = cfg \<and> localServices c = add_local (c_Services (F2P_Config.Config.Client cfg)) Map.empty \<and>
     (controlStream c = None \<or> quicCtrlClose c = None) \<and>
     controlMessager c = control_of c \<and> controlDispatcher c = control_of c \<and>
     (natDetected (cl_nat c) \<longleftrightarrow> natInfo (cl_nat c) \<noteq> None) \<and>
     second \<le> backoff c \<and> backoff c \<le> backoffMax c \<and> backoffMax c = 60 * second \<and>
     (\<not> hasCachedServerPassword c \<longrightarrow> cachedServerPassword c = []) \<and>
     dom (serviceCompress c) \<subseteq> lc_Name ` set (c_Services (F2P_Config.Config.Client cfg)) \<and>
     filter is_listener (effects c) = (if servicesStarted c then listeners cfg else [])"

text \<open>What never goes back from one state to a later one: the first reason for the shutdown, the
  cancellation, the intention to stop, and that the services were started.\<close>

definition lives_on :: "Client \<Rightarrow> Client \<Rightarrow> bool" where
  "lives_on c0 c \<longleftrightarrow> (shutdownReason c0 \<noteq> [] \<longrightarrow> shutdownReason c = shutdownReason c0) \<and>
     (cancelled c0 \<longrightarrow> cancelled c) \<and> (stopping c0 \<longrightarrow> stopping c) \<and> (servicesStarted c0 \<longrightarrow> servicesStarted c)"

definition client_inv :: "Config \<Rightarrow> Client \<Rightarrow> Client \<Rightarrow> bool" where
  "client_inv cfg c0 c \<longleftrightarrow> client_wf cfg c \<and> lives_on c0 c"

lemmas inv_defs = client_inv_def client_wf_def lives_on_def

lemma client_wf_new: "client_wf cfg (NewClient cfg)"
  by (simp add: client_wf_def NewClient_def no_nat_def)

section \<open>Small operations\<close>

lemma wf_effect [simp]: "\<not> is_listener e \<Longrightarrow> client_inv cfg c0 (effect e c) = client_inv cfg c0 c"
  by (simp add: inv_defs effect_def)

lemma wf_effect_opt [simp]: "(\<And>n. \<not> is_listener (f n)) \<Longrightarrow> client_inv cfg c0 (effect_opt f x c) = client_inv cfg c0 c"
  by (simp add: effect_opt_def split: option.split)

lemma wf_updates:
  assumes "client_wf cfg c"
  shows "client_wf cfg (ResetBackoff c)" "client_wf cfg (IncreaseBackoff c)" "client_wf cfg (setShutdownReason r c)"
    "client_wf cfg (SetShutdownReason r c)" "client_wf cfg (cancel c)" "client_wf cfg (c\<lparr>stopping := True\<rparr>)"
    "client_wf cfg (c\<lparr>directConn := x\<rparr>)" "client_wf cfg (c\<lparr>cl_nat := no_nat\<rparr>)" "client_wf cfg (c\<lparr>cl_nat := \<lparr>natInfo = Some i, natDetected = True\<rparr>\<rparr>)"
    "client_wf cfg (c\<lparr>cachedServerPassword := w, hasCachedServerPassword := True\<rparr>)"
    "client_wf cfg (c\<lparr>cachedServerPassword := [], hasCachedServerPassword := False\<rparr>)"
proof -
  have "backoff c \<le> backoff c * 3 div 2" "second \<le> backoff c" using assms by (auto simp: client_wf_def)
  then show "client_wf cfg (IncreaseBackoff c)" using assms by (simp add: client_wf_def IncreaseBackoff_def Let_def)
  show "client_wf cfg (setShutdownReason r c)" "client_wf cfg (SetShutdownReason r c)"
    using assms by (simp_all add: client_wf_def SetShutdownReason_def setShutdownReason_def)
qed (use assms in \<open>simp_all add: client_wf_def ResetBackoff_def cancel_def no_nat_def\<close>)

lemma lives_on_updates:
  assumes "lives_on c0 c"
  shows "lives_on c0 (ResetBackoff c)" "lives_on c0 (IncreaseBackoff c)" "lives_on c0 (setShutdownReason r c)"
    "lives_on c0 (SetShutdownReason r c)" "lives_on c0 (cancel c)" "lives_on c0 (c\<lparr>stopping := True\<rparr>)"
    "lives_on c0 (c\<lparr>directConn := x\<rparr>)" "lives_on c0 (c\<lparr>cl_nat := no_nat\<rparr>)" "lives_on c0 (c\<lparr>cl_nat := \<lparr>natInfo = Some i, natDetected = True\<rparr>\<rparr>)"
    "lives_on c0 (c\<lparr>cachedServerPassword := w, hasCachedServerPassword := True\<rparr>)"
    "lives_on c0 (c\<lparr>cachedServerPassword := [], hasCachedServerPassword := False\<rparr>)"
  using assms by (simp_all add: lives_on_def ResetBackoff_def IncreaseBackoff_def SetShutdownReason_def setShutdownReason_def cancel_def Let_def)

lemma wf_simple:
  assumes "client_inv cfg c0 c"
  shows "client_inv cfg c0 (ResetBackoff c)" "client_inv cfg c0 (IncreaseBackoff c)" "client_inv cfg c0 (setShutdownReason r c)"
    "client_inv cfg c0 (SetShutdownReason r c)" "client_inv cfg c0 (cancel c)" "client_inv cfg c0 (c\<lparr>stopping := True\<rparr>)"
    "client_inv cfg c0 (c\<lparr>directConn := x\<rparr>)" "client_inv cfg c0 (c\<lparr>cl_nat := no_nat\<rparr>)" "client_inv cfg c0 (c\<lparr>cl_nat := \<lparr>natInfo = Some i, natDetected = True\<rparr>\<rparr>)"
    "client_inv cfg c0 (c\<lparr>cachedServerPassword := w, hasCachedServerPassword := True\<rparr>)"
    "client_inv cfg c0 (c\<lparr>cachedServerPassword := [], hasCachedServerPassword := False\<rparr>)"
  using assms unfolding client_inv_def by (blast intro: wf_updates lives_on_updates)+

lemma wf_detect:
  assumes "client_inv cfg c0 c" "detects f"
  shows "client_inv cfg c0 (client_detectNATType f c)"
proof (cases "f (stun_servers (StunServers (Common (cl_config c))))")
  case (Pair info eo)
  then have "eo = None \<Longrightarrow> info \<noteq> None" using assms(2) DetectNAT_info by (auto simp: detects_def)
  then show ?thesis using assms(1) Pair wf_simple(9) [OF assms(1)] by (auto simp: client_detectNATType_def split: option.split)
qed

lemma wf_cleanupDirectConn: "client_inv cfg c0 c \<Longrightarrow> cleanupDirectConn r c = (b, c') \<Longrightarrow> client_inv cfg c0 c'"
  by (auto simp: cleanupDirectConn_def wf_simple split: option.splits)

lemma wf_closeControlStream: "client_inv cfg c0 c \<Longrightarrow> client_inv cfg c0 (closeControlStream c)"
  by (auto simp: closeControlStream_def Let_def split: prod.split bool.split dest!: wf_cleanupDirectConn [rotated])

lemma wf_Stop: "client_inv cfg c0 c \<Longrightarrow> client_inv cfg c0 (Client_Stop c)"
  by (simp add: Client_Stop_def Let_def snd_def wf_simple split: prod.split)
    (auto simp: wf_simple dest!: wf_cleanupDirectConn [rotated])

lemma wf_monitor: "client_inv cfg c0 c \<Longrightarrow> client_monitorControlStream start es c = (c', d) \<Longrightarrow> client_inv cfg c0 c'"
  by (auto simp: client_monitorControlStream_def Let_def wf_closeControlStream split: if_splits prod.splits cm_exit.splits)

section \<open>Handshakes and local services\<close>

lemma authenticate_client:
  assumes "authenticateWithServer Q wr wait asked c st = Some (r, c', st')"
  shows "c' \<in> {c, c\<lparr>cachedServerPassword := [], hasCachedServerPassword := False\<rparr>} \<union>
    range (\<lambda>w. c\<lparr>cachedServerPassword := w, hasCachedServerPassword := True\<rparr>)"
proof (cases "controlDispatcher c = None \<or> controlMessager c = None")
  case True
  show ?thesis using assms [unfolded authenticateWithServer_def if_P [OF True]] by simp
next
  case False
  note A = assms [unfolded authenticateWithServer_def if_not_P [OF False]]
  obtain r1 s1 where w1: "wait PASSWORD_REQUIRED st = Some (r1, s1)" using A by (cases "wait PASSWORD_REQUIRED st") auto
  show ?thesis
  proof (cases r1)
    case (Inl e)
    then show ?thesis using A w1 by simp
  next
    case (Inr msg)
    define pw where "pw = (if m_RequirePassword msg
                 then (if hasCachedServerPassword c then Inr (cachedServerPassword c) else asked) else Inr [])"
    note A = A [unfolded w1 Inr, simplified, folded pw_def]
    show ?thesis
    proof (cases pw)
      case (Inl e)
      then show ?thesis using A by (auto split: if_splits)
    next
      case (Inr password)
      note A = A [unfolded Inr, simplified]
      obtain r2 s2 where w2: "SendAuthRequest Q wr s1 password = Some (r2, s2)"
        using A by (cases "SendAuthRequest Q wr s1 password") auto
      show ?thesis
      proof (cases r2)
        case None
        note A = A [unfolded w2 None, simplified]
        obtain r3 s3 where w3: "wait AUTH_RESPONSE s2 = Some (r3, s3)" using A by (cases "wait AUTH_RESPONSE s2") auto
        show ?thesis using A [unfolded w3] by (cases r3) (auto split: if_splits)
      qed (use A w2 in simp)
    qed
  qed
qed

lemma wf_authenticate:
  assumes "client_inv cfg c0 c" "authenticateWithServer Q wr wait asked c st = Some (r, c', st')"
  shows "client_inv cfg c0 c'"
  using authenticate_client [OF assms(2)] wf_simple(10,11) [OF assms(1)] assms(1) by auto

lemma verify_client:
  assumes "verifyServiceOnControlStream Q wr wait name p w c st = Some (r, c', st')"
  shows "c' \<in> {c} \<union> range (\<lambda>b. c\<lparr>serviceCompress := (serviceCompress c)(name \<mapsto> b)\<rparr>)"
proof (cases "controlDispatcher c = None \<or> controlMessager c = None")
  case True
  show ?thesis using assms [unfolded verifyServiceOnControlStream_def if_P [OF True]] by simp
next
  case False
  note A = assms [unfolded verifyServiceOnControlStream_def if_not_P [OF False]]
  obtain x st1 where "checkServiceAvailability Q wr wait st name p w = Some (x, st1)"
    using A by (cases "checkServiceAvailability Q wr wait st name p w") auto
  note A = A [unfolded this, simplified]
  show ?thesis
  proof (cases x)
    case (Inr resp)
    then show ?thesis using A by (cases "m_Data resp ''zstd''") auto
  qed (use A in simp)
qed

lemma wf_verify:
  assumes "client_inv cfg c0 c" "verifyServiceOnControlStream Q wr wait name p w c st = Some (r, c', st')"
    and "name \<in> lc_Name ` set (c_Services (F2P_Config.Config.Client cfg))"
  shows "client_inv cfg c0 c'"
proof -
  have "client_inv cfg c0 (c\<lparr>serviceCompress := (serviceCompress c)(name \<mapsto> b)\<rparr>)" for b
    using assms(1,3) by (simp add: inv_defs)
  then show ?thesis using verify_client [OF assms(2)] assms(1) by auto
qed

lemma wf_verify_protocols:
  assumes "client_inv cfg c0 c" "verify_protocols Q wr wait ls ps c st = Some (r, c', st')"
    and "lc_Name ls \<in> lc_Name ` set (c_Services (F2P_Config.Config.Client cfg))"
  shows "client_inv cfg c0 c'"
  using assms(1,2)
proof (induction ps arbitrary: c st)
  case (Cons p ps)
  then obtain r1 c1 st1 where v: "verifyServiceOnControlStream Q wr wait (lc_Name ls) p (lc_Password ls) c st = Some (r1, c1, st1)"
    by (auto simp: bind_eq_Some_conv)
  have "client_inv cfg c0 c1" by (rule wf_verify [OF Cons.prems(1) v assms(3)])
  then show ?case using Cons.IH [of c1 st1] Cons.prems(2) v by (cases r1) auto
qed auto

lemma wf_verify_services:
  assumes "client_inv cfg c0 c" "verify_services Q wr wait lss c st = Some (r, c', st')"
    and "set lss \<subseteq> set (c_Services (F2P_Config.Config.Client cfg))"
  shows "client_inv cfg c0 c'"
  using assms
proof (induction lss arbitrary: c st)
  case (Cons ls lss)
  show ?case
  proof (cases "lc_Enabled ls")
    case True
    with Cons.prems(2) obtain r1 c1 st1 where v: "verify_protocols Q wr wait ls (lc_Protocol ls) c st = Some (r1, c1, st1)"
      by (auto simp: bind_eq_Some_conv)
    have "client_inv cfg c0 c1" by (rule wf_verify_protocols [OF Cons.prems(1) v]) (use Cons.prems(3) in auto)
    then show ?thesis using Cons.IH [of c1 st1] Cons.prems(2,3) v True by (cases r1) auto
  qed (use Cons in auto)
qed auto

text \<open>The local services are started by a single log entry for each listener.\<close>

definition listening :: "effect list \<Rightarrow> Client \<Rightarrow> Client" where
  "listening es c = c\<lparr>effects := effects c @ es\<rparr>"

lemma listening_simps [simp]: "listening [] c = c" "listening ys (listening xs c) = listening (xs @ ys) c"
    "effect e c = listening [e] c" "localServices (listening es c) = localServices c"
    "cl_config (listening es c) = cl_config c" "effects (listening es c) = effects c @ es"
  by (simp_all add: listening_def effect_def)

lemma startLocalService_listening: "startLocalService ls c = listening (service_listeners ls) c"
proof -
  have "fold (\<lambda>p c. if p = ''tcp'' then effect (StartListener ''tcp'' a) c
         else if p = ''udp'' then effect (StartListener ''udp'' a) c else c) ps c =
      listening (map (\<lambda>p. StartListener p a) (filter (\<lambda>p. p = ''tcp'' \<or> p = ''udp'') ps)) c" for ps a
    by (induction ps arbitrary: c) simp_all
  then show ?thesis by (simp add: startLocalService_def service_listeners_def del: listening_simps(3))
qed

lemma startLocalServices_listening:
  assumes "cl_config c = cfg" "localServices c = add_local (c_Services (F2P_Config.Config.Client cfg)) Map.empty"
  shows "startLocalServices c = listening (listeners cfg) c"
proof -
  let ?m = "add_local (c_Services (F2P_Config.Config.Client cfg)) Map.empty"
  let ?step = "\<lambda>name c. case localServices c name of None \<Rightarrow> c
      | Some localService \<Rightarrow> if \<not> lc_Enabled localService then c else startLocalService localService c"
  have "fold ?step names c = listening (concat (map (\<lambda>name. case ?m name of
      Some ls \<Rightarrow> if lc_Enabled ls then service_listeners ls else [] | None \<Rightarrow> []) names)) c"
    if "localServices c = ?m" for names c
    using that
    by (induction names arbitrary: c) (auto simp: startLocalService_listening split: option.split)
  then show ?thesis using assms by (simp add: startLocalServices_def listeners_def Let_def)
qed

lemma listeners_listen: "filter is_listener (listeners cfg) = listeners cfg"
  by (auto simp: listeners_def service_listeners_def Let_def filter_concat comp_def filter_map intro!: arg_cong [of _ _ concat]
      split: option.split)

lemma wf_startServicesOnce: "client_inv cfg c0 c \<Longrightarrow> client_inv cfg c0 (startServicesOnce c)"
  using startLocalServices_listening [of "c\<lparr>servicesStarted := True\<rparr>" cfg] listeners_listen [of cfg]
  by (simp add: startServicesOnce_def inv_defs listening_def)

section \<open>Connecting\<close>

lemma wf_run_protocol:
  assumes "client_inv cfg c0 c" "run_protocol V h c st = Some (r, c', st')"
  shows "client_inv cfg c0 c'"
proof -
  obtain r1 c1 st1 where a: "authenticateWithServer (ce_proto V) (ce_write V) (ce_wait V) (ce_asked V) c st = Some (r1, c1, st1)"
    using assms(2) by (auto simp: run_protocol_def bind_eq_Some_conv)
  have c1: "client_inv cfg c0 c1" by (rule wf_authenticate [OF assms(1) a])
  show ?thesis
  proof (cases r1)
    case (Some e)
    then show ?thesis using assms(2) a c1 by (auto simp: run_protocol_def wf_simple simp del: listening_simps(3) split: if_splits)
  next
    case None
    then obtain r2 c2 st2 where v: "verifyServiceConfiguration (ce_proto V) (ce_write V) (ce_wait V SERVICE_RESPONSE) c1 st1 = Some (r2, c2, st2)"
      using assms(2) a by (auto simp: run_protocol_def bind_eq_Some_conv)
    have "cl_config c1 = cfg" using c1 by (simp add: inv_defs)
    then have "client_inv cfg c0 c2"
      using wf_verify_services [OF c1, of "ce_proto V" "ce_write V" "ce_wait V SERVICE_RESPONSE"] v
      by (auto simp: verifyServiceConfiguration_def)
    then show ?thesis using assms(2) a v None
      by (cases r2) (auto simp: run_protocol_def wf_simple wf_startServicesOnce simp del: listening_simps(3))
  qed
qed

lemma wf_stream:
  assumes "client_inv cfg c0 c"
  shows "quicCtrlClose c = None \<Longrightarrow> client_inv cfg c0 (c\<lparr>controlStream := Some h, controlMessager := Some h, controlDispatcher := Some h\<rparr>)"
    "client_inv cfg c0 (c\<lparr>controlStream := None, quicCtrlClose := Some h, controlMessager := Some h, controlDispatcher := Some h\<rparr>)"
  using assms by (simp_all add: inv_defs)

lemma wf_setup:
  assumes "client_inv cfg c0 c"
  shows "quicCtrlClose c = None \<Longrightarrow> setupLibp2pProtocol V opened c st = Some (r, c', st') \<Longrightarrow> client_inv cfg c0 c'"
    "setupQUICProtocol V opened typed c st = Some (r, c', st') \<Longrightarrow> client_inv cfg c0 c'"
proof -
  assume "quicCtrlClose c = None" and s: "setupLibp2pProtocol V opened c st = Some (r, c', st')"
  then have "client_inv cfg c0 (c\<lparr>controlStream := Some h, controlMessager := Some h, controlDispatcher := Some h\<rparr>)" for h
    using wf_stream(1) [OF assms] by simp
  with s show "client_inv cfg c0 c'"
    using assms by (cases opened) (auto simp: setupLibp2pProtocol_def dest: wf_run_protocol [rotated])
next
  assume s: "setupQUICProtocol V opened typed c st = Some (r, c', st')"
  then show "client_inv cfg c0 c'"
  proof (cases "directConn c = None \<or> isl opened \<or> typed \<noteq> None")
    case True
    then show ?thesis using assms s
      by (cases opened) (auto simp: setupQUICProtocol_def simp del: listening_simps(3) split: option.splits)
  next
    case False
    then obtain q h where "directConn c = Some q" "opened = Inr h" "typed = None" by (cases opened) auto
    with s have "run_protocol V h (c\<lparr>controlStream := None, quicCtrlClose := Some h, controlMessager := Some h,
        controlDispatcher := Some h\<rparr>) st = Some (r, c', st')" by (simp add: setupQUICProtocol_def)
    then show ?thesis by (rule wf_run_protocol [OF wf_stream(2) [OF assms]])
  qed
qed

lemma establish_client:
  "establish H c ps tok p = (r, c', opened) \<Longrightarrow> c' = c \<or> (\<exists>q. c' = c\<lparr>directConn := Some q\<rparr>)"
  by (cases p; cases "fst p") (auto simp: establish_def split: sum.splits)

lemma attempt_client:
  assumes "attemptHolePunch H c opened = Some (r, c', opened')" "nat_for_punch H c = (x, c1)"
  shows "c' = c1 \<or> (\<exists>q. c' = c1\<lparr>directConn := Some q\<rparr>)"
proof (cases x)
  case (Inr info)
  note A = assms(1) [unfolded attemptHolePunch_def Let_def assms(2), simplified Inr]
  show ?thesis
  proof (cases "hp_signal H info")
    case s: (Inr y)
    obtain sn tok m tid where y: "y = (sn, tok, m, tid)" by (cases y)
    obtain z o1 where cp: "client_punch_socket H (hd (stun_servers (StunServers (Common (cl_config c))))) info m opened = (z, o1)"
      by (metis prod.exhaust)
    show ?thesis
    proof (cases z)
      case z: (Inr w)
      obtain ps nat where "w = (ps, nat)" by (cases w)
      with A s y cp z obtain p where "establish H c1 ps tok p = (r, c', opened')" by auto
      then show ?thesis by (rule establish_client)
    qed (use A s y cp in simp)
  qed (use A in simp)
qed (use assms in \<open>simp add: attemptHolePunch_def\<close>)

lemma wf_attempt:
  assumes "client_inv cfg c0 c" "attemptHolePunch H c opened = Some (r, c', opened')" "detects (hp_detect H)"
  shows "client_inv cfg c0 c'"
proof -
  obtain x c1 where n: "nat_for_punch H c = (x, c1)" by (cases "nat_for_punch H c")
  have c1: "client_inv cfg c0 c1"
    using n assms(1) wf_simple(9) [OF assms(1)] by (auto simp: nat_for_punch_def split: bool.splits option.splits prod.splits)
  show ?thesis using attempt_client [OF assms(2) n] c1 wf_simple(7) [OF c1] by auto
qed

lemma wf_punch_attempts:
  assumes "client_inv cfg c0 c" "punch_attempts H k n e c opened = Some (r, c', opened')" "\<forall>k. detects (hp_detect (H k))"
  shows "client_inv cfg c0 c'"
  using assms(1,2)
proof (induction n arbitrary: k e c opened)
  case (Suc n)
  then obtain r1 c1 o1 where a: "attemptHolePunch (H k) c opened = Some (r1, c1, o1)" by (auto simp: bind_eq_Some_conv)
  have "client_inv cfg c0 c1" by (rule wf_attempt [OF Suc.prems(1) a]) (use assms(3) in simp)
  then show ?case using Suc.IH [of c1 "Suc k" _ o1] Suc.prems(2) a by (cases r1) auto
qed auto

lemma wf_cleanup: "client_inv cfg c0 c \<Longrightarrow> client_inv cfg c0 (cleanupPreviousConnection c)"
proof -
  assume c: "client_inv cfg c0 c"
  have "client_inv cfg c0 (d\<lparr>controlDispatcher := None, controlMessager := None, controlStream := None, quicCtrlClose := None\<rparr>)"
    if "client_inv cfg c0 d" for d
    using that by (simp add: inv_defs)
  note 1 = this [of "effect_opt CloseDispatcher (controlDispatcher c) c"]
  obtain b c3 where d: "cleanupDirectConn ''new connection cycle'' (effect_opt CloseStream (quicCtrlClose c) (effect_opt CloseStream (controlStream c)
      ((effect_opt CloseDispatcher (controlDispatcher c) c)\<lparr>controlDispatcher := None, controlMessager := None,
         controlStream := None, quicCtrlClose := None\<rparr>))) = (b, c3)" by fastforce
  have "client_inv cfg c0 c3" by (rule wf_cleanupDirectConn [OF _ d]) (simp add: 1 c)
  then have "client_inv cfg c0 (effect ClosePeerConns (c3\<lparr>cl_nat := no_nat\<rparr>))" by (simp add: wf_simple del: listening_simps(3))
  with d show ?thesis by (simp add: cleanupPreviousConnection_def Let_def del: listening_simps(3))
qed

lemma wf_connect:
  assumes "client_inv cfg c00 c0" "connectToServer X c0 opened st = Some (r, c', opened', st')" "real_env X"
  shows "client_inv cfg c00 c'"
proof -
  let ?c = "cleanupPreviousConnection c0"
  let ?c1 = "effect Tag (ResetBackoff ?c)"
  have c: "client_inv cfg c00 ?c" by (rule wf_cleanup [OF assms(1)])
  have c1: "client_inv cfg c00 ?c1" using wf_simple(1) [OF c] by (simp del: listening_simps(3))
  have q: "quicCtrlClose ?c1 = None" using cleanup_complete [of c0] by (simp add: ResetBackoff_def Let_def del: listening_simps(3))
  show ?thesis
  proof (cases "cv_find X = None \<and> cv_connect X = None")
    case False
    then show ?thesis using assms(2) c
      by (cases "cv_find X"; cases "cv_connect X") (simp_all add: connectToServer_def Let_def)
  next
    case True
    have libp2p: "client_inv cfg c00 c'" if "map_option (\<lambda>(e, c', st'). (e, c', o', st')) (setupLibp2pProtocol V op ?c1 st) = Some (r, c', opened', st')"
      for V op o' using that wf_setup(1) [OF c1 q] by auto
    have quic: "client_inv cfg c00 c'" if "map_option (\<lambda>(e, c', st'). (e, c', o', st')) (setupQUICProtocol V op ty c2 st) = Some (r, c', opened', st')"
      "client_inv cfg c00 c2" for V op ty c2 o' using that(1) wf_setup(2) [OF that(2)] by auto
    let ?w = "waitForDirectConnection (cv_now X + dcutrWaitTimeout) (cv_now X) (cv_wait X)"
    show ?thesis
    proof (cases "\<not> isRelayConnection (cv_conns X) \<or> ?w = Some True")
      case direct: True
      then show ?thesis using assms(2) True libp2p
        by (auto simp: connectToServer_def Let_def simp del: listening_simps(3) isRelayConnection.simps split: if_splits)
    next
      case False
      then have w: "?w = Some False" using assms(2) True
        by (auto simp: connectToServer_def Let_def bind_eq_Some_conv simp del: listening_simps(3) isRelayConnection.simps)
      then obtain r1 c2 o1 where p: "punch_attempts (cv_punch X) 1 maxHolePunchAttempts None ?c1 opened = Some (r1, c2, o1)"
        using assms(2) True False
        by (auto simp: connectToServer_def Let_def bind_eq_Some_conv simp del: listening_simps(3) isRelayConnection.simps)
      have c2: "client_inv cfg c00 c2" by (rule wf_punch_attempts [OF c1 p]) (use assms(3) in \<open>simp add: real_env_def\<close>)
      then show ?thesis using assms(2) True False w p quic
        by (cases r1) (auto simp: connectToServer_def Let_def simp del: listening_simps(3) isRelayConnection.simps)
    qed
  qed
qed

lemma wf_step: "client_step c c' \<Longrightarrow> client_inv cfg c0 c \<Longrightarrow> client_inv cfg c0 c'"
  by (induction rule: client_step.induct) (auto simp: wf_simple wf_detect wf_Stop intro: wf_connect wf_monitor)

lemma wf_reach: "client_step\<^sup>*\<^sup>* c0 c \<Longrightarrow> client_wf cfg c0 \<Longrightarrow> client_inv cfg c0 c"
proof (induction rule: rtranclp_induct)
  case base
  then show ?case by (simp add: client_inv_def lives_on_def)
next
  case (step c c')
  then show ?case using wf_step by blast
qed

lemma wf_of_reach: "client_reach cfg c \<Longrightarrow> client_wf cfg c"
  using wf_reach [OF _ client_wf_new] by (auto simp: client_reach_def client_inv_def)

text \<open>C7: whatever operations a client runs, in whatever order and with whatever answers of its
  environment, its state stays well formed: at most one control stream, of one kind, with the messager
  and the dispatcher of exactly this stream; NAT information exactly when a detection has succeeded;
  a delay between a second and a minute; no password left when none is cached; compression known only
  for configured services; and the listeners of the local services have been started exactly once, or
  not yet, however often the client has reconnected.\<close>

theorem client_state_wf:
  assumes "client_reach cfg c"
  shows "client_wf cfg c"
  by (rule wf_of_reach [OF assms])

lemma client_reach_trans: "client_reach cfg c \<Longrightarrow> client_step\<^sup>*\<^sup>* c c' \<Longrightarrow> client_reach cfg c'"
  by (auto simp: client_reach_def)

text \<open>The first reason for the shutdown wins; a client that was cancelled or is stopping stays so.\<close>

lemma client_lives_on:
  assumes "client_reach cfg c" "client_step\<^sup>*\<^sup>* c c'"
  shows "lives_on c c'"
  using wf_reach [OF assms(2) wf_of_reach [OF assms(1)]] by (simp add: client_inv_def)

section \<open>The connection manager and stopping\<close>

text \<open>The connection manager is a sequence of these operations.\<close>

lemma manager_steps:
  assumes "\<And>k. real_env (X k)"
    and "startConnectionManager fuel X st halt k c opened waited = Some (c', opened', waited')" "client_reach cfg c"
    and "list_all (\<lambda>d. second \<le> d \<and> d \<le> 60 * second) waited"
  shows "client_step\<^sup>*\<^sup>* c c' \<and> list_all (\<lambda>d. second \<le> d \<and> d \<le> 60 * second) waited'"
  using assms(2-)
proof (induction fuel arbitrary: k c opened waited)
  case (Suc fuel)
  show ?case
  proof (cases "cancelled c")
    case True
    then have "c' = SetShutdownReason ''context cancelled'' c" "waited' = waited"
      using Suc.prems(1) by (simp_all add: SetShutdownReason_def)
    then show ?thesis using Suc.prems(3) by (auto intro: client_step.reason)
  next
    case False
    then obtain r c1 o1 s1 where n: "connectToServer (X k) c opened (st k) = Some (r, c1, o1, s1)"
      using Suc.prems(1) by (auto simp: bind_eq_Some_conv)
    have s1: "client_step c c1" by (rule client_step.connect [OF assms(1) n])
    have r1: "client_reach cfg c1" using client_reach_trans [OF Suc.prems(2)] s1 by blast
    show ?thesis
    proof (cases r)
      case None
      then have "c' = ResetBackoff c1" "waited' = waited" using Suc.prems(1) False n by simp_all
      then show ?thesis
        using s1 Suc.prems(3) client_step.connected [of c1] by (simp add: converse_rtranclp_into_rtranclp)
    next
      case (Some e)
      note A = Suc.prems(1) [unfolded startConnectionManager.simps n Some, simplified False if_False, simplified]
      show ?thesis
      proof (cases "cancelled c1 \<or> halt k")
        case True
        then have "c' = c1 \<or> c' = cancel c1" "waited' = waited" using A by (auto simp: Let_def split: if_splits)
        then show ?thesis using s1 Suc.prems(3) client_step.context_done [of c1]
          by (auto intro: converse_rtranclp_into_rtranclp)
      next
        case F: False
        then have m: "startConnectionManager fuel X st halt (Suc k) (IncreaseBackoff c1) o1 (waited @ [GetBackoff c1]) =
            Some (c', opened', waited')"
          using A by (simp add: Let_def)
        have "client_step c1 (IncreaseBackoff c1)" by (rule client_step.retry)
        then have s2: "client_step\<^sup>*\<^sup>* c (IncreaseBackoff c1)" using s1 by auto
        have "client_wf cfg c1" by (rule wf_of_reach [OF r1])
        then have "list_all (\<lambda>d. second \<le> d \<and> d \<le> 60 * second) (waited @ [GetBackoff c1])"
          using Suc.prems(3) by (auto simp: client_wf_def GetBackoff_def)
        from Suc.IH [OF m client_reach_trans [OF Suc.prems(2) s2] this] s2 show ?thesis by auto
      qed
    qed
  qed
qed simp

text \<open>C36: stopping a client, in whatever state its operations have left it: it tells the server on the
  control stream in use, if there is one, and only then closes this stream, the dispatcher that reads
  it and the direct connection, if there is one. Nothing else is closed, and the client is cancelled
  and restarts no connection manager when its monitor ends.\<close>

theorem client_stop:
  assumes "client_reach cfg c"
  shows "effects (Client_Stop c) = effects c @
      (case control_of c of Some h \<Rightarrow> [Notify h, CloseStream h, CloseDispatcher h] | None \<Rightarrow> []) @
      (case directConn c of Some q \<Rightarrow> [CloseQUIC q ''client shutdown''] | None \<Rightarrow> []) \<and>
    directConn (Client_Stop c) = None \<and> cancelled (Client_Stop c) \<and>
    snd (client_monitorControlStream start es (Client_Stop c)) = None"
proof -
  have wf: "client_wf cfg c" by (rule wf_of_reach [OF assms])
  then have m: "controlMessager c = control_of c" "controlDispatcher c = control_of c" and
    one: "controlStream c = None \<or> quicCtrlClose c = None" by (simp_all add: client_wf_def)
  have stop: "stopping (Client_Stop c)" "cancelled (Client_Stop c)" "directConn (Client_Stop c) = None"
    by (auto simp: Client_Stop_def Let_def cancel_def cleanupDirectConn_def effect_opt_def effect_def
        simp del: listening_simps(3) split: option.split)
  have "stopping (closeControlStream d) = stopping d" for d
    by (auto simp: closeControlStream_def cleanupDirectConn_def Let_def simp del: listening_simps(3) split: option.split)
  then have "snd (client_monitorControlStream start es (Client_Stop c)) = None"
    using stop(1) by (auto simp: client_monitorControlStream_def Let_def split: prod.split cm_exit.split)
  moreover have "effects (Client_Stop c) = effects c @
      (case control_of c of Some h \<Rightarrow> [Notify h, CloseStream h, CloseDispatcher h] | None \<Rightarrow> []) @
      (case directConn c of Some q \<Rightarrow> [CloseQUIC q ''client shutdown''] | None \<Rightarrow> [])"
    using one m
    by (cases "controlStream c"; cases "quicCtrlClose c"; cases "directConn c")
      (auto simp: Client_Stop_def Let_def cancel_def cleanupDirectConn_def effect_opt_def effect_def simp del: listening_simps(3))
  ultimately show ?thesis using stop by simp
qed

text \<open>The connection manager keeps its delays whatever happens to the client in the meantime: from
  any reachable state, with any outcomes of the connection attempts (each of which may change the
  client, be refused at any point or reset the delay), every delay it waits is between a second and
  a minute, and it ends in a state that the operations of the client can reach.\<close>

theorem manager_delays:
  assumes "\<And>k. real_env (X k)" "client_reach cfg c"
    and "startConnectionManager fuel X st halt k c opened [] = Some (c', opened', waited)"
  shows "client_reach cfg c' \<and> (\<forall>d \<in> set waited. second \<le> d \<and> d \<le> 60 * second)"
  using manager_steps [OF assms(1,3,2)] client_reach_trans [OF assms(2)] by (auto simp: list_all_iff)

section \<open>Retrying\<close>

fun delay :: "nat \<Rightarrow> duration" where
  "delay 0 = 1 * second"
| "delay (Suc k) = min (60 * second) (delay k * 3 div 2)"

lemma delay_bounds: "second \<le> delay k \<and> delay k \<le> 60 * second"
proof (induction k)
  case (Suc k)
  then have "second \<le> delay k * 3 div 2" by linarith
  then show ?case by simp
qed simp

lemma delay_limit: "11 \<le> k \<Longrightarrow> delay k = 60 * second"
proof (induction k rule: nat_induct_at_least)
  case base
  show ?case by (simp add: numeral_eq_Suc)
next
  case (Suc k)
  then show ?case by simp
qed

text \<open>The delay of the connection manager is kept by every operation of a connection attempt but the reset
  once the server has been reached.\<close>

definition same_pace :: "Client \<Rightarrow> Client \<Rightarrow> bool" where
  "same_pace c c' \<longleftrightarrow> backoff c' = backoff c \<and> backoffMax c' = backoffMax c"

lemma same_pace_trans: "same_pace a b \<Longrightarrow> same_pace b c \<Longrightarrow> same_pace a c"
  by (simp add: same_pace_def)

lemma same_pace_updates [simp]:
  "same_pace c c" "same_pace d (listening es c) = same_pace d c" "same_pace d (cancel c) = same_pace d c"
  "same_pace d (setShutdownReason r c) = same_pace d c"
  by (simp_all add: same_pace_def listening_def cancel_def setShutdownReason_def)

lemma pace_cleanup: "same_pace c (cleanupPreviousConnection c)"
  by (auto simp: same_pace_def cleanupPreviousConnection_def Let_def cleanupDirectConn_def effect_opt_def listening_def
      split: option.splits)

lemma pace_authenticate:
  "authenticateWithServer Q wr wait asked c st = Some (r, c', st') \<Longrightarrow> same_pace c c'"
  by (drule authenticate_client) (auto simp: same_pace_def)

lemma pace_verify_protocols: "verify_protocols Q wr wait ls ps c st = Some (r, c', st') \<Longrightarrow> same_pace c c'"
proof (induction ps arbitrary: c st)
  case (Cons p ps)
  then obtain r1 c1 st1 where v: "verifyServiceOnControlStream Q wr wait (lc_Name ls) p (lc_Password ls) c st = Some (r1, c1, st1)"
    by (auto simp: bind_eq_Some_conv)
  have "same_pace c c1" using verify_client [OF v] by (auto simp: same_pace_def)
  then show ?case using Cons.IH [of c1 st1] Cons.prems v by (cases r1) (auto intro: same_pace_trans)
qed simp

lemma pace_verify_services: "verify_services Q wr wait lss c st = Some (r, c', st') \<Longrightarrow> same_pace c c'"
proof (induction lss arbitrary: c st)
  case (Cons ls lss)
  show ?case
  proof (cases "lc_Enabled ls")
    case True
    with Cons.prems obtain r1 c1 st1 where v: "verify_protocols Q wr wait ls (lc_Protocol ls) c st = Some (r1, c1, st1)"
      by (auto simp: bind_eq_Some_conv)
    from pace_verify_protocols [OF v] show ?thesis
      using Cons.IH [of c1 st1] Cons.prems v True by (cases r1) (auto intro: same_pace_trans)
  qed (use Cons in auto)
qed simp

lemma pace_startServicesOnce: "same_pace c (startServicesOnce c)"
proof -
  let ?step = "\<lambda>name c. case localServices c name of None \<Rightarrow> c
      | Some localService \<Rightarrow> if \<not> lc_Enabled localService then c else startLocalService localService c"
  have "same_pace c (fold ?step names c)" for names and c :: Client
  proof (induction names arbitrary: c)
    case (Cons n ns)
    have "same_pace c (?step n c)" by (simp add: startLocalService_listening split: option.split)
    then show ?case using same_pace_trans Cons by fastforce
  qed simp
  then have "same_pace d (startLocalServices d)" for d by (simp add: startLocalServices_def)
  from this [of "c\<lparr>servicesStarted := True\<rparr>"] show ?thesis by (simp add: startServicesOnce_def same_pace_def)
qed

lemma pace_run_protocol:
  assumes "run_protocol V h c st = Some (r, c', st')"
  shows "same_pace c c'"
proof -
  obtain r1 c1 st1 where a: "authenticateWithServer (ce_proto V) (ce_write V) (ce_wait V) (ce_asked V) c st = Some (r1, c1, st1)"
    using assms by (auto simp: run_protocol_def bind_eq_Some_conv)
  note c1 = pace_authenticate [OF a]
  show ?thesis
  proof (cases r1)
    case (Some e)
    then show ?thesis using assms a c1 by (auto simp: run_protocol_def split: if_splits)
  next
    case None
    then obtain r2 c2 st2 where v: "verifyServiceConfiguration (ce_proto V) (ce_write V) (ce_wait V SERVICE_RESPONSE) c1 st1 = Some (r2, c2, st2)"
      using assms a by (auto simp: run_protocol_def bind_eq_Some_conv)
    have c2: "same_pace c c2"
      using pace_verify_services [OF v [unfolded verifyServiceConfiguration_def]] c1 same_pace_trans by blast
    show ?thesis using assms a v None c2 same_pace_trans [OF c2 pace_startServicesOnce]
      by (cases r2) (auto simp: run_protocol_def)
  qed
qed

lemma pace_setup:
  "setupLibp2pProtocol V op c st = Some (r, c', st') \<Longrightarrow> same_pace c c'"
  "setupQUICProtocol V op typed c st = Some (r, c', st') \<Longrightarrow> same_pace c c'"
  by (auto simp: setupLibp2pProtocol_def setupQUICProtocol_def same_pace_def [of _ c'] split: sum.splits option.splits
      dest!: pace_run_protocol) (auto simp: same_pace_def listening_def)

lemma pace_attempt:
  assumes "attemptHolePunch H c opened = Some (r, c', opened')"
  shows "same_pace c c'"
proof -
  obtain x c1 where n: "nat_for_punch H c = (x, c1)" by (cases "nat_for_punch H c")
  have "same_pace c c1" using n by (auto simp: nat_for_punch_def same_pace_def split: bool.splits option.splits prod.splits)
  then show ?thesis using attempt_client [OF assms n] by (auto simp: same_pace_def)
qed

lemma pace_punch_attempts: "punch_attempts H k n e c opened = Some (r, c', opened') \<Longrightarrow> same_pace c c'"
proof (induction n arbitrary: k e c opened)
  case (Suc n)
  then obtain r1 c1 o1 where a: "attemptHolePunch (H k) c opened = Some (r1, c1, o1)" by (auto simp: bind_eq_Some_conv)
  from pace_attempt [OF a] show ?case
    using Suc.IH [of "Suc k" _ c1 o1] Suc.prems a by (cases r1) (auto intro: same_pace_trans)
qed simp

text \<open>An attempt reaches the server when the DHT finds it and the host connects to it; what comes after that,
  the punches and the handshakes, may still fail.\<close>

definition reaches :: "'s conn_env \<Rightarrow> bool" where
  "reaches X \<longleftrightarrow> cv_find X = None \<and> cv_connect X = None"

lemma connect_backoff:
  assumes "connectToServer X c opened st = Some (r, c', opened', st')"
  shows "backoff c' = (if reaches X then second else backoff c)" "backoffMax c' = backoffMax c"
proof -
  let ?c = "cleanupPreviousConnection c"
  let ?c1 = "effect Tag (ResetBackoff ?c)"
  have c1: "backoff ?c1 = second" "backoffMax ?c1 = backoffMax c"
    using pace_cleanup [of c] by (simp_all add: same_pace_def ResetBackoff_def listening_def)
  have "same_pace (if reaches X then ?c1 else ?c) c'"
  proof (cases "reaches X")
    case False
    then have "c' = ?c" using assms
      by (cases "cv_find X"; cases "cv_connect X") (simp_all add: reaches_def connectToServer_def Let_def)
    then show ?thesis using False by simp
  next
    case True
    let ?w = "waitForDirectConnection (cv_now X + dcutrWaitTimeout) (cv_now X) (cv_wait X)"
    note A = assms [unfolded connectToServer_def Let_def] and R = True [unfolded reaches_def]
    consider "\<not> isRelayConnection (cv_conns X) \<or> ?w = Some True" | "isRelayConnection (cv_conns X)" "?w = Some False"
      using A R by (auto simp: bind_eq_Some_conv simp del: listening_simps(3) isRelayConnection.simps split: if_splits)
    then show ?thesis
    proof cases
      case 1
      then show ?thesis using A R True
        by (auto simp del: listening_simps(3) isRelayConnection.simps split: if_splits dest: pace_setup(1))
    next
      case 2
      then obtain r1 c2 o1 where p: "punch_attempts (cv_punch X) 1 maxHolePunchAttempts None ?c1 opened = Some (r1, c2, o1)"
        using A R by (auto simp: bind_eq_Some_conv simp del: listening_simps(3) isRelayConnection.simps)
      then show ?thesis using A R True 2 same_pace_trans [OF pace_punch_attempts [OF p]]
        by (cases r1) (auto simp del: listening_simps(3) isRelayConnection.simps dest!: pace_setup(2) intro: pace_punch_attempts)
    qed
  qed
  then show "backoff c' = (if reaches X then second else backoff c)" "backoffMax c' = backoffMax c"
    using c1 pace_cleanup [of c] by (auto simp: same_pace_def)
qed

text \<open>The delays of a run, whatever happens in it: the first is the delay of the client, unless the attempt
  reaches the server, and each later one is half as long again as the one before, up to a minute,
  unless its attempt reaches the server.\<close>

definition delays :: "(nat \<Rightarrow> bool) \<Rightarrow> duration \<Rightarrow> duration list \<Rightarrow> bool" where
  "delays R b ds \<longleftrightarrow> (\<forall>i < length ds. ds ! i =
     (if R i then second else if i = 0 then b else min (60 * second) (ds ! (i - 1) * 3 div 2)))"

lemma delays_nth:
  "delays R b ds \<Longrightarrow> i < length ds \<Longrightarrow>
   ds ! i = (if R i then second else if i = 0 then b else min (60 * second) (ds ! (i - 1) * 3 div 2))"
  unfolding delays_def by (rule allE, assumption, erule mp)

lemma delays_Cons:
  assumes "delays (\<lambda>i. R (Suc i)) (min (60 * second) (d * 3 div 2)) ds" "d = (if R 0 then second else b)"
  shows "delays R b (d # ds)"
  unfolding delays_def
proof (intro allI impI)
  fix i
  assume i: "i < length (d # ds)"
  show "(d # ds) ! i = (if R i then second else if i = 0 then b else min (60 * second) ((d # ds) ! (i - 1) * 3 div 2))"
  proof (cases i)
    case (Suc j)
    then have "ds ! j = (if R (Suc j) then second else if j = 0 then min (60 * second) (d * 3 div 2)
        else min (60 * second) (ds ! (j - 1) * 3 div 2))"
      using delays_nth [OF assms(1), of j] i by simp
    then show ?thesis using Suc by (cases j) simp_all
  qed (use assms(2) in simp)
qed

lemma manager_waits:
  "startConnectionManager fuel X st halt k c opened waited = Some (c', opened', waited') \<Longrightarrow> backoffMax c = 60 * second \<Longrightarrow>
   \<exists>ds. waited' = waited @ ds \<and> delays (\<lambda>i. reaches (X (k + i))) (backoff c) ds"
proof (induction fuel arbitrary: k c opened waited)
  case (Suc fuel)
  have stop: ?case if "waited' = waited" using that by (intro exI [of _ "[]"]) (simp add: delays_def)
  show ?case
  proof (cases "cancelled c")
    case True
    then show ?thesis using Suc.prems(1) stop by simp
  next
    case False
    then obtain r c1 o1 s1 where n: "connectToServer (X k) c opened (st k) = Some (r, c1, o1, s1)"
      using Suc.prems(1) by (auto simp: bind_eq_Some_conv)
    note b = connect_backoff [OF n]
    show ?thesis
    proof (cases "r = None \<or> cancelled c1 \<or> halt k")
      case True
      then have "waited' = waited" using Suc.prems(1) False n by (cases r) (auto simp: Let_def split: if_splits)
      then show ?thesis by (rule stop)
    next
      case F: False
      then obtain e where "r = Some e" by auto
      with F have m: "startConnectionManager fuel X st halt (Suc k) (IncreaseBackoff c1) o1 (waited @ [backoff c1]) =
          Some (c', opened', waited')"
        using Suc.prems(1) False n by (simp add: Let_def GetBackoff_def)
      have inc: "backoffMax (IncreaseBackoff c1) = 60 * second"
          "backoff (IncreaseBackoff c1) = min (60 * second) (backoff c1 * 3 div 2)"
        using b(2) Suc.prems(2) by (auto simp: IncreaseBackoff_def Let_def)
      obtain ds where ds: "waited' = (waited @ [backoff c1]) @ ds"
          "delays (\<lambda>i. reaches (X (Suc k + i))) (min (60 * second) (backoff c1 * 3 div 2)) ds"
        using Suc.IH [OF m inc(1)] inc(2) by auto
      have "delays (\<lambda>i. reaches (X (k + i))) (backoff c) (backoff c1 # ds)"
        by (rule delays_Cons) (use ds(2) b(1) in simp_all)
      then show ?thesis using ds(1) by (intro exI [of _ "backoff c1 # ds"]) simp
    qed
  qed
qed simp

text \<open>How long a delay has grown when the server was not reached for a while.\<close>

lemma delays_grow:
  assumes "delays R b ds" "j + m < length ds" "\<And>i. j < i \<Longrightarrow> i \<le> j + m \<Longrightarrow> \<not> R i" "second \<le> ds ! j"
  shows "delay m \<le> ds ! (j + m)"
  using assms(2,3)
proof (induction m)
  case (Suc m)
  have "ds ! (j + Suc m) = min (60 * second) (ds ! (j + m) * 3 div 2)"
    using delays_nth [OF assms(1), of "j + Suc m"] Suc.prems(1) Suc.prems(2) [of "j + Suc m"] by simp
  note eq = this
  have "delay m \<le> ds ! (j + m)" using Suc by simp
  then have "delay m * 3 div 2 \<le> ds ! (j + m) * 3 div 2" by (intro zdiv_mono1) simp_all
  then show ?case unfolding eq delay.simps by (rule min.mono [OF order_refl])
qed (use assms(4) in simp)

text \<open>An attempt of a reachable client fails, at whatever step, without cancelling the client; an attempt
  succeeds.\<close>

definition attempt_fails :: "Config \<Rightarrow> control conn_env \<Rightarrow> control \<Rightarrow> bool" where
  "attempt_fails cfg X st \<longleftrightarrow> (\<forall>c opened. client_reach cfg c \<and> \<not> cancelled c \<longrightarrow>
     (\<exists>e c' opened' st'. connectToServer X c opened st = Some (Some e, c', opened', st') \<and> \<not> cancelled c'))"

definition attempt_succeeds :: "Config \<Rightarrow> control conn_env \<Rightarrow> control \<Rightarrow> bool" where
  "attempt_succeeds cfg X st \<longleftrightarrow> (\<forall>c opened. client_reach cfg c \<and> \<not> cancelled c \<longrightarrow>
     (\<exists>c' opened' st'. connectToServer X c opened st = Some (None, c', opened', st')))"

lemma manager_retries:
  assumes "\<And>k. real_env (X k)"
  shows "client_reach cfg c \<Longrightarrow> \<not> cancelled c \<Longrightarrow> \<forall>i < n. attempt_fails cfg (X (k + i)) (st (k + i)) \<and> \<not> halt (k + i) \<Longrightarrow>
    attempt_succeeds cfg (X (k + n)) (st (k + n)) \<Longrightarrow>
    \<exists>c' opened' ds. startConnectionManager (Suc n) X st halt k c opened waited = Some (c', opened', waited @ ds) \<and>
      length ds = n \<and> GetBackoff c' = 1 * second"
proof (induction n arbitrary: k c opened waited)
  case 0
  then obtain c' o' s' where "connectToServer (X k) c opened (st k) = Some (None, c', o', s')"
    unfolding attempt_succeeds_def by (metis add_0_right)
  then show ?case using "0.prems"(2) by (simp add: GetBackoff_def ResetBackoff_def)
next
  case (Suc n)
  have k: "attempt_fails cfg (X k) (st k)" "\<not> halt k" using Suc.prems(3) by (metis add_0_right zero_less_Suc)+
  then obtain e c1 o1 s1 where n: "connectToServer (X k) c opened (st k) = Some (Some e, c1, o1, s1)" "\<not> cancelled c1"
    using Suc.prems(1,2) unfolding attempt_fails_def by blast
  have "client_step c c1" by (rule client_step.connect [OF assms n(1)])
  then have r: "client_reach cfg (IncreaseBackoff c1)"
    using client_reach_trans [OF Suc.prems(1)] client_step.retry [of c1] by (meson converse_rtranclp_into_rtranclp r_into_rtranclp)
  have "\<not> cancelled (IncreaseBackoff c1)" using n(2) by (simp add: IncreaseBackoff_def Let_def)
  moreover have "\<forall>i < n. attempt_fails cfg (X (Suc k + i)) (st (Suc k + i)) \<and> \<not> halt (Suc k + i)"
    using Suc.prems(3) by auto
  moreover have "attempt_succeeds cfg (X (Suc k + n)) (st (Suc k + n))" using Suc.prems(4) by simp
  ultimately obtain c' o' ds where
    "startConnectionManager (Suc n) X st halt (Suc k) (IncreaseBackoff c1) o1 (waited @ [GetBackoff c1]) =
      Some (c', o', (waited @ [GetBackoff c1]) @ ds)" "length ds = n" "GetBackoff c' = 1 * second"
    using Suc.IH [OF r] by blast
  then show ?case using Suc.prems(2) n k(2)
    by (intro exI [of _ c'] exI [of _ o'] exI [of _ "GetBackoff c1 # ds"]) (simp add: Let_def)
qed

text \<open>C35: the connection manager retries until it has a connection, with \<^verbatim>\<open>connectToServer\<close> itself as the
  attempt. Let the first \<open>n\<close> attempts fail, each at any of its steps, and the next one succeed. Then the
  manager waits \<open>n\<close> times and ends with the client connected and its delay reset to one second. Before the
  second attempt it waits for the delay that the client had, and then each time half as
  long again as before, up to one minute; but an attempt that has reached the server resets the
  delay, so that it waits one second after this attempt even when a later step of it has failed. Every delay is
  between a second and a minute, and it is a minute when the server was not reached eleven times in a
  row.\<close>

theorem retry_delays:
  assumes "\<And>k. real_env (X k)" and "client_reach cfg c" "\<not> cancelled c"
    and "\<And>k. k < n \<Longrightarrow> attempt_fails cfg (X k) (st k) \<and> \<not> halt k"
    and "attempt_succeeds cfg (X n) (st n)"
  shows "\<exists>c' opened' waited. startConnectionManager (Suc n) X st halt 0 c opened [] = Some (c', opened', waited) \<and>
    GetBackoff c' = 1 * second \<and> length waited = n \<and>
    (\<forall>k < n. waited ! k =
         (if reaches (X k) then 1 * second else if k = 0 then GetBackoff c
          else min (60 * second) (waited ! (k - 1) * 3 div 2)) \<and>
       second \<le> waited ! k \<and> waited ! k \<le> 60 * second \<and>
       (11 \<le> k \<and> (\<forall>j. k - 11 < j \<and> j \<le> k \<longrightarrow> \<not> reaches (X j)) \<longrightarrow> waited ! k = 60 * second))"
proof -
  obtain c' o' ds where m: "startConnectionManager (Suc n) X st halt 0 c opened [] = Some (c', o', ds)"
      "length ds = n" "GetBackoff c' = 1 * second"
    using manager_retries [where X = X and n = n and k = 0 and st = st and halt = halt and opened = opened and waited = "[]",
        OF assms(1-3)] assms(4,5) by auto
  have "backoffMax c = 60 * second" using wf_of_reach [OF assms(2)] by (simp add: client_wf_def)
  then have d: "delays (\<lambda>i. reaches (X i)) (backoff c) ds" using manager_waits [OF m(1)] by simp
  have b: "\<forall>d \<in> set ds. second \<le> d \<and> d \<le> 60 * second" using manager_delays [OF assms(1,2) m(1)] by simp
  have "ds ! k = 60 * second" if "k < n" "11 \<le> k" "\<forall>j. k - 11 < j \<and> j \<le> k \<longrightarrow> \<not> reaches (X j)" for k
    using delays_grow [OF d, of "k - 11" 11] that m(2) b delay_limit [of 11] by (simp add: order_antisym)
  moreover have "ds ! k = (if reaches (X k) then 1 * second else if k = 0 then GetBackoff c
      else min (60 * second) (ds ! (k - 1) * 3 div 2))" if "k < n" for k
    using delays_nth [OF d, of k] that m(2) by (simp add: GetBackoff_def)
  moreover have "second \<le> ds ! k \<and> ds ! k \<le> 60 * second" if "k < n" for k using b that m(2) by simp
  ultimately show ?thesis using m by blast
qed

section \<open>Witnesses\<close>

definition refused_env :: "control conn_env" where
  "refused_env =
     \<lparr>cv_find = Some EOF, cv_connect = None, cv_conns = [], cv_now = 0, cv_wait = [],
      cv_punch = (\<lambda>_. \<lparr>hp_detect = DetectNAT None (\<lambda>_ _. Inl EOF) None (Inl EOF), hp_signal = (\<lambda>_. Inl EOF),
        hp_create = (\<lambda>_ z. (Inl EOF, z)), hp_net = example_env [], hp_v6 = (\<lambda>_. []), hp_dial = (\<lambda>_ _. Inl EOF)\<rparr>),
      cv_libp2p = Inl EOF, cv_quic = Inl EOF, cv_typed = None,
      cv_ctl = \<lparr>ce_proto = request_proto, ce_write = (\<lambda>st _. None), ce_wait = (\<lambda>_ _. None), ce_asked = Inl EOF\<rparr>\<rparr>"

lemma refused_env: "real_env refused_env"
    "connectToServer refused_env c opened st = Some (Some EOF, cleanupPreviousConnection c, opened, st)"
  by (auto simp: real_env_def refused_env_def detects_def connectToServer_def)

definition connected_client :: Client where
  "connected_client = (NewClient example_server_config)\<lparr>controlStream := Some 1, controlMessager := Some 1, controlDispatcher := Some 1\<rparr>"

theorem client_state_wf_witness:
  "client_wf example_server_config (IncreaseBackoff (cleanupPreviousConnection (NewClient example_server_config)))"
proof -
  have "client_step (NewClient example_server_config) (cleanupPreviousConnection (NewClient example_server_config))"
    using client_step.connect [OF refused_env(1) refused_env(2)] .
  then have "client_reach example_server_config (IncreaseBackoff (cleanupPreviousConnection (NewClient example_server_config)))"
    unfolding client_reach_def using client_step.retry by (meson converse_rtranclp_into_rtranclp r_into_rtranclp)
  then show ?thesis by (rule client_state_wf)
qed

theorem client_stop_witness:
  "cancelled (Client_Stop (NewClient example_server_config))"
  using client_stop [of example_server_config "NewClient example_server_config"] by (simp add: client_reach_def)

theorem manager_delays_witness:
  "\<exists>c' opened'. startConnectionManager 3 (\<lambda>_. refused_env) (\<lambda>_. undefined) (\<lambda>k. k = 2) 0
     (NewClient example_server_config) {} [] = Some (c', opened', [1000000000, 1500000000]) \<and> client_reach example_server_config c'"
proof -
  let ?go = "startConnectionManager 3 (\<lambda>_. refused_env) (\<lambda>_. undefined) (\<lambda>k. k = 2) 0 (NewClient example_server_config) {} []"
  have fields [simp]: "cancelled (cleanupPreviousConnection c) = cancelled c" "backoff (cleanupPreviousConnection c) = backoff c"
      "backoffMax (cleanupPreviousConnection c) = backoffMax c" "cancelled (IncreaseBackoff c) = cancelled c"
      "\<not> cancelled (NewClient cfg)" for c cfg
    by (simp_all add: IncreaseBackoff_def NewClient_def cleanupPreviousConnection_def cleanupDirectConn_def Let_def listening_def effect_opt_def split: option.split)
  obtain c' o' where run: "?go = Some (c', o', [1000000000, 1500000000])"
    by (simp add: eval_nat_numeral GetBackoff_def Let_def refused_env(2))
      (simp add: IncreaseBackoff_def GetBackoff_def Let_def NewClient_def)
  have "client_reach example_server_config (NewClient example_server_config)" by (simp add: client_reach_def)
  from manager_delays [OF refused_env(1) this run] run show ?thesis by auto
qed

text \<open>A server that is found and connected to but accepts no stream, and one that needs no password.\<close>

definition unserved_env :: "control conn_env" where
  "unserved_env = refused_env\<lparr>cv_find := None\<rparr>"

definition served_env :: "control conn_env" where
  "served_env = unserved_env\<lparr>cv_libp2p := Inr 7,
     cv_ctl := \<lparr>ce_proto = request_proto, ce_write = (\<lambda>st p. Some ((length p, None), st)),
       ce_wait = (\<lambda>t st. Some (Inr (zero_message\<lparr>m_Type := t, m_Success := True\<rparr>), st)), ce_asked = Inl EOF\<rparr>\<rparr>"

lemma cleanup_keeps:
  "cancelled (cleanupPreviousConnection c) = cancelled c" "cl_config (cleanupPreviousConnection c) = cl_config c"
  by (simp_all add: cleanupPreviousConnection_def cleanupDirectConn_def Let_def listening_def effect_opt_def split: option.split)

lemma example_attempts:
  "attempt_fails cfg refused_env st" "attempt_fails cfg unserved_env st" "attempt_succeeds example_server_config served_env st"
proof -
  show "attempt_fails cfg refused_env st" by (simp add: attempt_fails_def refused_env(2) cleanup_keeps)
  show "attempt_fails cfg unserved_env st"
    by (simp add: attempt_fails_def unserved_env_def refused_env_def connectToServer_def setupLibp2pProtocol_def Let_def
        listening_def ResetBackoff_def cleanup_keeps)
  have sent: "SendAuthRequest request_proto (\<lambda>st p. Some ((length p, None), st)) st' p = Some (None, st')" for st' :: control and p
    by (simp add: SendAuthRequest_def SendWithTTL_def ttl_of_def defaultControlTTL_def Let_def sendMessage_def request_proto_def
        maxProtoMsgSize_def writeFull.simps)
  have served: "\<exists>c' s'. run_protocol (cv_ctl served_env) 7 c st = Some (None, c', s')"
    if "cl_config c = example_server_config" "controlDispatcher c = Some 7" "controlMessager c = Some 7" for c
    using that sent
    by (simp add: run_protocol_def served_env_def authenticateWithServer_def verifyServiceConfiguration_def zero_message_def
        example_server_config_def zero_client_def)
  have "\<exists>c' o' s'. connectToServer served_env c opened st = Some (None, c', o', s')"
    if "cl_config c = example_server_config" for c opened
    using served [of "(effect Tag (ResetBackoff (cleanupPreviousConnection c)))\<lparr>controlStream := Some 7,
        controlMessager := Some 7, controlDispatcher := Some 7\<rparr>"] that
    by (auto simp: connectToServer_def served_env_def unserved_env_def refused_env_def setupLibp2pProtocol_def Let_def
        listening_def ResetBackoff_def cleanup_keeps)
  moreover have "cl_config c = example_server_config" if "client_reach example_server_config c" for c
    using wf_of_reach [OF that] by (simp add: client_wf_def)
  ultimately show "attempt_succeeds example_server_config served_env st" by (auto simp: attempt_succeeds_def)
qed

text \<open>Two attempts that do not find the server, one that reaches it and fails, one that succeeds.\<close>

theorem retry_delays_witness:
  "\<exists>c' opened' waited. startConnectionManager (Suc 3) (\<lambda>k. [refused_env, refused_env, unserved_env, served_env] ! min k 3)
     (\<lambda>_. (NewDispatcher, fresh_conn)) (\<lambda>_. False) 0 (NewClient example_server_config) {} [] = Some (c', opened', waited) \<and>
   waited = [second, 3 * second div 2, second] \<and> GetBackoff c' = second"
proof -
  let ?X = "\<lambda>k. [refused_env, refused_env, unserved_env, served_env] ! min k 3"
  let ?go = "startConnectionManager (Suc 3) ?X (\<lambda>_. (NewDispatcher, fresh_conn)) (\<lambda>_. False) 0 (NewClient example_server_config) {} []"
  have k: "k < 3 \<longleftrightarrow> k = 0 \<or> k = 1 \<or> k = 2" for k :: nat by auto
  let ?c = "NewClient example_server_config"
  have env: "real_env (?X k)" for k
    using refused_env(1) by (cases "k < 3") (auto simp: k real_env_def unserved_env_def served_env_def refused_env_def)
  have fails: "attempt_fails example_server_config (?X k) (NewDispatcher, fresh_conn) \<and> \<not> False" if "k < 3" for k
    using that example_attempts by (auto simp: k)
  have succeeds: "attempt_succeeds example_server_config (?X 3) (NewDispatcher, fresh_conn)" using example_attempts(3) by simp
  have new: "client_reach example_server_config ?c" "\<not> cancelled ?c" by (simp_all add: client_reach_def NewClient_def)
  obtain c' o' waited where r: "?go = Some (c', o', waited)" "GetBackoff c' = 1 * second" "length waited = 3" and
    w: "\<forall>k < 3. waited ! k = (if reaches (?X k) then 1 * second else if k = 0 then GetBackoff ?c
          else min (60 * second) (waited ! (k - 1) * 3 div 2)) \<and> second \<le> waited ! k \<and> waited ! k \<le> 60 * second \<and>
       (11 \<le> k \<and> (\<forall>j. k - 11 < j \<and> j \<le> k \<longrightarrow> \<not> reaches (?X j)) \<longrightarrow> waited ! k = 60 * second)"
    using retry_delays [where X = ?X and cfg = example_server_config and c = ?c and n = 3 and st = "\<lambda>_. (NewDispatcher, fresh_conn)"
        and halt = "\<lambda>_. False" and opened = "{}", OF env new fails succeeds] by blast
  have R: "\<not> reaches refused_env" "reaches unserved_env" by (simp_all add: reaches_def refused_env_def unserved_env_def)
  have "waited ! 0 = second" using w [rule_format, of 0] R by (simp add: GetBackoff_def NewClient_def)
  moreover have "waited ! 1 = 3 * second div 2" using w [rule_format, of 1] R calculation by simp
  moreover have "waited ! 2 = second" using w [rule_format, of 2] R by simp
  ultimately have "waited = [second, 3 * second div 2, second]"
    using r(3) by (intro nth_equalityI) (auto simp: k)
  then show ?thesis using r by (intro exI [of _ c'] exI [of _ o'] exI [of _ waited]) simp
qed

end
