(* ===== verification/Spec2Isabelle.thy ===== *)
theory Spec2Isabelle
  imports F2P_Version F2P_IO F2P_Compress F2P_Message F2P_Dispatcher F2P_Terminal F2P_Base64 F2P_Config
    F2P_Pipe F2P_Service F2P_Sessions F2P_STUN F2P_Punch F2P_Signaling F2P_Direct F2P_Client F2P_Agreement
    F2P_Main F2P_Forwarding F2P_Handlers F2P_Control F2P_Lifecycle
begin

text \<open>
  \<^bold>\<open>Verification of f2p\<close>, a program that forwards TCP and UDP services between two peers, over libp2p
  streams or over a direct QUIC connection through punched NATs.

  \<^bold>\<open>The program and its parts.\<close> A server offers the services of its configuration. A client finds it
  through the DHT, connects (\<^verbatim>\<open>internal/client/connect.go\<close>), punches a hole when only a relayed
  connection exists (\<^verbatim>\<open>internal/holepunch\<close>), opens a control stream, authenticates, verifies its
  services and listens for local connections (\<^verbatim>\<open>handshake.go\<close>, \<^verbatim>\<open>forward.go\<close>). Every local connection
  gets a data stream, which carries one service request and then the forwarded bytes, compressed or
  not (\<^verbatim>\<open>internal/compress\<close>, \<^verbatim>\<open>internal/pipe\<close>). Control messages are length-prefixed protobuf messages
  (\<^verbatim>\<open>internal/message\<close>) that a dispatcher sorts into queues for the waiting goroutines. The server keeps
  a table of authenticated sessions with a heartbeat each (\<^verbatim>\<open>internal/server\<close>).

  \<^bold>\<open>Conventions.\<close> Errors are values of the datatype \<open>error\<close> and fallible operations return a sum or an
  option of an error. A stream is a state with a reader and a writer; \<open>conn\<close> is the concrete stream,
  with the fragments that will arrive, the error after them and what was written. \<open>None\<close> of an
  operation means that it does not return (or panics where the source could). Concurrent code is a
  step relation whose steps are the sections under a lock. Libraries (protobuf, TOML, JSON, bcrypt,
  zstd, keys) are record parameters; the laws a theorem needs of them (\<open>proto_lossless\<close>,
  \<open>toml_lossless\<close>, \<open>bcrypt_laws\<close>, \<open>zstd_lossless\<close>) are its hypotheses, with an instance in its witness.

  \<^bold>\<open>The theories.\<close>
  \<^item> \<open>F2P_Prelude\<close>: generic lemmas and the model of the language and standard library parts in use.
  \<^item> \<open>F2P_Version\<close>: \<^verbatim>\<open>internal/version\<close>, the protocol identifiers.
  \<^item> \<open>F2P_IO\<close>: readers and writers, \<^verbatim>\<open>io.ReadFull\<close>, the locales \<open>byte_source\<close>, \<open>short_sink\<close>,
    \<open>byte_sink\<close> and \<open>reliable_sink\<close> that state the contracts of \<^verbatim>\<open>io.Reader\<close> and \<^verbatim>\<open>io.Writer\<close>, interpreted
    on \<open>conn\<close>.
  \<^item> \<open>F2P_Compress\<close>: \<^verbatim>\<open>internal/compress/zstd.go\<close>; the duplex satisfies the same locales; round trip over
    every fragmentation, frame sizes.
  \<^item> \<open>F2P_Message\<close>, \<open>F2P_Dispatcher\<close>: \<^verbatim>\<open>internal/message\<close>; round trip of messages, limits; the queues
    of the dispatcher as an invariant of all interleavings, its waiting callers against an abstract
    specification, no lost wake-up with one caller and two runs that lose one.
  \<^item> \<open>F2P_Terminal\<close>, \<open>F2P_Base64\<close>, \<open>F2P_Config\<close>: questions on the terminal, and
    \<^verbatim>\<open>internal/config/config.go\<close>: loading, saving, validating, passwords, the interactive set-up.
  \<^item> \<open>F2P_Pipe\<close>: \<^verbatim>\<open>internal/pipe/pipe.go\<close> as a step relation on ends of any type, a record of the
    operations of \<^verbatim>\<open>io.ReadWriteCloser\<close>; the locale \<open>pipe_end\<close> states what the pipe needs of an end, and
    each end receives a prefix of what was sent to the other. It is interpreted on connections here
    and holds for data streams, compressed or not, in \<open>F2P_Forwarding\<close>.
  \<^item> \<open>F2P_Service\<close>, \<open>F2P_Sessions\<close>: \<^verbatim>\<open>internal/server\<close>: service requests, authentication, data
    streams; the session table under concurrent control handlers and monitors, and the heartbeat.
  \<^item> \<open>F2P_STUN\<close>, \<open>F2P_Punch\<close>, \<open>F2P_Signaling\<close>, \<open>F2P_Direct\<close>: \<^verbatim>\<open>internal/holepunch\<close> and
    \<^verbatim>\<open>server/handlers_holepunch.go\<close>: the STUN parser and NAT types, the four punch methods with their
    sockets, packets and the time they take, the agreement of the two sides of the signaling, the token
    authentication and the routing of QUIC streams.
  \<^item> \<open>F2P_Client\<close>: \<^verbatim>\<open>internal/client\<close>: the client's state and every operation on it, with retries,
    clean-up, hole punching without leaked sockets, and the heartbeat.
  \<^item> \<open>F2P_Agreement\<close>: client and server on the two ends of a stream, through the locale
    \<open>message_channel\<close>, which the plain stream and the duplex satisfy.
  \<^item> \<open>F2P_Main\<close>: the logger, the start and stop of the server, the start of the client, and
    \<^verbatim>\<open>cmd/f2p/main.go\<close>.
  \<^item> \<open>F2P_Forwarding\<close>: a forwarded connection from the local listener of the client to the target of
    the server, over QUIC and over libp2p, and the bytes that the two pipes carry between the
    application and the target in both directions, all with and without compression.
  \<^item> \<open>F2P_Handlers\<close>: the control stream handlers of the server (\<^verbatim>\<open>handleControlStream\<close>,
    \<^verbatim>\<open>handleAuthenticationStream\<close>, \<^verbatim>\<open>handleQUICControlStream\<close>) and the deferred function of the monitor as
    whole functions, which refine the interleaved steps of \<open>F2P_Sessions\<close>; what a session leaves behind.
  \<^item> \<open>F2P_Control\<close>: a control stream from end to end through the dispatchers of both sides: a session is
    established, or refused for a wrong password; \<open>WaitFor_run\<close>, the schedule it uses, is one of the
    interleavings of the dispatcher.
  \<^item> \<open>F2P_Lifecycle\<close>: every operation of the client in any order, the well-formedness of its state, its
    stop, and the retries of its connection manager, whose attempts are \<open>connectToServer\<close>.

  \<^bold>\<open>Bounds and fuel.\<close> Loops over a stream are partial functions in the option monad, and the theorems
  about them prove that they return. Loops that run against time (the punch methods, the waiting loops,
  the monitors) are functions of the list of turns or events they see. Each turn of a punch takes the
  timers of the code (100 ms for a send, a second for a pause, 50 ms for a confirmation) and a time
  of its own on top; the clock is threaded through the loops and a punch returns the time of its
  end. \<open>F2P_Punch\<close> shows that 300 turns and 20 confirmations are enough, and bounds the time by the
  timeout of 30 s and the last turn. The connection manager has fuel, and \<open>F2P_Lifecycle\<close> shows that one
  more than the number of failed attempts is enough. Integers that can wrap around are words: lengths
  on the wire, transaction identifiers, varints and the counters of the duplex. Times and durations
  are integers of nanoseconds.

  \<^bold>\<open>Not modelled.\<close> The printed summaries and the help text, which have no effect on the state; what
  libp2p does with its options; deadlines of streams, which are among the
  errors a stream can return; the key and certificate functions, whose results are parameters; the
  generated protobuf code, of which only the message type is used. A stream hands out data and an
  error in separate reads, although the locale \<open>pipe_end\<close> allows both in one. In \<open>F2P_Control\<close> the
  peer's bytes are the input of each side, so that the theorems speak about a pair of runs that feed
  each other, under the schedule in which a reader runs while its caller sleeps.
\<close>

end
